(* ===== verification/Prelude.thy ===== *)
theory Prelude
  imports
    Main
    "HOL-Library.Word"
    "HOL-Library.Multiset"
    "HOL-Library.AList"
    "HOL-Library.Sublist"
    "HOL-Library.Char_ord"
    "HOL-Library.List_Lexorder"
begin

unbundle bit_operations_syntax

text \<open>
  Shared vocabulary of the development: how the values of Go are represented, the parts of Go's
  language and standard library that more than one component uses (byte and string conversion,
  slicing with its panic, maps and their iteration order, buffered channels, \<open>time\<close>,
  \<open>strings\<close>), the named theorem collections, and the generic lemmas the component
  theories rely on.

  \<^item> \<open>byte\<close> is an 8-bit word; a Go \<open>string\<close> is its sequence of bytes, which is
    Isabelle's \<open>string\<close> (a \<open>char\<close> is an 8-bit value);
  \<^item> \<open>time.Time\<close> is the number of nanoseconds since Go's zero time, so
    \<open>IsZero\<close> is \<open>t = 0\<close>; a \<open>time.Duration\<close> is a number of nanoseconds;
  \<^item> a Go map is an association list with distinct keys; the order in which \<open>range\<close>
    visits it is an argument of the operations that iterate;
  \<^item> a buffered channel is its capacity and its queue.
\<close>

section \<open>Collections\<close>

named_theorems go_defs \<open>definitions that unfold to library operations\<close>
named_theorems codec_simps \<open>rewrite rules for encoders and decoders\<close>
named_theorems table_simps \<open>rewrite rules for tables and maps\<close>

section \<open>Bytes and strings\<close>

type_synonym byte = "8 word"
type_synonym bytes = "8 word list"

definition byte_of_char :: "char \<Rightarrow> byte" where
  "byte_of_char c = word_of_nat (of_char c)"

definition char_of_byte :: "byte \<Rightarrow> char" where
  "char_of_byte b = char_of (unat b)"

lemma char_of_byte_of_char [simp, codec_simps]: "char_of_byte (byte_of_char c) = c"
proof -
  have "(of_char c :: nat) < 256"
    by (rule nat_of_char_less_256)
  then show ?thesis
    by (simp add: char_of_byte_def byte_of_char_def unat_of_nat)
qed

lemma byte_of_char_of_byte [simp, codec_simps]: "byte_of_char (char_of_byte b) = b"
proof -
  have "unat b < 256"
    using unsigned_less [of b, where ?'a = nat] by simp
  then show ?thesis
    by (simp add: char_of_byte_def byte_of_char_def)
qed

text \<open>The conversions \<open>[]byte(s)\<close> and \<open>string(b)\<close>.\<close>

definition bytes_of_string :: "string \<Rightarrow> bytes" where
  "bytes_of_string s = map byte_of_char s"

definition string_of_bytes :: "bytes \<Rightarrow> string" where
  "string_of_bytes b = map char_of_byte b"

lemma string_of_bytes_of_string [simp, codec_simps]: "string_of_bytes (bytes_of_string s) = s"
  by (simp add: string_of_bytes_def bytes_of_string_def o_def)

lemma bytes_of_string_of_bytes [simp, codec_simps]: "bytes_of_string (string_of_bytes b) = b"
  by (simp add: string_of_bytes_def bytes_of_string_def o_def)

lemma length_bytes_of_string [simp, codec_simps]: "length (bytes_of_string s) = length s"
  by (simp add: bytes_of_string_def)

lemma length_string_of_bytes [simp, codec_simps]: "length (string_of_bytes b) = length b"
  by (simp add: string_of_bytes_def)

lemma bytes_of_string_eq_iff [simp]: "bytes_of_string s = bytes_of_string t \<longleftrightarrow> s = t"
  by (metis string_of_bytes_of_string)

text \<open>Go's slice expression \<open>s[a:b]\<close>, \<open>None\<close> where it panics.\<close>

definition go_slice :: "'a list \<Rightarrow> nat \<Rightarrow> nat \<Rightarrow> 'a list option" where
  "go_slice xs a b = (if a \<le> b \<and> b \<le> length xs then Some (take (b - a) (drop a xs)) else None)"

lemma go_slice_within [simp]: "a \<le> b \<Longrightarrow> b \<le> length xs \<Longrightarrow> go_slice xs a b = Some (take (b - a) (drop a xs))"
  by (simp add: go_slice_def)

lemma go_slice_append [codec_simps]:
  "go_slice (us @ vs @ ws) (length us) (length us + length vs) = Some vs"
  by (simp add: go_slice_def)

section \<open>Big-endian 32-bit integers\<close>

text \<open>\<open>binary.BigEndian.PutUint32\<close> and \<open>binary.BigEndian.Uint32\<close> on four bytes.\<close>

definition PutUint32 :: "32 word \<Rightarrow> bytes" where
  "PutUint32 v = [ucast (drop_bit 24 v), ucast (drop_bit 16 v), ucast (drop_bit 8 v), ucast v]"

fun Uint32 :: "bytes \<Rightarrow> 32 word" where
  "Uint32 [b0, b1, b2, b3] =
     ucast b3 OR push_bit 8 (ucast b2) OR push_bit 16 (ucast b1) OR push_bit 24 (ucast b0)"
| "Uint32 _ = 0"

lemma length_PutUint32 [simp, codec_simps]: "length (PutUint32 v) = 4"
  by (simp add: PutUint32_def)

lemma Uint32_PutUint32 [simp, codec_simps]: "Uint32 (PutUint32 v) = v"
proof (rule bit_word_eqI)
  fix n
  assume "n < LENGTH(32)"
  then show "bit (Uint32 (PutUint32 v)) n = bit v n"
    by (cases "n < 24"; cases "n < 16")
      (auto simp: PutUint32_def bit_or_iff bit_push_bit_iff bit_ucast_iff bit_drop_bit_eq)
qed

lemma PutUint32_Uint32:
  assumes "length b = 4"
  shows "PutUint32 (Uint32 b) = b"
proof -
  from assms obtain b0 b1 b2 b3 where b: "b = [b0, b1, b2, b3]"
    by (auto simp: numeral_eq_Suc length_Suc_conv)
  have "ucast (drop_bit 24 (Uint32 b)) = b0" "ucast (drop_bit 16 (Uint32 b)) = b1"
    "ucast (drop_bit 8 (Uint32 b)) = b2" "ucast (Uint32 b) = b3"
    by (rule bit_word_eqI;
        auto simp: b bit_or_iff bit_push_bit_iff bit_ucast_iff bit_drop_bit_eq
             dest: bit_imp_le_length)+
  then show ?thesis
    by (simp add: PutUint32_def b)
qed

section \<open>Maps and their iteration order\<close>

text \<open>
  A Go map is an association list with distinct keys: lookup is \<open>map_of\<close>, assignment
  \<open>AList.update\<close>, \<open>delete\<close> is \<open>AList.delete\<close> and \<open>len\<close> is
  \<open>length\<close>. A \<open>range\<close> loop visits every entry once in an order the language leaves
  open: an operation that iterates takes the order as a function on the entries.
\<close>

type_synonym ('k, 'v) gomap = "('k \<times> 'v) list"

definition map_wf :: "('k, 'v) gomap \<Rightarrow> bool" where
  "map_wf m = distinct (map fst m)"

definition range_order :: "(('k, 'v) gomap \<Rightarrow> ('k, 'v) gomap) \<Rightarrow> bool" where
  "range_order ord \<longleftrightarrow> (\<forall>m. mset (ord m) = mset m)"

lemma range_order_id [simp]: "range_order (\<lambda>m. m)"
  by (simp add: range_order_def)

lemma range_order_rev [simp]: "range_order rev"
  by (simp add: range_order_def)

lemma range_order_set: "range_order ord \<Longrightarrow> set (ord m) = set m"
  by (metis range_order_def set_mset_mset)

lemma range_order_length: "range_order ord \<Longrightarrow> length (ord m) = length m"
  by (metis range_order_def size_mset)

lemma map_wf_Nil [simp]: "map_wf []"
  by (simp add: map_wf_def)

lemma map_wf_update [simp, intro]: "map_wf m \<Longrightarrow> map_wf (AList.update k v m)"
  by (simp add: map_wf_def distinct_update)

lemma map_wf_delete [simp, intro]: "map_wf m \<Longrightarrow> map_wf (AList.delete k m)"
  by (simp add: map_wf_def distinct_delete)

lemma map_wf_filter [simp, intro]: "map_wf m \<Longrightarrow> map_wf (filter P m)"
  by (induction m) (auto simp: map_wf_def)

lemma map_wf_ConsD: "map_wf (x # m) \<Longrightarrow> map_wf m"
  by (simp add: map_wf_def)

lemma map_wf_mapD: "map_wf m \<Longrightarrow> (k, v) \<in> set m \<longleftrightarrow> map_of m k = Some v"
  by (simp add: map_wf_def)

lemma map_of_update [simp, table_simps]:
  "map_of (AList.update k v m) = (map_of m)(k \<mapsto> v)"
  by (rule update_conv')

lemma map_of_delete_eq [simp, table_simps]:
  "map_of (AList.delete k m) = (map_of m)(k := None)"
  by (rule delete_conv')

lemma map_of_filter_snd:
  assumes "map_wf m"
  shows "map_of (filter (\<lambda>(k, v). P v) m) k =
    (case map_of m k of None \<Rightarrow> None | Some v \<Rightarrow> if P v then Some v else None)"
  using assms
proof (induction m)
  case (Cons x m)
  obtain a v where x: "x = (a, v)" by (cases x)
  from Cons.prems have "a \<notin> fst ` set m" and wf: "map_wf m"
    by (auto simp: map_wf_def x)
  then have "map_of m a = None"
    by (simp add: map_of_eq_None_iff)
  then show ?case
    using Cons.IH [OF wf] by (auto simp: x split: option.splits)
qed simp

lemma length_update:
  "map_wf m \<Longrightarrow> length (AList.update k v m) = (if map_of m k = None then Suc (length m) else length m)"
  by (induction m) (auto simp: map_wf_def map_of_eq_None_iff image_iff split: if_splits)

lemma length_delete:
  assumes "map_wf m"
  shows "length (AList.delete k m) = (if map_of m k = None then length m else length m - 1)"
  using assms
proof (induction m)
  case (Cons x m)
  obtain a v where x: "x = (a, v)" by (cases x)
  from Cons.prems have "a \<notin> fst ` set m" and wf: "map_wf m"
    by (auto simp: map_wf_def x)
  then have none: "map_of m a = None"
    by (simp add: map_of_eq_None_iff)
  have "m \<noteq> []" if "map_of m k \<noteq> None"
    using that by auto
  then show ?case
    using Cons.IH [OF wf] none by (auto simp: x)
qed (simp add: map_wf_def)

section \<open>Buffered channels\<close>

text \<open>
  A channel made with a capacity: the non-blocking send of a \<open>select\<close> with a
  \<open>default\<close> branch enqueues while there is room and otherwise leaves the channel alone;
  a receive takes the oldest element.
\<close>

record 'a chan =
  chan_cap :: nat
  chan_buf :: "'a list"

definition make_chan :: "nat \<Rightarrow> 'a chan" where
  "make_chan n = \<lparr>chan_cap = n, chan_buf = []\<rparr>"

definition chan_try_send :: "'a \<Rightarrow> 'a chan \<Rightarrow> 'a chan \<times> bool" where
  "chan_try_send x c =
     (if length (chan_buf c) < chan_cap c then (c\<lparr>chan_buf := chan_buf c @ [x]\<rparr>, True)
      else (c, False))"

definition chan_try_recv :: "'a chan \<Rightarrow> ('a \<times> 'a chan) option" where
  "chan_try_recv c =
     (case chan_buf c of [] \<Rightarrow> None | x # xs \<Rightarrow> Some (x, c\<lparr>chan_buf := xs\<rparr>))"

definition chan_ok :: "'a chan \<Rightarrow> bool" where
  "chan_ok c \<longleftrightarrow> length (chan_buf c) \<le> chan_cap c"

text \<open>
  The contract a producer relies on: a bounded FIFO queue whose send never blocks and never
  reorders, and which loses an element only when the queue is full.
\<close>

locale bounded_fifo =
  fixes try_send :: "'a \<Rightarrow> 'q \<Rightarrow> 'q \<times> bool"
    and try_recv :: "'q \<Rightarrow> ('a \<times> 'q) option"
    and contents :: "'q \<Rightarrow> 'a list"
    and capacity :: "'q \<Rightarrow> nat"
  assumes send_room:
      "length (contents q) < capacity q \<Longrightarrow>
       \<exists>q'. try_send x q = (q', True) \<and> contents q' = contents q @ [x] \<and> capacity q' = capacity q"
    and send_full: "\<not> length (contents q) < capacity q \<Longrightarrow> try_send x q = (q, False)"
    and recv_empty: "try_recv q = None \<longleftrightarrow> contents q = []"
    and recv_head:
      "try_recv q = Some (x, q') \<Longrightarrow> contents q = x # contents q' \<and> capacity q' = capacity q"
begin

definition send_all :: "'a list \<Rightarrow> 'q \<Rightarrow> 'q" where
  "send_all xs q = fold (\<lambda>x q. fst (try_send x q)) xs q"

lemma send_all_Nil [simp]: "send_all [] q = q"
  by (simp add: send_all_def)

lemma send_all_Cons [simp]: "send_all (x # xs) q = send_all xs (fst (try_send x q))"
  by (simp add: send_all_def)

lemma capacity_send: "capacity (fst (try_send x q)) = capacity q"
  using send_room [of q x] send_full [of q x] by fastforce

lemma bound_send: "length (contents q) \<le> capacity q \<Longrightarrow> length (contents (fst (try_send x q))) \<le> capacity q"
  using send_room [of q x] send_full [of q x] by fastforce

lemma send_all_fits:
  "length (contents q) + length xs \<le> capacity q \<Longrightarrow>
   contents (send_all xs q) = contents q @ xs \<and> capacity (send_all xs q) = capacity q"
proof (induction xs arbitrary: q)
  case (Cons x xs)
  then obtain q' where "try_send x q = (q', True)" "contents q' = contents q @ [x]"
    "capacity q' = capacity q"
    using send_room [of q x] by auto
  with Cons.IH [of q'] Cons.prems show ?case by simp
qed simp

text \<open>Whatever is sent, what the queue holds is the oldest elements offered, in order.\<close>

lemma send_all_take:
  "length (contents q) \<le> capacity q \<Longrightarrow>
   contents (send_all xs q) = contents q @ take (capacity q - length (contents q)) xs"
proof (induction xs arbitrary: q)
  case (Cons x xs)
  show ?case
  proof (cases "length (contents q) < capacity q")
    case True
    then obtain q' where q': "try_send x q = (q', True)" "contents q' = contents q @ [x]"
      "capacity q' = capacity q"
      using send_room [of q x] by auto
    with True Cons.IH [of q'] show ?thesis
      by (simp add: Suc_diff_Suc [symmetric] take_Cons')
  next
    case False
    with Cons show ?thesis
      using send_full [of q x] by simp
  qed
qed simp

end

interpretation chan: bounded_fifo chan_try_send chan_try_recv chan_buf chan_cap
  by unfold_locales (auto simp: chan_try_send_def chan_try_recv_def split: list.splits)

lemma chan_ok_make [simp]: "chan_ok (make_chan n)"
  by (simp add: chan_ok_def make_chan_def)

lemma chan_ok_send [simp, intro]: "chan_ok c \<Longrightarrow> chan_ok (fst (chan_try_send x c))"
  using chan.bound_send [of c x] chan.capacity_send [of x c] by (simp add: chan_ok_def)

section \<open>Time\<close>

type_synonym time = int
type_synonym duration = int

abbreviation Millisecond :: duration where "Millisecond \<equiv> 1000000"
abbreviation Second :: duration where "Second \<equiv> 1000000000"
abbreviation Minute :: duration where "Minute \<equiv> 60000000000"
abbreviation Hour :: duration where "Hour \<equiv> 3600000000000"

text \<open>\<open>Time.Sub\<close> saturates at the bounds of a 64-bit duration.\<close>

definition time_sub :: "time \<Rightarrow> time \<Rightarrow> duration" where
  "time_sub t u = max (- (2 ^ 63)) (min (2 ^ 63 - 1) (t - u))"

lemma time_sub_le_iff: "- (2 ^ 63) \<le> d \<Longrightarrow> d < 2 ^ 63 - 1 \<Longrightarrow> time_sub t u \<le> d \<longleftrightarrow> t - u \<le> d"
  by (auto simp: time_sub_def)

lemma time_sub_self [simp]: "time_sub t t = 0"
  by (simp add: time_sub_def)

section \<open>Strings\<close>

text \<open>
  The functions of package \<open>strings\<close> the program calls. \<open>strings.HasPrefix\<close> is
  \<open>prefix\<close> of the library; \<open>strings.Split\<close> with a one-byte separator,
  \<open>strings.SplitN\<close> with limit two, \<open>strings.TrimSpace\<close> (which trims Unicode white
  space, here by its UTF-8 byte sequences) and \<open>strings.TrimSuffix\<close> follow.
\<close>

fun strings_Split :: "string \<Rightarrow> char \<Rightarrow> string list" where
  "strings_Split [] sep = [[]]"
| "strings_Split (c # s) sep =
     (if c = sep then [] # strings_Split s sep
      else (case strings_Split s sep of [] \<Rightarrow> [[c]] | p # ps \<Rightarrow> (c # p) # ps))"

fun strings_Join :: "string list \<Rightarrow> char \<Rightarrow> string" where
  "strings_Join [] sep = []"
| "strings_Join [p] sep = p"
| "strings_Join (p # q # ps) sep = p @ sep # strings_Join (q # ps) sep"

definition strings_SplitN2 :: "string \<Rightarrow> char \<Rightarrow> string list" where
  "strings_SplitN2 s sep =
     (if sep \<in> set s
      then [takeWhile (\<lambda>c. c \<noteq> sep) s, tl (dropWhile (\<lambda>c. c \<noteq> sep) s)] else [s])"

definition strings_TrimSuffix :: "string \<Rightarrow> string \<Rightarrow> string" where
  "strings_TrimSuffix s suf = (if suffix suf s then take (length s - length suf) s else s)"

text \<open>
  White space: the six ASCII characters and the code points U+0085, U+00A0, U+1680, U+2000 to
  U+200A, U+2028, U+2029, U+202F, U+205F and U+3000 in UTF-8.
\<close>

definition space_seqs :: "string list" where
  "space_seqs =
     [[CHR 0x09], [CHR 0x0A], [CHR 0x0B], [CHR 0x0C], [CHR 0x0D], [CHR 0x20],
      [CHR 0xC2, CHR 0x85], [CHR 0xC2, CHR 0xA0], [CHR 0xE1, CHR 0x9A, CHR 0x80]]
     @ map (\<lambda>c. [CHR 0xE2, CHR 0x80, c])
         [CHR 0x80, CHR 0x81, CHR 0x82, CHR 0x83, CHR 0x84, CHR 0x85, CHR 0x86, CHR 0x87,
          CHR 0x88, CHR 0x89, CHR 0x8A, CHR 0xA8, CHR 0xA9, CHR 0xAF]
     @ [[CHR 0xE2, CHR 0x81, CHR 0x9F], [CHR 0xE3, CHR 0x80, CHR 0x80]]"

definition strip_one :: "string list \<Rightarrow> string \<Rightarrow> string option" where
  "strip_one seqs s =
     (case List.find (\<lambda>p. prefix p s) seqs of None \<Rightarrow> None | Some p \<Rightarrow> Some (drop (length p) s))"

function strip_all :: "string list \<Rightarrow> string \<Rightarrow> string" where
  "strip_all seqs s =
     (case strip_one seqs s of None \<Rightarrow> s
      | Some s' \<Rightarrow> if length s' < length s then strip_all seqs s' else s)"
  by pat_completeness auto
termination
  by (relation "measure (\<lambda>(seqs, s). length s)") auto

declare strip_all.simps [simp del]

definition strings_TrimSpace :: "string \<Rightarrow> string" where
  "strings_TrimSpace s =
     rev (strip_all (map rev space_seqs) (rev (strip_all space_seqs s)))"

lemma dropWhile_neq_append [simp]: "c \<notin> set s \<Longrightarrow> dropWhile (\<lambda>x. x \<noteq> c) (s @ c # r) = c # r"
  by (induction s) auto

lemma takeWhile_neq_append [simp]: "c \<notin> set s \<Longrightarrow> takeWhile (\<lambda>x. x \<noteq> c) (s @ c # r) = s"
  by (induction s) auto

lemma strings_Split_nonempty [simp]: "strings_Split s sep \<noteq> []"
  by (induction s) (auto split: list.splits)

lemma strings_Split_free [simp]: "sep \<notin> set s \<Longrightarrow> strings_Split s sep = [s]"
  by (induction s) auto

lemma strings_Split_append [simp]:
  "sep \<notin> set p \<Longrightarrow> strings_Split (p @ sep # s) sep = p # strings_Split s sep"
  by (induction p) auto

lemma strings_Join_Split: "strings_Join (strings_Split s sep) sep = s"
proof (induction s)
  case (Cons c s)
  obtain p ps where sp: "strings_Split s sep = p # ps"
    by (cases "strings_Split s sep") auto
  with Cons show ?case
    by (cases ps) auto
qed simp

lemma strings_Split_parts_free: "p \<in> set (strings_Split s sep) \<Longrightarrow> sep \<notin> set p"
proof (induction s arbitrary: p)
  case (Cons c s)
  obtain q ps where sp: "strings_Split s sep = q # ps"
    by (cases "strings_Split s sep") auto
  with Cons show ?case
    by (auto split: if_splits)
qed simp

lemma strings_Split_3D:
  assumes "strings_Split s sep = [a, b, c]"
  shows "s = a @ sep # b @ sep # c"
  using strings_Join_Split [of s sep] assms by simp

lemma suffix_strip_one: "strip_one seqs s = Some s' \<Longrightarrow> suffix s' s"
  by (auto simp: strip_one_def suffix_drop split: option.splits)

lemma suffix_strip_all: "suffix (strip_all seqs s) s"
proof (induction seqs s rule: strip_all.induct)
  case (1 seqs s)
  then show ?case
    by (subst strip_all.simps)
      (auto split: option.splits dest: suffix_strip_one intro: suffix_order.trans)
qed

text \<open>Trimming returns a contiguous part of its argument.\<close>

lemma TrimSpace_sublist: "sublist (strings_TrimSpace s) s"
proof -
  have "suffix (rev (strings_TrimSpace s)) (rev (strip_all space_seqs s))"
    by (simp add: strings_TrimSpace_def suffix_strip_all)
  then have "prefix (strings_TrimSpace s) (strip_all space_seqs s)"
    by (simp add: suffix_to_prefix)
  with suffix_strip_all [of space_seqs s] show ?thesis
    by (meson prefix_imp_sublist sublist_order.order.trans suffix_imp_sublist)
qed

lemma strip_one_None: "strip_one seqs s = None \<longleftrightarrow> (\<forall>p\<in>set seqs. \<not> prefix p s)"
  using find_None_iff [of "\<lambda>p. prefix p s" seqs] by (auto simp: strip_one_def split: option.splits)

lemma strip_one_shorter:
  "[] \<notin> set seqs \<Longrightarrow> strip_one seqs s = Some s' \<Longrightarrow> length s' < length s"
  by (auto simp: strip_one_def find_Some_iff prefix_def split: option.splits)
    (metis append_is_Nil_conv length_greater_0_conv nth_mem)

lemma strip_all_done:
  assumes "[] \<notin> set seqs" "p \<in> set seqs"
  shows "\<not> prefix p (strip_all seqs s)"
  using assms
proof (induction seqs s rule: strip_all.induct)
  case (1 seqs s)
  show ?case
  proof (cases "strip_one seqs s")
    case None
    with "1.prems" strip_one_None [of seqs s] show ?thesis
      by (simp add: strip_all.simps [of seqs s])
  next
    case (Some s')
    with "1.prems" have "length s' < length s"
      by (blast dest: strip_one_shorter)
    with Some "1.IH" [OF Some] "1.prems" show ?thesis
      by (simp add: strip_all.simps [of seqs s])
  qed
qed

lemma strip_all_id: "\<forall>p\<in>set seqs. \<not> prefix p s \<Longrightarrow> strip_all seqs s = s"
  by (simp add: strip_all.simps strip_one_None [THEN iffD2])

lemma space_seqs_nonempty: "[] \<notin> set space_seqs"
  by (simp add: space_seqs_def)

lemma TrimSpace_idem [simp]: "strings_TrimSpace (strings_TrimSpace s) = strings_TrimSpace s"
proof -
  let ?u = "strip_all space_seqs s" and ?t = "strings_TrimSpace s"
  have "suffix (rev ?t) (rev ?u)"
    by (simp add: strings_TrimSpace_def suffix_strip_all)
  then have "prefix ?t ?u"
    by (simp add: suffix_to_prefix)
  then have "strip_all space_seqs ?t = ?t"
    using strip_all_done [OF space_seqs_nonempty]
    by (auto intro!: strip_all_id dest: prefix_order.trans)
  moreover have "strip_all (map rev space_seqs) (rev ?t) = rev ?t"
    using strip_all_done [of "map rev space_seqs"] space_seqs_nonempty
    by (intro strip_all_id) (auto simp: strings_TrimSpace_def image_iff)
  ultimately show ?thesis
    by (simp add: strings_TrimSpace_def [of ?t])
qed

text \<open>ASCII case folding, for comparison against ASCII literals.\<close>

definition ascii_lower :: "char \<Rightarrow> char" where
  "ascii_lower c =
     (let n = (of_char c :: nat) in if 65 \<le> n \<and> n \<le> 90 then char_of (n + 32) else c)"

lemma find_append:
  "List.find P (xs @ ys) = (case List.find P xs of None \<Rightarrow> List.find P ys | Some x \<Rightarrow> Some x)"
  by (induction xs) simp_all

section \<open>Tables whose entries expire\<close>

text \<open>
  A \<open>range\<close> loop that deletes the entries found dead while it visits them. Whatever the order
  of the visit, what remains is the live entries.
\<close>

locale purging_table =
  fixes dead :: "time \<Rightarrow> 'v \<Rightarrow> bool"
    and purge :: "time \<Rightarrow> ('k \<times> 'v) list \<Rightarrow> ('k, 'v) gomap \<Rightarrow> ('k, 'v) gomap"
  assumes purge_Nil: "purge now [] m = m"
    and purge_Cons:
      "purge now ((k, v) # es) m = purge now es (if dead now v then AList.delete k m else m)"
begin

lemma purge_filter:
  "purge now es m = filter (\<lambda>(k, v). \<not> (\<exists>v'. (k, v') \<in> set es \<and> dead now v')) m"
proof (induction es arbitrary: m)
  case (Cons x es)
  obtain k v where x: "x = (k, v)" by (cases x)
  show ?case
    unfolding x purge_Cons Cons.IH
    by (auto simp: AList.delete_eq intro!: filter_cong)
qed (simp add: purge_Nil)

lemma purge_all:
  assumes "range_order ord" "map_wf m"
  shows "purge now (ord m) m = filter (\<lambda>(k, v). \<not> dead now v) m"
proof -
  have "(\<exists>v'. (k, v') \<in> set m \<and> dead now v') \<longleftrightarrow> dead now v" if "(k, v) \<in> set m" for k v
    using that assms(2) by (metis map_wf_mapD option.inject)
  then show ?thesis
    by (auto simp: purge_filter range_order_set [OF assms(1)] intro!: filter_cong)
qed

lemma lookup_purge:
  assumes "range_order ord" "map_wf m"
  shows "map_of (purge now (ord m) m) k =
    (case map_of m k of None \<Rightarrow> None | Some v \<Rightarrow> if dead now v then None else Some v)"
  using map_of_filter_snd [OF assms(2), of "\<lambda>v. \<not> dead now v" k]
  by (simp add: purge_all [OF assms] split: option.splits)

lemma map_wf_purge: "map_wf m \<Longrightarrow> map_wf (purge now es m)"
  by (simp add: purge_filter map_wf_filter)

lemma length_purge: "length (purge now es m) \<le> length m"
  by (simp add: purge_filter)

end

section \<open>The first minimum of a list\<close>

primrec first_min :: "('a \<Rightarrow> int) \<Rightarrow> 'a \<Rightarrow> 'a list \<Rightarrow> bool" where
  "first_min f e [] = False"
| "first_min f e (x # xs) = (x = e \<and> (\<forall>y \<in> set xs. f e \<le> f y) \<or> f e < f x \<and> first_min f e xs)"

lemma first_min_in: "first_min f e xs \<Longrightarrow> e \<in> set xs"
  by (induction xs) auto

lemma first_min_least: "first_min f e xs \<Longrightarrow> x \<in> set xs \<Longrightarrow> f e \<le> f x"
  by (induction xs) auto

lemma first_min_unique: "first_min f e xs \<Longrightarrow> first_min f e' xs \<Longrightarrow> e = e'"
  by (induction xs) (simp, use first_min_in in fastforce)

lemma first_min_iff:
  "first_min f e xs \<longleftrightarrow>
    (\<exists>pre post. xs = pre @ e # post \<and> (\<forall>x \<in> set pre. f e < f x) \<and> (\<forall>x \<in> set post. f e \<le> f x))"
proof
  show "first_min f e xs \<Longrightarrow> \<exists>pre post. xs = pre @ e # post \<and> (\<forall>x \<in> set pre. f e < f x) \<and> (\<forall>x \<in> set post. f e \<le> f x)"
  proof (induction xs)
    case (Cons x xs)
    then consider "x = e" "\<forall>y \<in> set xs. f e \<le> f y" | "f e < f x" "first_min f e xs"
      by auto
    then show ?case
    proof cases
      case 1
      then show ?thesis by (intro exI [of _ "[]"] exI [of _ xs]) simp
    next
      case 2
      then obtain pre post where "xs = pre @ e # post" "\<forall>x \<in> set pre. f e < f x" "\<forall>x \<in> set post. f e \<le> f x"
        using Cons.IH by blast
      with 2 show ?thesis by (intro exI [of _ "x # pre"] exI [of _ post]) simp
    qed
  qed simp
next
  assume "\<exists>pre post. xs = pre @ e # post \<and> (\<forall>x \<in> set pre. f e < f x) \<and> (\<forall>x \<in> set post. f e \<le> f x)"
  then obtain pre post where "xs = pre @ e # post" "\<forall>x \<in> set pre. f e < f x" "\<forall>x \<in> set post. f e \<le> f x"
    by blast
  then show "first_min f e xs"
    by (induction pre arbitrary: xs) auto
qed

section \<open>Files\<close>

text \<open>What \<open>os.ReadFile\<close> returns: the content, \<open>os.ErrNotExist\<close>, or another error.\<close>

datatype read_result = ReadOk bytes | ReadNotExist | ReadFail string

end
