(* ===== verification/Protocol.thy ===== *)
theory Protocol
  imports Prelude
begin

text \<open>
  Package \<open>protocol\<close>: the frame and envelope wire formats
  (\<open>src/internal/protocol/frame.go\<close>, \<open>envelope.go\<close>) and the heartbeat messages
  (\<open>heartbeat.go\<close>). The locale \<open>wire_codec\<close> states what the mesh relies on of a
  format; \<open>canonical_codec\<close> adds that a decoded value accounts for the bytes it was read
  from. Both formats are interpretations.
\<close>

section \<open>Interface of a wire format\<close>

locale wire_codec =
  fixes enc :: "'a \<Rightarrow> bytes"
    and dec :: "bytes \<Rightarrow> 'e + 'a"
    and valid :: "'a \<Rightarrow> bool"
  assumes dec_enc: "valid x \<Longrightarrow> dec (enc x) = Inr x"
begin

lemma enc_inject: "valid x \<Longrightarrow> valid y \<Longrightarrow> enc x = enc y \<longleftrightarrow> x = y"
  using dec_enc by (metis sum.inject(2))

lemma enc_inj_on: "inj_on enc (Collect valid)"
  by (auto simp: inj_on_def enc_inject)

end

locale canonical_codec = wire_codec enc dec valid
  for enc :: "'a \<Rightarrow> bytes" and dec :: "bytes \<Rightarrow> 'e + 'a" and valid :: "'a \<Rightarrow> bool" +
  assumes dec_valid: "dec bs = Inr x \<Longrightarrow> valid x"
    and dec_prefix: "dec bs = Inr x \<Longrightarrow> prefix (enc x) bs"
begin

text \<open>Decoding is idempotent: what was read re-encodes to bytes that read back the same.\<close>

lemma dec_canonical: "dec bs = Inr x \<Longrightarrow> dec (enc x) = Inr x"
  by (blast intro: dec_enc dec_valid)

lemma dec_same_length_unique:
  assumes "dec bs = Inr x" "length bs = length (enc x)"
  shows "bs = enc x"
  using dec_prefix [OF assms(1)] assms(2) by (auto simp: prefix_def)

end

section \<open>Frames\<close>

type_synonym FrameType = byte

definition FrameTypeHeader :: FrameType where "FrameTypeHeader = 0x01"
definition FrameTypeChunk :: FrameType where "FrameTypeChunk = 0x02"
definition FrameTypeEOF :: FrameType where "FrameTypeEOF = 0x03"
definition FrameTypeError :: FrameType where "FrameTypeError = 0xFF"

lemmas frame_type_defs =
  FrameTypeHeader_def FrameTypeChunk_def FrameTypeEOF_def FrameTypeError_def

definition MaxPayloadLen :: "32 word" where
  "MaxPayloadLen = push_bit 24 1"

definition headerSize :: nat where "headerSize = 5"

record Frame =
  frame_Type :: FrameType
  frame_Payload :: bytes

text \<open>The errors of both decoders; \<open>SliceBounds\<close> stands for Go's slice panic.\<close>

datatype proto_err =
    ErrFrameTooShort nat
  | ErrPayloadTooLarge "32 word"
  | ErrPayloadTruncated "32 word" nat
  | ErrEnvTooShort nat
  | ErrReqIDTruncated nat nat
  | SliceBounds

definition Frame_Encode :: "Frame \<Rightarrow> bytes" where
  "Frame_Encode f =
     frame_Type f # PutUint32 (word_of_nat (length (frame_Payload f))) @ frame_Payload f"

definition DecodeFrame :: "bytes \<Rightarrow> proto_err + Frame" where
  "DecodeFrame data =
     (if length data < headerSize then Inl (ErrFrameTooShort (length data))
      else
        let fType = data ! 0;
            len = Uint32 (take 4 (drop 1 data))
        in if MaxPayloadLen < len then Inl (ErrPayloadTooLarge len)
           else if (word_of_nat (length data - headerSize) :: 32 word) < len
             then Inl (ErrPayloadTruncated len (length data - headerSize))
           else (case go_slice data headerSize (unat (word_of_nat headerSize + len)) of
                   None \<Rightarrow> Inl SliceBounds
                 | Some payload \<Rightarrow> Inr \<lparr>frame_Type = fType, frame_Payload = payload\<rparr>))"

definition frame_valid :: "Frame \<Rightarrow> bool" where
  "frame_valid f \<longleftrightarrow> length (frame_Payload f) \<le> 2 ^ 24"

lemma unat_MaxPayloadLen [simp, codec_simps]: "unat MaxPayloadLen = 2 ^ 24"
  by (simp add: MaxPayloadLen_def push_bit_eq_mult)

lemma length_Frame_Encode [simp, codec_simps]:
  "length (Frame_Encode f) = headerSize + length (frame_Payload f)"
  by (simp add: Frame_Encode_def headerSize_def)

lemma Frame_Encode_header [codec_simps]:
  "Frame_Encode f ! 0 = frame_Type f"
  "take 4 (drop 1 (Frame_Encode f)) = PutUint32 (word_of_nat (length (frame_Payload f)))"
  "drop headerSize (Frame_Encode f) = frame_Payload f"
  by (simp_all add: Frame_Encode_def headerSize_def)

text \<open>The slice bound of the decoder does not wrap: the length was checked before.\<close>

lemma payload_end:
  assumes "len \<le> MaxPayloadLen"
  shows "unat (word_of_nat headerSize + len) = headerSize + unat len"
proof -
  from assms have "unat len \<le> 2 ^ 24"
    using word_le_nat_alt [of len MaxPayloadLen] by simp
  then show ?thesis
    by (simp add: headerSize_def unat_word_ariths)
qed

lemma truncation_check:
  assumes "\<not> (word_of_nat n :: 32 word) < len"
  shows "unat len \<le> n"
proof -
  from assms have "unat len \<le> unat (word_of_nat n :: 32 word)"
    by (simp add: word_less_nat_alt)
  also have "\<dots> \<le> n"
    by (simp add: unat_of_nat)
  finally show ?thesis .
qed

lemma DecodeFrame_payload:
  assumes "headerSize \<le> length data" "len \<le> MaxPayloadLen"
    "\<not> (word_of_nat (length data - headerSize) :: 32 word) < len"
  shows "go_slice data headerSize (unat (word_of_nat headerSize + len)) =
    Some (take (unat len) (drop headerSize data))"
  using assms truncation_check [OF assms(3)] by (simp add: payload_end)

lemma DecodeFrame_ok:
  "DecodeFrame data = Inr f \<longleftrightarrow>
     headerSize \<le> length data \<and>
     (let len = Uint32 (take 4 (drop 1 data)) in
       len \<le> MaxPayloadLen \<and> \<not> (word_of_nat (length data - headerSize) :: 32 word) < len \<and>
       f = \<lparr>frame_Type = data ! 0, frame_Payload = take (unat len) (drop headerSize data)\<rparr>)"
proof (cases "headerSize \<le> length data \<and> Uint32 (take 4 (drop 1 data)) \<le> MaxPayloadLen \<and>
    \<not> (word_of_nat (length data - headerSize) :: 32 word) < Uint32 (take 4 (drop 1 data))")
  case True
  then show ?thesis
    unfolding DecodeFrame_def Let_def by (auto simp only: DecodeFrame_payload not_le [symmetric]
        if_False option.case sum.inject simp_thms)
next
  case False
  then show ?thesis
    unfolding DecodeFrame_def Let_def
    by (auto simp only: not_le [symmetric] simp_thms if_True if_False sum.distinct split: if_splits)
qed

lemma DecodeFrame_not_panic: "DecodeFrame data \<noteq> Inl SliceBounds"
proof (cases "headerSize \<le> length data \<and> Uint32 (take 4 (drop 1 data)) \<le> MaxPayloadLen \<and>
    \<not> (word_of_nat (length data - headerSize) :: 32 word) < Uint32 (take 4 (drop 1 data))")
  case True
  then have "\<exists>f. DecodeFrame data = Inr f"
    by (auto simp only: DecodeFrame_ok Let_def)
  then show ?thesis by auto
next
  case False
  then show ?thesis
    unfolding DecodeFrame_def Let_def
    by (auto simp only: not_le [symmetric] simp_thms if_True if_False sum.inject proto_err.distinct
        split: if_splits)
qed

text \<open>What the decoder reads of an encoded frame, with or without bytes behind it.\<close>

lemma DecodeFrame_Encode:
  assumes "frame_valid f"
  shows "DecodeFrame (Frame_Encode f) = Inr f"
proof -
  let ?n = "length (frame_Payload f)" and ?w = "word_of_nat (length (frame_Payload f)) :: 32 word"
  from assms have n: "?n < 2 ^ 32" "unat ?w = ?n"
    by (simp_all add: frame_valid_def unat_of_nat)
  from assms n(2) have "?w \<le> MaxPayloadLen"
    by (simp only: word_le_nat_alt unat_MaxPayloadLen frame_valid_def)
  with n show ?thesis
    by (simp add: DecodeFrame_ok Let_def Frame_Encode_header [simplified])
qed

lemma split_header: "headerSize \<le> length data \<Longrightarrow> data = data ! 0 # take 4 (drop 1 data) @ drop headerSize data"
  by (cases data) (auto simp: headerSize_def numeral_eq_Suc append_take_drop_id [symmetric] simp del: take_Suc_Cons)

lemma DecodeFrame_prefix:
  assumes "DecodeFrame data = Inr f"
  shows "prefix (Frame_Encode f) data"
proof -
  let ?len = "Uint32 (take 4 (drop 1 data))"
  from assms have len: "headerSize \<le> length data"
      and trunc: "\<not> (word_of_nat (length data - headerSize) :: 32 word) < ?len"
      and f: "f = \<lparr>frame_Type = data ! 0, frame_Payload = take (unat ?len) (drop headerSize data)\<rparr>"
    by (auto simp only: DecodeFrame_ok Let_def)
  have n: "length (frame_Payload f) = unat ?len"
    using truncation_check [OF trunc] len by (simp add: f)
  have "length (take 4 (drop 1 data)) = 4"
    using len by (simp add: headerSize_def)
  then have "Frame_Encode f = data ! 0 # take 4 (drop 1 data) @ take (unat ?len) (drop headerSize data)"
    unfolding Frame_Encode_def n by (simp add: PutUint32_Uint32 f)
  then have "Frame_Encode f @ drop (unat ?len) (drop headerSize data) =
      data ! 0 # take 4 (drop 1 data) @ drop headerSize data"
    by (simp only: append_Cons append_assoc append_take_drop_id)
  then have "Frame_Encode f @ drop (unat ?len) (drop headerSize data) = data"
    by (simp only: split_header [OF len, symmetric])
  then show ?thesis
    by (metis prefixI)
qed

interpretation frame_codec: canonical_codec Frame_Encode DecodeFrame frame_valid
proof unfold_locales
  show "frame_valid f" if "DecodeFrame data = Inr f" for data f
  proof -
    from that have "Uint32 (take 4 (drop 1 data)) \<le> MaxPayloadLen"
      and "f = \<lparr>frame_Type = data ! 0,
            frame_Payload = take (unat (Uint32 (take 4 (drop 1 data)))) (drop headerSize data)\<rparr>"
      by (auto simp only: DecodeFrame_ok Let_def)
    then show ?thesis
      by (simp add: frame_valid_def word_le_nat_alt)
  qed
qed (auto intro: DecodeFrame_Encode DecodeFrame_prefix)

section \<open>Envelopes\<close>

definition MaxReqIDLen :: nat where "MaxReqIDLen = 255"

record Envelope =
  env_ReqID :: string
  env_Payload :: bytes

definition Envelope_Encode :: "Envelope \<Rightarrow> bytes" where
  "Envelope_Encode e =
     (let reqID = bytes_of_string (env_ReqID e)
      in word_of_nat (length reqID) # reqID @ env_Payload e)"

definition DecodeEnvelope :: "bytes \<Rightarrow> proto_err + Envelope" where
  "DecodeEnvelope data =
     (if length data < 1 then Inl (ErrEnvTooShort (length data))
      else
        let reqIDLen = unat (data ! 0)
        in if length data < 1 + reqIDLen then Inl (ErrReqIDTruncated reqIDLen (length data - 1))
           else (case go_slice data 1 (1 + reqIDLen) of
                   None \<Rightarrow> Inl SliceBounds
                 | Some reqID \<Rightarrow>
                     Inr \<lparr>env_ReqID = string_of_bytes reqID, env_Payload = drop (1 + reqIDLen) data\<rparr>))"

definition envelope_valid :: "Envelope \<Rightarrow> bool" where
  "envelope_valid e \<longleftrightarrow> length (env_ReqID e) \<le> MaxReqIDLen"

lemma DecodeEnvelope_Nil [simp]: "DecodeEnvelope [] = Inl (ErrEnvTooShort 0)"
  by (simp add: DecodeEnvelope_def)

lemma DecodeEnvelope_Cons [simp]:
  "DecodeEnvelope (b # data) =
     (if length data < unat b then Inl (ErrReqIDTruncated (unat b) (length data))
      else Inr \<lparr>env_ReqID = string_of_bytes (take (unat b) data), env_Payload = drop (unat b) data\<rparr>)"
  by (simp add: DecodeEnvelope_def go_slice_def Let_def)

text \<open>
  The general behaviour of encoding followed by decoding: the length byte wraps, so the reader
  sees the first \<open>length mod 256\<close> bytes of the id and everything else as payload.
\<close>

lemma DecodeEnvelope_Encode_wraps:
  "DecodeEnvelope (Envelope_Encode e) =
     Inr \<lparr>env_ReqID = take (length (env_ReqID e) mod 256) (env_ReqID e),
          env_Payload = bytes_of_string (drop (length (env_ReqID e) mod 256) (env_ReqID e)) @ env_Payload e\<rparr>"
proof -
  let ?n = "length (env_ReqID e)"
  have "?n mod 256 \<le> ?n" by simp
  then show ?thesis
    by (auto simp: Envelope_Encode_def Let_def unat_of_nat string_of_bytes_def bytes_of_string_def
        take_map drop_map o_def)
qed

lemma DecodeEnvelope_exact: "DecodeEnvelope bs = Inr e \<Longrightarrow> Envelope_Encode e = bs"
  by (cases bs) (auto simp: Envelope_Encode_def Let_def min_absorb2 split: if_splits)

interpretation envelope_codec: canonical_codec Envelope_Encode DecodeEnvelope envelope_valid
proof unfold_locales
  show "DecodeEnvelope (Envelope_Encode e) = Inr e" if "envelope_valid e" for e
    using that
    by (simp add: DecodeEnvelope_Encode_wraps envelope_valid_def MaxReqIDLen_def bytes_of_string_def)
  show "envelope_valid e" if "DecodeEnvelope bs = Inr e" for bs e
  proof -
    obtain b data where "bs = b # data" "e = \<lparr>env_ReqID = string_of_bytes (take (unat b) data),
        env_Payload = drop (unat b) data\<rparr>"
      using \<open>DecodeEnvelope bs = Inr e\<close> by (cases bs) (auto split: if_splits)
    moreover have "unat b \<le> 255"
      using unsigned_less [of b, where ?'a = nat] by simp
    ultimately show ?thesis
      by (simp add: envelope_valid_def MaxReqIDLen_def)
  qed
qed (auto dest: DecodeEnvelope_exact)

lemma DecodeEnvelope_not_panic: "DecodeEnvelope data \<noteq> Inl SliceBounds"
  by (cases data) auto

section \<open>Heartbeats\<close>

definition HeartbeatReqID :: string where "HeartbeatReqID = ''hb''"
definition HeartbeatAckReqID :: string where "HeartbeatAckReqID = ''hba''"

definition ConnStateConnecting :: string where "ConnStateConnecting = ''connecting''"
definition ConnStateRegistered :: string where "ConnStateRegistered = ''registered''"
definition ConnStateDegraded :: string where "ConnStateDegraded = ''degraded''"

definition AckReasonAuthFailed :: string where "AckReasonAuthFailed = ''auth_failed''"
definition AckReasonInactive :: string where "AckReasonInactive = ''inactive''"
definition AckReasonInternal :: string where "AckReasonInternal = ''internal''"

lemmas conn_state_defs = ConnStateConnecting_def ConnStateRegistered_def ConnStateDegraded_def
lemmas ack_reason_defs = AckReasonAuthFailed_def AckReasonInactive_def AckReasonInternal_def

lemma conn_states_distinct [simp]:
  "ConnStateConnecting \<noteq> ConnStateRegistered" "ConnStateRegistered \<noteq> ConnStateConnecting"
  "ConnStateDegraded \<noteq> ConnStateRegistered" "ConnStateRegistered \<noteq> ConnStateDegraded"
  "ConnStateConnecting \<noteq> ConnStateDegraded" "ConnStateDegraded \<noteq> ConnStateConnecting"
  by (simp_all add: conn_state_defs)

text \<open>A \<open>float64\<close> that is only stored and passed on is its 64-bit pattern.\<close>

type_synonym float64 = "64 word"

record Heartbeat =
  hb_NodeID :: string
  hb_EnrollmentToken :: string
  hb_ConnectionState :: string
  hb_ActiveModel :: string
  hb_Catalog :: "string list"
  hb_VRAMTotalMB :: "64 word"
  hb_VRAMFreeMB :: "64 word"
  hb_ActiveRequests :: int
  hb_EstimatedTPS :: float64
  hb_ActiveConversations :: int
  hb_CachedTokens :: int
  hb_PinnedSessions :: "string list"

record HeartbeatAck =
  ack_OK :: bool
  ack_Reason :: string
  ack_Detail :: string
  ack_NodeID :: string

definition zeroHeartbeat :: Heartbeat where
  "zeroHeartbeat =
     \<lparr>hb_NodeID = [], hb_EnrollmentToken = [], hb_ConnectionState = [], hb_ActiveModel = [],
      hb_Catalog = [], hb_VRAMTotalMB = 0, hb_VRAMFreeMB = 0, hb_ActiveRequests = 0,
      hb_EstimatedTPS = 0, hb_ActiveConversations = 0, hb_CachedTokens = 0, hb_PinnedSessions = []\<rparr>"

definition zeroHeartbeatAck :: HeartbeatAck where
  "zeroHeartbeatAck = \<lparr>ack_OK = False, ack_Reason = [], ack_Detail = [], ack_NodeID = []\<rparr>"

section \<open>Properties\<close>

lemma DecodeFrame_of_prefix:
  assumes "frame_valid f" "prefix (Frame_Encode f) data" "length data < 2 ^ 32"
  shows "DecodeFrame data = Inr f"
proof -
  obtain rest where data: "data = Frame_Encode f @ rest"
    using assms(2) by (auto simp: prefix_def)
  let ?n = "length (frame_Payload f)" and ?w = "word_of_nat (length (frame_Payload f)) :: 32 word"
  have n: "unat ?w = ?n"
    using assms(1) by (simp add: frame_valid_def unat_of_nat)
  have hdr: "data ! 0 = frame_Type f" "take 4 (drop 1 data) = PutUint32 ?w" "take ?n (drop headerSize data) = frame_Payload f"
    by (simp_all add: data Frame_Encode_def headerSize_def)
  have "length data - headerSize = ?n + length rest"
    by (simp add: data)
  moreover have "?n + length rest < 2 ^ 32"
    using assms(3) by (simp add: data headerSize_def)
  ultimately have "unat (word_of_nat (length data - headerSize) :: 32 word) = ?n + length rest"
    unfolding unat_of_nat by simp
  then have "\<not> (word_of_nat (length data - headerSize) :: 32 word) < ?w"
    by (simp only: word_less_nat_alt n)
  moreover have "?w \<le> MaxPayloadLen"
    using assms(1) n by (simp only: word_le_nat_alt unat_MaxPayloadLen frame_valid_def)
  moreover have "headerSize \<le> length data" "f = \<lparr>frame_Type = frame_Type f, frame_Payload = frame_Payload f\<rparr>"
    by (simp_all add: data)
  ultimately show ?thesis
    unfolding DecodeFrame_ok Let_def hdr(1,2) Uint32_PutUint32 n hdr(3) by blast
qed

text \<open>
  C21: the frame decoder is total and exact. It never slices out of range, whatever bytes arrive;
  and a message shorter than four gigabytes decodes to a frame exactly when it begins with the
  encoding of that frame and the payload is at most sixteen megabytes.
\<close>
theorem frame_wire_exact:
  assumes "length data < 2 ^ 32"
  shows "(\<forall>bytes. DecodeFrame bytes \<noteq> Inl SliceBounds) \<and>
    (DecodeFrame data = Inr f \<longleftrightarrow> length (frame_Payload f) \<le> 2 ^ 24 \<and> prefix (Frame_Encode f) data)"
  using DecodeFrame_of_prefix [OF _ _ assms, of f] DecodeFrame_prefix [of data f] frame_codec.dec_valid [of data f]
    DecodeFrame_not_panic
  by (auto simp: frame_valid_def)

theorem frame_wire_exact_witness:
  "DecodeFrame [2, 0, 0, 0, 1, 65, 99] = Inr \<lparr>frame_Type = 2, frame_Payload = [65]\<rparr>"
  using frame_wire_exact [of "[2, 0, 0, 0, 1, 65, 99]" "\<lparr>frame_Type = 2, frame_Payload = [65]\<rparr>"]
  by (simp add: Frame_Encode_def PutUint32_def)

text \<open>
  C22: the envelope decoder is total and exact: it never slices out of range, and accepts exactly
  the encodings of envelopes with ids of at most 255 bytes, each as the envelope it encodes. A
  longer id is not refused by the encoder: the reader sees the id cut to its length modulo 256
  and the rest of it in front of the payload.
\<close>
theorem envelope_wire_exact:
  "DecodeEnvelope data \<noteq> Inl SliceBounds \<and>
   (DecodeEnvelope data = Inr e \<longleftrightarrow> length (env_ReqID e) \<le> 255 \<and> data = Envelope_Encode e) \<and>
   DecodeEnvelope (Envelope_Encode e) =
     Inr \<lparr>env_ReqID = take (length (env_ReqID e) mod 256) (env_ReqID e),
          env_Payload = bytes_of_string (drop (length (env_ReqID e) mod 256) (env_ReqID e)) @ env_Payload e\<rparr>"
proof -
  have "DecodeEnvelope data = Inr e \<longleftrightarrow> envelope_valid e \<and> data = Envelope_Encode e"
    using DecodeEnvelope_exact [of data e] envelope_codec.dec_valid [of data e] envelope_codec.dec_enc [of e]
    by auto
  then show ?thesis
    using DecodeEnvelope_not_panic [of data] DecodeEnvelope_Encode_wraps [of e]
    by (simp add: envelope_valid_def MaxReqIDLen_def)
qed

end
