(* ===== verification/Encoding.thy ===== *)
theory Encoding
  imports Prelude
begin

text \<open>
  The encodings of Go's standard library that credentials and cookies are written in:
  \<open>encoding/hex\<close>, \<open>strconv\<close> decimal numbers and \<open>encoding/base64\<close> without
  padding, each with its inverse on the values the program produces.
\<close>

section \<open>Hexadecimal\<close>

definition hextable :: string where "hextable = ''0123456789abcdef''"

definition hex_EncodeToString :: "bytes \<Rightarrow> string" where
  "hex_EncodeToString bs =
     concat (map (\<lambda>b. [hextable ! unat (drop_bit 4 b), hextable ! unat (b AND 15)]) bs)"

definition fromHexChar :: "char \<Rightarrow> nat option" where
  "fromHexChar c =
     (let n = (of_char c :: nat) in
      if 48 \<le> n \<and> n \<le> 57 then Some (n - 48)
      else if 97 \<le> n \<and> n \<le> 102 then Some (n - 87)
      else if 65 \<le> n \<and> n \<le> 70 then Some (n - 55)
      else None)"

text \<open>\<open>hex.DecodeString\<close>: \<open>None\<close> for a byte outside the alphabet or an odd length.\<close>

fun hex_DecodeString :: "string \<Rightarrow> bytes option" where
  "hex_DecodeString [] = Some []"
| "hex_DecodeString [c] = None"
| "hex_DecodeString (c # d # s) =
     (case (fromHexChar c, fromHexChar d, hex_DecodeString s) of
        (Some a, Some b, Some bs) \<Rightarrow> Some (word_of_nat (16 * a + b) # bs)
      | _ \<Rightarrow> None)"

lemma hex_digit: "n < 16 \<Longrightarrow> fromHexChar (hextable ! n) = Some n"
  by (cases n rule: nat.exhaust; simp add: hextable_def)
    (auto simp: fromHexChar_def less_Suc_eq numeral_eq_Suc)

lemma hex_nibbles:
  "unat (drop_bit 4 b) < 16" "unat (b AND 15) < 16"
  "16 * unat (drop_bit 4 b) + unat (b AND 15) = unat b" for b :: byte
proof -
  have hi: "unat (drop_bit 4 b) = unat b div 16"
    by (simp only: unat_drop_bit_eq) (simp add: drop_bit_eq_div)
  have "b AND 15 = take_bit 4 b"
    by (simp add: take_bit_eq_mask mask_eq_exp_minus_1)
  then have "unat (b AND 15) = take_bit 4 (unat b)"
    by (simp only: unsigned_take_bit_eq)
  then have lo: "unat (b AND 15) = unat b mod 16"
    by (simp only: take_bit_eq_mod) simp
  have "unat b < 256"
    using unsigned_less [of b, where ?'a = nat] by simp
  then show "unat (drop_bit 4 b) < 16" "unat (b AND 15) < 16"
    "16 * unat (drop_bit 4 b) + unat (b AND 15) = unat b"
    by (simp_all add: hi lo)
qed

lemma hex_roundtrip [simp, codec_simps]: "hex_DecodeString (hex_EncodeToString bs) = Some bs"
proof (induction bs)
  case (Cons b bs)
  then show ?case
    by (simp add: hex_EncodeToString_def hex_digit hex_nibbles)
qed (simp add: hex_EncodeToString_def)

lemma hextable_chars: "n < 16 \<Longrightarrow> hextable ! n \<in> set hextable"
  by (rule nth_mem) (simp add: hextable_def)

lemma hex_EncodeToString_chars: "set (hex_EncodeToString bs) \<subseteq> set hextable"
  by (auto simp: hex_EncodeToString_def hextable_chars hex_nibbles)

lemma hex_no_bar [simp]: "CHR ''|'' \<notin> set (hex_EncodeToString bs)"
  using hex_EncodeToString_chars [of bs] by (auto simp: hextable_def)

section \<open>Decimal numbers\<close>

definition digit_char :: "nat \<Rightarrow> char" where
  "digit_char d = char_of (48 + d)"

definition char_digit :: "char \<Rightarrow> nat option" where
  "char_digit c = (let n = (of_char c :: nat) in if 48 \<le> n \<and> n \<le> 57 then Some (n - 48) else None)"

fun format_nat :: "nat \<Rightarrow> string" where
  "format_nat n = (if n < 10 then [digit_char n] else format_nat (n div 10) @ [digit_char (n mod 10)])"

declare format_nat.simps [simp del]

definition FormatInt :: "int \<Rightarrow> string" where
  "FormatInt i = (if i < 0 then CHR ''-'' # format_nat (nat (- i)) else format_nat (nat i))"

text \<open>
  \<open>strconv.ParseUint(s, 10, bits)\<close> with its two results: a syntax error gives 0, a range
  error gives the largest value of the width, and a range error is found before a later syntax
  error.
\<close>

datatype num_err = ErrSyntax | ErrRange

fun parse_uint_loop :: "nat \<Rightarrow> nat \<Rightarrow> string \<Rightarrow> nat \<times> num_err option" where
  "parse_uint_loop maxVal n [] = (n, None)"
| "parse_uint_loop maxVal n (c # s) =
     (case char_digit c of
        None \<Rightarrow> (0, Some ErrSyntax)
      | Some d \<Rightarrow> if maxVal < n * 10 + d then (maxVal, Some ErrRange)
                  else parse_uint_loop maxVal (n * 10 + d) s)"

definition ParseUint :: "string \<Rightarrow> nat \<Rightarrow> nat \<times> num_err option" where
  "ParseUint s bitSize = (if s = [] then (0, Some ErrSyntax) else parse_uint_loop (2 ^ bitSize - 1) 0 s)"

definition ParseInt64 :: "string \<Rightarrow> num_err + int" where
  "ParseInt64 s0 =
     (if s0 = [] then Inl ErrSyntax
      else
        let neg = (hd s0 = CHR ''-'');
            s = (if hd s0 = CHR ''+'' \<or> hd s0 = CHR ''-'' then tl s0 else s0)
        in case ParseUint s 64 of
             (un, Some ErrSyntax) \<Rightarrow> Inl ErrSyntax
           | (un, _) \<Rightarrow>
               if \<not> neg \<and> 2 ^ 63 \<le> un then Inl ErrRange
               else if neg \<and> 2 ^ 63 < un then Inl ErrRange
               else Inr (if neg then - int un else int un))"

lemma char_digit_digit [simp]: "d < 10 \<Longrightarrow> char_digit (digit_char d) = Some d"
  by (simp add: char_digit_def digit_char_def)

lemma format_nat_nonempty [simp]: "format_nat n \<noteq> []"
  by (subst format_nat.simps) simp

lemma format_nat_digits: "c \<in> set (format_nat n) \<Longrightarrow> \<exists>d<10. c = digit_char d"
proof (induction n rule: format_nat.induct)
  case (1 n)
  show ?case
  proof (cases "n < 10")
    case True
    with "1.prems" show ?thesis by (auto simp: format_nat.simps [of n])
  next
    case False
    with "1.prems" have "c \<in> set (format_nat (n div 10)) \<or> c = digit_char (n mod 10)"
      by (auto simp: format_nat.simps [of n])
    with False "1.IH" show ?thesis
      by (metis mod_less_divisor zero_less_numeral)
  qed
qed

lemma digit_char_neq:
  assumes "d < 10" "of_char c < (48::nat) \<or> (57::nat) < of_char c"
  shows "digit_char d \<noteq> c"
  using assms by (auto simp: digit_char_def)

lemma FormatInt_no_bar [simp]: "CHR ''|'' \<notin> set (FormatInt i)"
  by (auto simp: FormatInt_def dest!: format_nat_digits dest: digit_char_neq [of _ "CHR ''|''", simplified])

lemma parse_uint_loop_append:
  "parse_uint_loop m n (s @ t) =
     (case parse_uint_loop m n s of (v, None) \<Rightarrow> parse_uint_loop m v t | r \<Rightarrow> r)"
  by (induction m n s rule: parse_uint_loop.induct) (auto split: option.splits)

lemma parse_uint_format: "n \<le> m \<Longrightarrow> parse_uint_loop m 0 (format_nat n) = (n, None)"
proof (induction n rule: format_nat.induct)
  case (1 n)
  show ?case
  proof (cases "n < 10")
    case True
    with "1.prems" show ?thesis by (simp add: format_nat.simps [of n])
  next
    case False
    with "1.IH" "1.prems" have "parse_uint_loop m 0 (format_nat (n div 10)) = (n div 10, None)"
      by simp
    with False "1.prems" show ?thesis
      by (simp add: format_nat.simps [of n] parse_uint_loop_append)
  qed
qed

lemma ParseUint_format_nat [simp, codec_simps]:
  "n < 2 ^ bits \<Longrightarrow> ParseUint (format_nat n) bits = (n, None)"
  by (simp add: ParseUint_def parse_uint_format)

lemma hd_format_nat: "hd (format_nat n) \<noteq> CHR ''-''" "hd (format_nat n) \<noteq> CHR ''+''"
proof -
  obtain d where "d < 10" "hd (format_nat n) = digit_char d"
    using format_nat_digits [of "hd (format_nat n)" n] by auto
  then show "hd (format_nat n) \<noteq> CHR ''-''" "hd (format_nat n) \<noteq> CHR ''+''"
    using digit_char_neq [of d "CHR ''-''"] digit_char_neq [of d "CHR ''+''"] by simp_all
qed

lemma ParseInt64_FormatInt [simp, codec_simps]:
  assumes "- (2 ^ 63) \<le> i" "i < 2 ^ 63"
  shows "ParseInt64 (FormatInt i) = Inr i"
proof (cases "i < 0")
  case True
  with assms have "nat (- i) < 2 ^ 64" "\<not> 2 ^ 63 < nat (- i)"
    by auto
  with True show ?thesis
    by (simp add: ParseInt64_def FormatInt_def)
next
  case False
  with assms have "nat i < 2 ^ 64" "\<not> 2 ^ 63 \<le> nat i"
    by auto
  with False show ?thesis
    by (simp add: ParseInt64_def FormatInt_def hd_format_nat)
qed

section \<open>Base64 without padding\<close>

definition encodeStd :: string where
  "encodeStd = ''ABCDEFGHIJKLMNOPQRSTUVWXYZabcdefghijklmnopqrstuvwxyz0123456789+/''"

definition encodeURL :: string where
  "encodeURL = ''ABCDEFGHIJKLMNOPQRSTUVWXYZabcdefghijklmnopqrstuvwxyz0123456789-_''"

definition sextet :: "nat \<Rightarrow> nat \<Rightarrow> nat" where
  "sextet k val = val div 2 ^ k mod 64"

fun base64_encode :: "string \<Rightarrow> bytes \<Rightarrow> string" where
  "base64_encode alph [] = []"
| "base64_encode alph [a] =
     (let val = unat a * 65536 in [alph ! sextet 18 val, alph ! sextet 12 val])"
| "base64_encode alph [a, b] =
     (let val = unat a * 65536 + unat b * 256
      in [alph ! sextet 18 val, alph ! sextet 12 val, alph ! sextet 6 val])"
| "base64_encode alph (a # b # c # bs) =
     (let val = unat a * 65536 + unat b * 256 + unat c
      in alph ! sextet 18 val # alph ! sextet 12 val # alph ! sextet 6 val # alph ! sextet 0 val
         # base64_encode alph bs)"

definition base64_index :: "string \<Rightarrow> char \<Rightarrow> nat option" where
  "base64_index alph c = (if c \<in> set alph then Some (length (takeWhile (\<lambda>x. x \<noteq> c) alph)) else None)"

fun base64_quanta :: "string \<Rightarrow> string \<Rightarrow> bytes option" where
  "base64_quanta alph [] = Some []"
| "base64_quanta alph [c0] = None"
| "base64_quanta alph [c0, c1] =
     (case (base64_index alph c0, base64_index alph c1) of
        (Some v0, Some v1) \<Rightarrow> Some [word_of_nat ((v0 * 262144 + v1 * 4096) div 65536)]
      | _ \<Rightarrow> None)"
| "base64_quanta alph [c0, c1, c2] =
     (case (base64_index alph c0, base64_index alph c1, base64_index alph c2) of
        (Some v0, Some v1, Some v2) \<Rightarrow>
          (let val = v0 * 262144 + v1 * 4096 + v2 * 64
           in Some [word_of_nat (val div 65536), word_of_nat (val div 256)])
      | _ \<Rightarrow> None)"
| "base64_quanta alph (c0 # c1 # c2 # c3 # s) =
     (case (base64_index alph c0, base64_index alph c1, base64_index alph c2, base64_index alph c3) of
        (Some v0, Some v1, Some v2, Some v3) \<Rightarrow>
          (let val = v0 * 262144 + v1 * 4096 + v2 * 64 + v3
           in map_option (\<lambda>bs. word_of_nat (val div 65536) # word_of_nat (val div 256)
                                # word_of_nat val # bs)
                (base64_quanta alph s))
      | _ \<Rightarrow> None)"

text \<open>\<open>DecodeString\<close> skips carriage returns and newlines wherever they stand.\<close>

definition base64_decode :: "string \<Rightarrow> string \<Rightarrow> bytes option" where
  "base64_decode alph s = base64_quanta alph (filter (\<lambda>c. c \<noteq> CHR 0x0A \<and> c \<noteq> CHR 0x0D) s)"

definition alphabet_ok :: "string \<Rightarrow> bool" where
  "alphabet_ok alph \<longleftrightarrow> length alph = 64 \<and> distinct alph \<and> CHR 0x0A \<notin> set alph \<and> CHR 0x0D \<notin> set alph"

lemma alphabet_ok_Std [simp]: "alphabet_ok encodeStd"
  by (simp add: alphabet_ok_def encodeStd_def)

lemma alphabet_ok_URL [simp]: "alphabet_ok encodeURL"
  by (simp add: alphabet_ok_def encodeURL_def)

lemma sextet_bound [simp]: "sextet k v < 64"
  by (simp add: sextet_def)

lemma base64_index_nth [simp]:
  assumes "alphabet_ok alph" "n < 64"
  shows "base64_index alph (alph ! n) = Some n"
proof -
  from assms have n: "n < length alph" and d: "distinct alph"
    by (auto simp: alphabet_ok_def)
  have "takeWhile (\<lambda>x. x \<noteq> alph ! n) alph = take n alph"
  proof (rule takeWhile_eq_take_P_nth)
    show "alph ! i \<noteq> alph ! n" if "i < n" "i < length alph" for i
      using that n d by (simp add: nth_eq_iff_index_eq)
  qed simp
  with n show ?thesis
    by (simp add: base64_index_def)
qed

lemma sextets_value:
  assumes "v < 16777216"
  shows "sextet 18 v * 262144 + sextet 12 v * 4096 + sextet 6 v * 64 + sextet 0 v = v"
proof -
  have "v div 64 div 64 = v div 4096" "v div 64 div 64 div 64 = v div 262144"
    by (simp_all add: div_mult2_eq [symmetric])
  moreover have "v div 262144 mod 64 = v div 262144"
    using assms by simp
  ultimately have
    "v = v div 64 * 64 + v mod 64"
    "v div 64 = v div 4096 * 64 + v div 64 mod 64"
    "v div 4096 = (v div 262144 mod 64) * 64 + v div 4096 mod 64"
    by (metis div_mult_mod_eq)+
  moreover have "sextet 18 v = v div 262144 mod 64" "sextet 12 v = v div 4096 mod 64"
    "sextet 6 v = v div 64 mod 64" "sextet 0 v = v mod 64"
    by (simp_all add: sextet_def)
  ultimately show ?thesis
    by linarith
qed

lemma byte_lt: "unat b < 256" for b :: byte
  using unsigned_less [of b, where ?'a = nat] by simp

lemma word_of_nat_low [simp]: "(word_of_nat (256 * n + unat b) :: byte) = b"
proof -
  have "unat (word_of_nat (256 * n + unat b) :: byte) = unat b"
    using byte_lt [of b] by (subst unat_of_nat) simp
  then show ?thesis
    by (simp only: word_unat_eq_iff)
qed

lemma base64_triple:
  fixes a b c :: byte
  defines "v \<equiv> unat a * 65536 + unat b * 256 + unat c"
  shows "v < 16777216" "word_of_nat (v div 65536) = a" "word_of_nat (v div 256) = b" "word_of_nat v = c"
proof -
  have "v = 256 * (unat a * 256 + unat b) + unat c"
    by (simp add: v_def)
  then show "word_of_nat v = c"
    by (simp only: word_of_nat_low)
  have "v div 256 = 256 * unat a + unat b" "v div 65536 = unat a"
    using byte_lt [of b] byte_lt [of c] by (auto simp: v_def)
  then show "word_of_nat (v div 256) = b" "word_of_nat (v div 65536) = a"
    by (simp_all only: word_of_nat_low) simp
  show "v < 16777216"
    using byte_lt [of a] byte_lt [of b] byte_lt [of c] by (simp add: v_def)
qed

lemma base64_partial [simp]:
  fixes a b :: byte
  shows "word_of_nat ((sextet 18 (unat a * 65536) * 262144 + sextet 12 (unat a * 65536) * 4096) div 65536) = a"
    and "sextet 18 (unat a * 65536 + unat b * 256) * 262144 + sextet 12 (unat a * 65536 + unat b * 256) * 4096
      + sextet 6 (unat a * 65536 + unat b * 256) * 64 = unat a * 65536 + unat b * 256"
proof -
  have z: "sextet 6 (unat a * 65536) = 0" "sextet 0 (unat a * 65536) = 0"
    "sextet 0 (unat a * 65536 + unat b * 256) = 0"
    by (simp_all add: sextet_def mod_add_eq [symmetric])
  show "word_of_nat ((sextet 18 (unat a * 65536) * 262144 + sextet 12 (unat a * 65536) * 4096) div 65536) = a"
    using sextets_value [of "unat a * 65536"] base64_triple(1,2) [of a 0 0] z by simp
  show "sextet 18 (unat a * 65536 + unat b * 256) * 262144 + sextet 12 (unat a * 65536 + unat b * 256) * 4096
      + sextet 6 (unat a * 65536 + unat b * 256) * 64 = unat a * 65536 + unat b * 256"
    using sextets_value [of "unat a * 65536 + unat b * 256"] base64_triple(1) [of a b 0] z by simp
qed

lemma base64_quanta_encode:
  assumes "alphabet_ok alph"
  shows "base64_quanta alph (base64_encode alph bs) = Some bs"
  using assms
proof (induction alph bs rule: base64_encode.induct)
  case (3 alph a b)
  then show ?case
    using base64_triple(2,3) [of a b 0] by (simp add: Let_def)
next
  case (4 alph a b c bs)
  then show ?case
    using base64_triple [of a b c] by (simp add: Let_def sextets_value)
qed (simp_all add: Let_def)

lemma base64_encode_chars:
  "alphabet_ok alph \<Longrightarrow> set (base64_encode alph bs) \<subseteq> set alph"
  by (induction alph bs rule: base64_encode.induct) (auto simp: Let_def alphabet_ok_def)

lemma base64_roundtrip [simp, codec_simps]:
  assumes "alphabet_ok alph"
  shows "base64_decode alph (base64_encode alph bs) = Some bs"
proof -
  have "filter (\<lambda>c. c \<noteq> CHR 0x0A \<and> c \<noteq> CHR 0x0D) (base64_encode alph bs) = base64_encode alph bs"
    using base64_encode_chars [OF assms, of bs] assms by (auto simp: filter_id_conv alphabet_ok_def)
  then show ?thesis
    by (simp add: base64_decode_def base64_quanta_encode [OF assms])
qed

lemma base64_Std_no_dollar [simp]: "CHR ''$'' \<notin> set (base64_encode encodeStd bs)"
proof -
  have "CHR ''$'' \<notin> set encodeStd"
    by (simp add: encodeStd_def)
  with base64_encode_chars [OF alphabet_ok_Std, of bs] show ?thesis by blast
qed

lemma length_base64_encode: "length (base64_encode alph bs) = (4 * length bs + 2) div 3"
  by (induction alph bs rule: base64_encode.induct) (simp_all add: Let_def)

section \<open>Hexadecimal text is never trimmed\<close>

lemma TrimSpace_id_chars:
  assumes "\<forall>p\<in>set space_seqs. hd p \<notin> S \<and> last p \<notin> S" "set s \<subseteq> S"
  shows "strings_TrimSpace s = s"
proof -
  have seq: "p \<noteq> []" "hd p \<notin> S" "last p \<notin> S" if "p \<in> set space_seqs" for p
    using that assms(1) space_seqs_nonempty by auto
  have "\<not> prefix p s" if "p \<in> set space_seqs" for p
    using seq [OF that] assms(2) by (metis hd_in_set set_mono_prefix subsetD)
  then have left: "strip_all space_seqs s = s"
    by (blast intro: strip_all_id)
  have "\<not> suffix p s" if "p \<in> set space_seqs" for p
    using seq [OF that] assms(2) by (metis last_in_set set_mono_suffix subsetD)
  then have "strip_all (map rev space_seqs) (rev s) = rev s"
    by (intro strip_all_id) (auto simp: suffix_to_prefix [symmetric])
  with left show ?thesis
    by (simp add: strings_TrimSpace_def)
qed

lemma TrimSpace_hex [simp, codec_simps]: "strings_TrimSpace (hex_EncodeToString bs) = hex_EncodeToString bs"
proof (rule TrimSpace_id_chars [where S = "set hextable"])
  show "\<forall>p\<in>set space_seqs. hd p \<notin> set hextable \<and> last p \<notin> set hextable"
    by (simp add: space_seqs_def hextable_def)
qed (rule hex_EncodeToString_chars)

section \<open>Hosts and ports\<close>

text \<open>\<open>strings.LastIndexByte\<close> as a split at the last occurrence.\<close>

definition split_last :: "char \<Rightarrow> string \<Rightarrow> (string \<times> string) option" where
  "split_last c s =
     (if c \<in> set s then Some (rev (tl (dropWhile (\<lambda>x. x \<noteq> c) (rev s))), rev (takeWhile (\<lambda>x. x \<noteq> c) (rev s)))
      else None)"

text \<open>
  \<open>Hostname\<close> is the method of \<open>url.URL\<close> on its \<open>Host\<close>: it drops a valid port and the brackets
  of an IPv6 literal.
\<close>

definition validOptionalPort :: "string \<Rightarrow> bool" where
  "validOptionalPort port =
     (port = '''' \<or> port ! 0 = CHR '':'' \<and> (\<forall>c \<in> set (drop 1 port). char_digit c \<noteq> None))"

definition Hostname :: "string \<Rightarrow> string" where
  "Hostname hostPort =
     (let host = (case split_last CHR '':'' hostPort of
                    Some (before, port) \<Rightarrow> if validOptionalPort ('':'' @ port) then before else hostPort
                  | None \<Rightarrow> hostPort)
      in if prefix ''['' host \<and> suffix '']'' host then take (length host - 2) (drop 1 host) else host)"

end
