(* ===== verification/Url.thy ===== *)
theory Url
  imports Encoding
begin

text \<open>
  URLs as \<open>net/url\<close> of Go 1.25.0 parses them: \<open>url.Parse\<close>, which the program uses for the mesh
  address and the proxy, and \<open>url.ParseRequestURI\<close>, which the WebSocket listener uses. The errors
  are kept as values; the text around them is not modelled.
\<close>

record URL =
  url_Scheme :: string
  url_Opaque :: string
  url_User :: "(string \<times> string option) option"
  url_Host :: string
  url_Path :: string
  url_ForceQuery :: bool
  url_RawQuery :: string
  url_Fragment :: string

definition emptyURL :: URL where
  "emptyURL = \<lparr>url_Scheme = '''', url_Opaque = '''', url_User = None, url_Host = '''', url_Path = '''',
     url_ForceQuery = False, url_RawQuery = '''', url_Fragment = ''''\<rparr>"

datatype url_err =
    CtlByte
  | EmptyURL
  | MissingScheme
  | InvalidRequestURI
  | FirstSegmentColon
  | MissingBracket
  | InvalidPort string
  | EscapeError string
  | InvalidHostError char
  | InvalidUserinfo

section \<open>Escapes\<close>

datatype encoding = encodePath | encodeHost | encodeZone | encodeUserPassword | encodeFragment

definition ascii_val :: "char \<Rightarrow> nat" where "ascii_val c = of_char c"

definition is_letter :: "char \<Rightarrow> bool" where
  "is_letter c \<longleftrightarrow> 65 \<le> ascii_val c \<and> ascii_val c \<le> 90 \<or> 97 \<le> ascii_val c \<and> ascii_val c \<le> 122"

definition is_alnum :: "char \<Rightarrow> bool" where
  "is_alnum c \<longleftrightarrow> is_letter c \<or> char_digit c \<noteq> None"

text \<open>The characters \<open>shouldEscape\<close> leaves alone in a host or a zone.\<close>

definition host_plain :: "char \<Rightarrow> bool" where
  "host_plain c \<longleftrightarrow> is_alnum c \<or> c \<in> set (''!$&()*+,;=:[]<>-_.~'' @ [CHR 0x27, CHR 0x22])"

definition escape_ok :: "encoding \<Rightarrow> nat \<Rightarrow> nat \<Rightarrow> bool" where
  "escape_ok mode x y \<longleftrightarrow>
     (x = 2 \<and> y = 5) \<or>
     (mode = encodeHost \<longrightarrow> 8 \<le> x) \<and>
     (mode = encodeZone \<longrightarrow> 16 * x + y = 32 \<or> host_plain (char_of (16 * x + y)))"

fun unescape :: "encoding \<Rightarrow> string \<Rightarrow> url_err + string" where
  "unescape mode [] = Inr []"
| "unescape mode (c # s) =
     (if c = CHR ''%'' then
        (case s of
           a # b # r \<Rightarrow>
             (case (fromHexChar a, fromHexChar b) of
                (Some x, Some y) \<Rightarrow>
                  if escape_ok mode x y then map_sum id ((#) (char_of (16 * x + y))) (unescape mode r)
                  else Inl (EscapeError [c, a, b])
              | _ \<Rightarrow> Inl (EscapeError [c, a, b]))
         | _ \<Rightarrow> Inl (EscapeError (c # s)))
      else if mode \<in> {encodeHost, encodeZone} \<and> ascii_val c < 0x80 \<and> \<not> host_plain c then Inl (InvalidHostError c)
      else map_sum id ((#) c) (unescape mode s))"

section \<open>Parts of a URL\<close>

text \<open>\<open>strings.Cut\<close> at a character.\<close>

definition cut :: "char \<Rightarrow> string \<Rightarrow> string \<times> string" where
  "cut c s = (takeWhile (\<lambda>x. x \<noteq> c) s, drop 1 (dropWhile (\<lambda>x. x \<noteq> c) s))"

definition scheme_char :: "char \<Rightarrow> bool" where
  "scheme_char c \<longleftrightarrow> is_alnum c \<or> c \<in> set ''+-.''"

definition getScheme :: "string \<Rightarrow> url_err + string \<times> string" where
  "getScheme raw =
     (case (takeWhile scheme_char raw, dropWhile scheme_char raw) of
        (sch, c # rest) \<Rightarrow>
          if c \<noteq> CHR '':'' then Inr ('''', raw)
          else if sch = [] then Inl MissingScheme
          else if is_letter (hd sch) then Inr (sch, rest)
          else Inr ('''', raw)
      | _ \<Rightarrow> Inr ('''', raw))"

text \<open>The text before the first escaped percent sign, and the text from there on.\<close>

fun split_zone :: "string \<Rightarrow> (string \<times> string) option" where
  "split_zone [] = None"
| "split_zone (c # s) =
     (if prefix ''%25'' (c # s) then Some ([], c # s) else map_option (apfst ((#) c)) (split_zone s))"

definition parseHost :: "string \<Rightarrow> url_err + string" where
  "parseHost host =
     (if prefix ''['' host then
        (case split_last CHR '']'' host of
           None \<Rightarrow> Inl MissingBracket
         | Some (before, colonPort) \<Rightarrow>
             if \<not> validOptionalPort colonPort then Inl (InvalidPort colonPort)
             else
               (case split_zone before of
                  None \<Rightarrow> unescape encodeHost host
                | Some (h, z) \<Rightarrow>
                    (case unescape encodeHost h of
                       Inl e \<Rightarrow> Inl e
                     | Inr h1 \<Rightarrow>
                         (case unescape encodeZone z of
                            Inl e \<Rightarrow> Inl e
                          | Inr h2 \<Rightarrow> map_sum id (\<lambda>h3. h1 @ h2 @ h3) (unescape encodeHost (CHR '']'' # colonPort))))))
      else
        (case split_last CHR '':'' host of
           None \<Rightarrow> unescape encodeHost host
         | Some (_, port) \<Rightarrow>
             if \<not> validOptionalPort (CHR '':'' # port) then Inl (InvalidPort (CHR '':'' # port))
             else unescape encodeHost host))"

definition validUserinfo :: "string \<Rightarrow> bool" where
  "validUserinfo s \<longleftrightarrow> (\<forall>c \<in> set s. is_alnum c \<or> c \<in> set (''-._:~!$&()*+,;=%@'' @ [CHR 0x27]))"

definition parseAuthority :: "string \<Rightarrow> url_err + (string \<times> string option) option \<times> string" where
  "parseAuthority authority =
     (case split_last CHR ''@'' authority of
        None \<Rightarrow> map_sum id (Pair None) (parseHost authority)
      | Some (userinfo, h) \<Rightarrow>
          (case parseHost h of
             Inl e \<Rightarrow> Inl e
           | Inr host \<Rightarrow>
               if \<not> validUserinfo userinfo then Inl InvalidUserinfo
               else if CHR '':'' \<notin> set userinfo then
                 map_sum id (\<lambda>u. (Some (u, None), host)) (unescape encodeUserPassword userinfo)
               else
                 (case unescape encodeUserPassword (fst (cut CHR '':'' userinfo)) of
                    Inl e \<Rightarrow> Inl e
                  | Inr u \<Rightarrow>
                      map_sum id (\<lambda>p. (Some (u, Some p), host)) (unescape encodeUserPassword (snd (cut CHR '':'' userinfo))))))"

definition url_finish :: "URL \<Rightarrow> string \<Rightarrow> url_err + URL" where
  "url_finish u path = map_sum id (\<lambda>p. u\<lparr>url_Path := p\<rparr>) (unescape encodePath path)"

definition parse_url :: "bool \<Rightarrow> string \<Rightarrow> url_err + URL" where
  "parse_url viaRequest raw =
     (if \<exists>c \<in> set raw. ascii_val c < 0x20 \<or> ascii_val c = 0x7F then Inl CtlByte
      else if raw = [] \<and> viaRequest then Inl EmptyURL
      else if raw = ''*'' then Inr (emptyURL\<lparr>url_Path := ''*''\<rparr>)
      else
        (case getScheme raw of
           Inl e \<Rightarrow> Inl e
         | Inr (sch, rest0) \<Rightarrow>
             let (rest, query) = cut CHR ''?'' rest0;
                 u = emptyURL\<lparr>url_Scheme := map ascii_lower sch, url_RawQuery := query,
                       url_ForceQuery := suffix ''?'' rest0 \<and> count_list rest0 CHR ''?'' = 1\<rparr>
             in if \<not> prefix ''/'' rest \<and> sch \<noteq> [] then Inr (u\<lparr>url_Opaque := rest\<rparr>)
                else if \<not> prefix ''/'' rest \<and> viaRequest then Inl InvalidRequestURI
                else if \<not> prefix ''/'' rest \<and> CHR '':'' \<in> set (fst (cut CHR ''/'' rest)) then Inl FirstSegmentColon
                else if (sch \<noteq> [] \<or> \<not> viaRequest \<and> \<not> prefix ''///'' rest) \<and> prefix ''//'' rest then
                  (case parseAuthority (takeWhile (\<lambda>c. c \<noteq> CHR ''/'') (drop 2 rest)) of
                     Inl e \<Rightarrow> Inl e
                   | Inr (user, host) \<Rightarrow>
                       url_finish (u\<lparr>url_User := user, url_Host := host\<rparr>) (dropWhile (\<lambda>c. c \<noteq> CHR ''/'') (drop 2 rest)))
                else url_finish u rest))"

definition url_Parse :: "string \<Rightarrow> url_err + URL" where
  "url_Parse raw =
     (let (u, frag) = cut CHR ''#'' raw
      in case parse_url False u of
           Inl e \<Rightarrow> Inl e
         | Inr url \<Rightarrow>
             if frag = [] then Inr url
             else map_sum id (\<lambda>f. url\<lparr>url_Fragment := f\<rparr>) (unescape encodeFragment frag))"

definition ParseRequestURI :: "string \<Rightarrow> url_err + URL" where
  "ParseRequestURI raw = parse_url True raw"

section \<open>Addresses of hosts and ports\<close>

lemma split_last_append:
  "c \<notin> set after \<Longrightarrow> split_last c (before @ c # after) = Some (before, after)"
proof -
  assume "c \<notin> set after"
  then have "dropWhile (\<lambda>x. x \<noteq> c) (rev after @ c # rev before) = c # rev before"
    "takeWhile (\<lambda>x. x \<noteq> c) (rev after @ c # rev before) = rev after"
    by (auto simp: dropWhile_append takeWhile_append)
  then show ?thesis
    by (simp add: split_last_def)
qed

lemma unescape_id:
  "\<forall>c \<in> set s. c \<noteq> CHR ''%'' \<and> (mode \<in> {encodeHost, encodeZone} \<longrightarrow> host_plain c) \<Longrightarrow> unescape mode s = Inr s"
  by (induction s) auto

definition no_ctl :: "string \<Rightarrow> bool" where
  "no_ctl s \<longleftrightarrow> (\<forall>c \<in> set s. \<not> (ascii_val c < 0x20 \<or> ascii_val c = 0x7F))"

lemma no_ctl_simps [simp]:
  "no_ctl []" "no_ctl (c # s) \<longleftrightarrow> \<not> (ascii_val c < 0x20 \<or> ascii_val c = 0x7F) \<and> no_ctl s"
  "no_ctl (s @ t) \<longleftrightarrow> no_ctl s \<and> no_ctl t"
  by (auto simp: no_ctl_def)

definition hostname_ok :: "string \<Rightarrow> bool" where
  "hostname_ok h \<longleftrightarrow> h \<noteq> [] \<and> (\<forall>c \<in> set h. is_alnum c \<or> c \<in> set ''-_.'')"

definition port_ok :: "string \<Rightarrow> bool" where
  "port_ok p \<longleftrightarrow> (\<forall>c \<in> set p. char_digit c \<noteq> None)"

definition path_ok :: "string \<Rightarrow> bool" where
  "path_ok p \<longleftrightarrow> (p = [] \<or> hd p = CHR ''/'') \<and> no_ctl p \<and> (\<forall>c \<in> set ''%?#''. c \<notin> set p)"

lemma host_facts:
  assumes "hostname_ok h"
  shows "\<forall>c \<in> set h. host_plain c" "no_ctl h" "\<forall>c \<in> set '':/?#@[]%''. c \<notin> set h"
proof -
  have c: "is_alnum c \<or> c \<in> set ''-_.''" if "c \<in> set h" for c
    using assms that by (auto simp: hostname_ok_def)
  moreover have "c \<in> set ''-_.'' \<Longrightarrow> host_plain c" for c
    by (auto simp: host_plain_def)
  ultimately show "\<forall>c \<in> set h. host_plain c"
    unfolding host_plain_def by blast
  have "\<not> (ascii_val c < 0x20 \<or> ascii_val c = 0x7F)" if "c \<in> set h" for c
    using c [OF that] by (auto simp: is_alnum_def is_letter_def ascii_val_def char_digit_def Let_def split: if_splits)
  then show "no_ctl h"
    by (auto simp: no_ctl_def)
  have "c \<notin> set h" if "c \<in> set '':/?#@[]%''" for c
    using c [of c] that by (auto simp: is_alnum_def is_letter_def ascii_val_def char_digit_def)
  then show "\<forall>c \<in> set '':/?#@[]%''. c \<notin> set h"
    by blast
qed

lemma port_facts:
  assumes "port_ok p"
  shows "\<forall>c \<in> set p. host_plain c" "no_ctl p" "\<forall>c \<in> set '':/?#@[]%''. c \<notin> set p"
proof -
  have c: "char_digit c \<noteq> None" if "c \<in> set p" for c
    using assms that by (auto simp: port_ok_def)
  then show "\<forall>c \<in> set p. host_plain c"
    unfolding host_plain_def is_alnum_def by blast
  have "\<not> (ascii_val c < 0x20 \<or> ascii_val c = 0x7F)" if "c \<in> set p" for c
    using c [OF that] by (auto simp: ascii_val_def char_digit_def Let_def split: if_splits)
  then show "no_ctl p"
    by (auto simp: no_ctl_def)
  have "c \<notin> set p" if "c \<in> set '':/?#@[]%''" for c
    using c [of c] that by (auto simp: char_digit_def)
  then show "\<forall>c \<in> set '':/?#@[]%''. c \<notin> set p"
    by blast
qed

lemma cut_none: "c \<notin> set s \<Longrightarrow> cut c s = (s, [])"
  by (induction s) (auto simp: cut_def)

lemma parseAuthority_host_port:
  assumes "hostname_ok h" "port_ok p"
  shows "parseAuthority (h @ CHR '':'' # p) = Inr (None, h @ CHR '':'' # p)"
proof -
  note f = host_facts [OF assms(1)] port_facts [OF assms(2)]
  have "h \<noteq> []"
    using assms(1) by (simp add: hostname_ok_def)
  then have "\<not> prefix ''['' (h @ CHR '':'' # p)"
    using f(3) by (cases h) auto
  moreover have "validOptionalPort (CHR '':'' # p)"
    using assms(2) by (simp add: validOptionalPort_def port_ok_def)
  moreover have "host_plain CHR '':''" "CHR ''%'' \<notin> set h" "CHR ''%'' \<notin> set p"
    using f(3,6) by (simp_all add: host_plain_def)
  then have "unescape encodeHost (h @ CHR '':'' # p) = Inr (h @ CHR '':'' # p)"
    using f(1,4) by (intro unescape_id) auto
  moreover have "split_last CHR '':'' (h @ CHR '':'' # p) = Some (h, p)" "split_last CHR ''@'' (h @ CHR '':'' # p) = None"
    using f(3,6) by (simp_all add: split_last_append) (simp add: split_last_def)
  ultimately show ?thesis
    by (simp add: parseAuthority_def parseHost_def)
qed

text \<open>An address with a host name, a port and a plain path is read as it is written.\<close>

definition web_schemes :: "string list" where
  "web_schemes = [''ws'', ''wss'', ''http'', ''https'']"

lemma scheme_facts:
  assumes "sch \<in> set web_schemes"
  shows "getScheme (sch @ CHR '':'' # s) = Inr (sch, s)" "sch \<noteq> []" "map ascii_lower sch = sch" "no_ctl sch"
    "CHR ''#'' \<notin> set sch"
  using assms
  by (auto simp: web_schemes_def getScheme_def scheme_char_def is_alnum_def is_letter_def ascii_val_def char_digit_def ascii_lower_def)

lemma parse_url_plain:
  assumes "sch \<in> set web_schemes" "hostname_ok h" "port_ok p" "path_ok q"
  shows "parse_url via (sch @ CHR '':'' # ''//'' @ (h @ CHR '':'' # p) @ q) =
    Inr (emptyURL\<lparr>url_Scheme := sch, url_Host := h @ CHR '':'' # p, url_Path := q\<rparr>)"
proof -
  note f = host_facts [OF assms(2)] port_facts [OF assms(3)]
  define a where "a = h @ CHR '':'' # p"
  have a: "\<forall>c \<in> set ''/?#''. c \<notin> set a" "no_ctl a"
    using f by (simp_all add: a_def ascii_val_def)
  have q: "no_ctl q" "\<forall>c \<in> set ''%?#''. c \<notin> set q" "q = [] \<or> hd q = CHR ''/''"
    using assms(4) by (simp_all add: path_ok_def)
  note sch = scheme_facts [OF assms(1)]
  have ctl: "\<not> (\<exists>c \<in> set (sch @ CHR '':'' # ''//'' @ a @ q). ascii_val c < 0x20 \<or> ascii_val c = 0x7F)"
    using sch(4) a(2) q(1) unfolding no_ctl_def by (auto simp: ascii_val_def)
  have star: "sch @ CHR '':'' # ''//'' @ a @ q \<noteq> ''*''"
    using sch(2) by (cases sch) auto
  have "CHR ''?'' \<notin> set (''//'' @ a @ q)"
    using a q by simp
  note cut = cut_none [OF this]
  have noq: "count_list (''//'' @ a @ q) CHR ''?'' = 0"
    using a q by simp
  have slash: "takeWhile (\<lambda>c. c \<noteq> CHR ''/'') (a @ q) = a" "dropWhile (\<lambda>c. c \<noteq> CHR ''/'') (a @ q) = q"
    using a(1) q(3) by (cases q; auto simp: takeWhile_append dropWhile_append)+
  have "unescape encodePath q = Inr q"
    using q(2) by (intro unescape_id) auto
  then have "url_finish u q = Inr (u\<lparr>url_Path := q\<rparr>)" for u
    by (simp add: url_finish_def)
  moreover have "parseAuthority a = Inr (None, a)"
    unfolding a_def by (rule parseAuthority_host_port [OF assms(2,3)])
  ultimately have "parse_url via (sch @ CHR '':'' # ''//'' @ a @ q) = Inr (emptyURL\<lparr>url_Scheme := sch, url_Host := a, url_Path := q\<rparr>)"
    unfolding parse_url_def if_not_P [OF ctl] if_not_P [OF star] sch(1)
    using sch(2,3) cut noq slash by (simp add: emptyURL_def)
  then show ?thesis
    by (simp only: a_def)
qed

lemma url_Parse_plain:
  assumes "sch \<in> set web_schemes" "hostname_ok h" "port_ok p" "path_ok q"
  shows "url_Parse (sch @ CHR '':'' # ''//'' @ (h @ CHR '':'' # p) @ q) =
    Inr (emptyURL\<lparr>url_Scheme := sch, url_Host := h @ CHR '':'' # p, url_Path := q\<rparr>)"
proof -
  have "CHR ''#'' \<notin> set (sch @ CHR '':'' # ''//'' @ (h @ CHR '':'' # p) @ q)"
    using host_facts(3) [OF assms(2)] port_facts(3) [OF assms(3)] scheme_facts(5) [OF assms(1)] assms(4)
    by (simp add: path_ok_def)
  from cut_none [OF this] parse_url_plain [OF assms] show ?thesis
    by (simp add: url_Parse_def)
qed

lemma Hostname_plain:
  assumes "hostname_ok h" "port_ok p"
  shows "Hostname (h @ CHR '':'' # p) = h"
proof -
  have "CHR '':'' \<notin> set p" "\<not> prefix ''['' h"
    using host_facts(3) [OF assms(1)] port_facts(3) [OF assms(2)] by (auto simp: prefix_def)
  moreover have "validOptionalPort (CHR '':'' # p)"
    using assms(2) by (simp add: validOptionalPort_def port_ok_def)
  ultimately show ?thesis
    by (simp add: Hostname_def split_last_append)
qed

end
