(* ===== verification/Mesh.thy ===== *)
theory Mesh
  imports Protocol Url
begin

text \<open>
  The mesh sockets of \<open>src/internal/mesh/socket.go\<close>: how a message of the control plane is put
  together for the raw req/rep sockets, how a pipe id is read back from a receive header, and
  the construction of the two sockets. The messaging library below is not part of the
  repository: whether one of its calls fails is an argument of the operation that makes it, and
  what a message becomes on the other side is a function \<open>deliver\<close> of the properties that need
  one, constrained by the documented framing (\<open>framing_ok\<close>).
\<close>

section \<open>Messages\<close>

type_synonym PipeID = "32 word"

record message =
  msg_Header :: bytes
  msg_Body :: bytes

datatype mesh_err = MeshErr string string | ProxyURLErr url_err | HeaderTooShort nat

definition backtraceToken :: bytes where
  "backtraceToken = [0x80, 0x00, 0x00, 0x00]"

text \<open>
  A socket is the list of messages handed to it so far. \<open>fault\<close> is the error of the library's
  \<open>SendMsg\<close>, if it fails.
\<close>

type_synonym sock = "message list"

definition SendMsg :: "string option \<Rightarrow> string \<Rightarrow> message \<Rightarrow> sock \<Rightarrow> mesh_err option \<times> sock" where
  "SendMsg fault ctx m s =
     (case fault of Some e \<Rightarrow> (Some (MeshErr ctx e), s) | None \<Rightarrow> (None, s @ [m]))"

definition SendTo :: "string option \<Rightarrow> PipeID \<Rightarrow> bytes \<Rightarrow> sock \<Rightarrow> mesh_err option \<times> sock" where
  "SendTo fault pipe body s =
     SendMsg fault ''send to pipe'' \<lparr>msg_Header = PutUint32 pipe @ backtraceToken, msg_Body = body\<rparr> s"

definition Worker_Send :: "string option \<Rightarrow> bytes \<Rightarrow> sock \<Rightarrow> mesh_err option \<times> sock" where
  "Worker_Send fault body s =
     SendMsg fault ''worker send'' \<lparr>msg_Header = backtraceToken, msg_Body = body\<rparr> s"

definition SendReply :: "string option \<Rightarrow> bytes \<Rightarrow> bytes \<Rightarrow> sock \<Rightarrow> mesh_err option \<times> sock" where
  "SendReply fault backtrace body s =
     SendMsg fault ''worker reply'' \<lparr>msg_Header = backtrace, msg_Body = body\<rparr> s"

definition PipeFromHeader :: "bytes \<Rightarrow> mesh_err + PipeID" where
  "PipeFromHeader header =
     (if length header < 4 then Inl (HeaderTooShort (length header))
      else Inr (Uint32 (take 4 header)))"

section \<open>Sockets\<close>

text \<open>
  Construction of the sockets: the options set, in order, and whether the socket was closed
  again. \<open>new_fault\<close> is the failure of the library's constructor, \<open>opt_fault\<close> that of setting
  the named option.
\<close>

datatype sock_option =
  OptionRecvDeadline duration | OptionReconnectTime duration | OptionMaxReconnectTime duration

definition recvDeadline :: duration where "recvDeadline = 2 * Second"
definition reconnectMin :: duration where "reconnectMin = 1 * Second"
definition reconnectMax :: duration where "reconnectMax = 30 * Second"

record new_socket =
  ns_result :: "mesh_err option"
  ns_options :: "sock_option list"
  ns_open :: bool

fun set_options ::
  "(sock_option \<Rightarrow> string option) \<Rightarrow> (string \<times> sock_option) list \<Rightarrow> sock_option list \<Rightarrow> new_socket" where
  "set_options opt_fault [] acc = \<lparr>ns_result = None, ns_options = acc, ns_open = True\<rparr>"
| "set_options opt_fault ((ctx, opt) # rest) acc =
     (case opt_fault opt of
        Some e \<Rightarrow> \<lparr>ns_result = Some (MeshErr ctx e), ns_options = acc, ns_open = False\<rparr>
      | None \<Rightarrow> set_options opt_fault rest (acc @ [opt]))"

definition NewRouter :: "string option \<Rightarrow> (sock_option \<Rightarrow> string option) \<Rightarrow> new_socket" where
  "NewRouter new_fault opt_fault =
     (case new_fault of
        Some e \<Rightarrow> \<lparr>ns_result = Some (MeshErr ''xrep socket'' e), ns_options = [], ns_open = False\<rparr>
      | None \<Rightarrow> set_options opt_fault [(''set recv deadline'', OptionRecvDeadline recvDeadline)] [])"

definition NewWorker :: "string option \<Rightarrow> (sock_option \<Rightarrow> string option) \<Rightarrow> new_socket" where
  "NewWorker new_fault opt_fault =
     (case new_fault of
        Some e \<Rightarrow> \<lparr>ns_result = Some (MeshErr ''xreq socket'' e), ns_options = [], ns_open = False\<rparr>
      | None \<Rightarrow> set_options opt_fault
          [(''set recv deadline'', OptionRecvDeadline recvDeadline),
           (''set reconnect time'', OptionReconnectTime reconnectMin),
           (''set max reconnect time'', OptionMaxReconnectTime reconnectMax)] [])"

section \<open>Framing\<close>

text \<open>
  What the comments of \<open>socket.go\<close> rely on from the library: a message a worker sends with
  exactly the terminating request id in its header reaches the router with the pipe id in front
  of that header and the body unchanged.
\<close>

definition framing_ok :: "(PipeID \<Rightarrow> message \<Rightarrow> message) \<Rightarrow> bool" where
  "framing_ok deliver \<longleftrightarrow>
     (\<forall>pipe m. msg_Header m = backtraceToken \<longrightarrow>
        take 4 (msg_Header (deliver pipe m)) = PutUint32 pipe \<and> msg_Body (deliver pipe m) = msg_Body m)"

definition prefix_pipe :: "PipeID \<Rightarrow> message \<Rightarrow> message" where
  "prefix_pipe pipe m = m\<lparr>msg_Header := PutUint32 pipe @ msg_Header m\<rparr>"

lemma framing_ok_prefix_pipe [simp]: "framing_ok prefix_pipe"
  by (simp add: framing_ok_def prefix_pipe_def)

lemma PipeFromHeader_framed:
  assumes "framing_ok deliver" "msg_Header m = backtraceToken"
  shows "PipeFromHeader (msg_Header (deliver pipe m)) = Inr pipe"
proof -
  have t: "take 4 (msg_Header (deliver pipe m)) = PutUint32 pipe"
    using assms by (simp add: framing_ok_def)
  have "min (length (msg_Header (deliver pipe m))) 4 = length (PutUint32 pipe)"
    by (simp flip: t)
  then have "4 \<le> length (msg_Header (deliver pipe m))"
    by simp
  then show ?thesis
    using t by (simp add: PipeFromHeader_def)
qed

lemma PipeFromHeader_PutUint32 [simp]: "PipeFromHeader (PutUint32 pipe @ h) = Inr pipe"
  by (simp add: PipeFromHeader_def)

lemma SendTo_cases:
  "SendTo fault pipe body s =
    (case fault of Some e \<Rightarrow> (Some (MeshErr ''send to pipe'' e), s)
     | None \<Rightarrow> (None, s @ [\<lparr>msg_Header = PutUint32 pipe @ backtraceToken, msg_Body = body\<rparr>]))"
  by (simp add: SendTo_def SendMsg_def)

lemma set_options_result:
  "ns_open (set_options f opts acc) \<longleftrightarrow> ns_result (set_options f opts acc) = None"
  by (induction f opts acc rule: set_options.induct) (simp_all split: option.splits)

lemma set_options_ok:
  "ns_result (set_options f opts acc) = None \<Longrightarrow> ns_options (set_options f opts acc) = acc @ map snd opts"
  by (induction f opts acc rule: set_options.induct) (simp_all split: option.splits)

text \<open>
  Constructing a socket leaks nothing and never hands out a half-configured socket: the
  socket stays open exactly when the constructor reports success, and then the worker socket
  has its receive deadline and both reconnect bounds set, the router socket its deadline.
\<close>
lemma new_sockets_configured:
  "(ns_open (NewWorker nf f) \<longleftrightarrow> ns_result (NewWorker nf f) = None) \<and>
   (ns_open (NewRouter nf f) \<longleftrightarrow> ns_result (NewRouter nf f) = None) \<and>
   (\<not> ns_open (NewWorker nf f) \<or> ns_options (NewWorker nf f) =
      [OptionRecvDeadline (2 * Second), OptionReconnectTime (1 * Second), OptionMaxReconnectTime (30 * Second)]) \<and>
   (\<not> ns_open (NewRouter nf f) \<or> ns_options (NewRouter nf f) = [OptionRecvDeadline (2 * Second)])"
  by (auto simp: NewWorker_def NewRouter_def set_options_result recvDeadline_def reconnectMin_def
      reconnectMax_def split: option.splits)

lemma new_sockets_configured_instance:
  "ns_open (NewWorker None (\<lambda>_. None)) \<and> ns_options (NewWorker None (\<lambda>_. None)) =
     [OptionRecvDeadline (2 * Second), OptionReconnectTime (1 * Second), OptionMaxReconnectTime (30 * Second)]"
proof -
  have "ns_open (NewWorker None (\<lambda>_. None))" by (simp add: NewWorker_def)
  then show ?thesis using new_sockets_configured [of None "\<lambda>_. None"] by simp
qed

end
