(* ===== verification/MeshTLS.thy ===== *)
theory MeshTLS
  imports Mesh Encoding
begin

text \<open>
  TLS material of the mesh, \<open>src/internal/mesh/tls.go\<close>, and the calls that put it on a
  connection, \<open>Router.Listen\<close> and \<open>Worker.Dial\<close> of \<open>socket.go\<close>. The cryptography is a parameter: the
  hash \<open>sha256\<close>, the parser of a PEM certificate and key (\<open>keypair\<close>: the DER chain, or an
  error), whether a CA file holds any certificate (\<open>pool\<close>; the pool itself is the file's content),
  and what generating a certificate produced. A certificate is its chain of DER blocks, a pinning callback the pin it captured.
\<close>

section \<open>Fingerprints\<close>

text \<open>\<open>base64.StdEncoding\<close> pads.\<close>

definition base64_StdEncoding :: "bytes \<Rightarrow> string" where
  "base64_StdEncoding bs = base64_encode encodeStd bs @ replicate ((3 - length bs mod 3) mod 3) CHR ''=''"

definition leafFingerprint :: "(bytes \<Rightarrow> bytes) \<Rightarrow> bytes \<Rightarrow> string" where
  "leafFingerprint sha256 der = ''sha256/'' @ base64_StdEncoding (sha256 der)"

datatype tls_err =
    LoadServerKeypair string
  | ReadCA
  | NoCertsInCA
  | BadFingerprint string
  | NoPeerCertificate
  | FingerprintMismatch string string
  | LoadSelfSigned string
  | NoCertificate
  | KeyMissing string string
  | Generate string string
  | WriteCert string
  | WriteKey string
  | LoadGenerated string

definition validateFingerprint :: "string \<Rightarrow> tls_err option" where
  "validateFingerprint fp = (if prefix ''sha256/'' fp then None else Some (BadFingerprint fp))"

section \<open>Configurations\<close>

text \<open>\<open>tls.VersionTLS12\<close> is 0x0303.\<close>

record tls_config =
  tc_MinVersion :: "16 word"
  tc_Certificates :: "bytes list list"
  tc_ServerName :: string
  tc_RootCAs :: "bytes option"
  tc_InsecureSkipVerify :: bool
  tc_pin :: "string option"

definition VersionTLS12 :: "16 word" where "VersionTLS12 = 0x0303"

definition ServerTLSConfig ::
  "(bytes \<Rightarrow> bytes \<Rightarrow> string + bytes list) \<Rightarrow> (string \<Rightarrow> read_result) \<Rightarrow> string \<Rightarrow> string \<Rightarrow> tls_err + tls_config" where
  "ServerTLSConfig keypair file certFile keyFile =
     (case file certFile of
        ReadOk certPEM \<Rightarrow>
          (case file keyFile of
             ReadOk keyPEM \<Rightarrow>
               (case keypair certPEM keyPEM of
                  Inl m \<Rightarrow> Inl (LoadServerKeypair m)
                | Inr cert \<Rightarrow>
                    Inr \<lparr>tc_MinVersion = VersionTLS12, tc_Certificates = [cert], tc_ServerName = '''', tc_RootCAs = None,
                         tc_InsecureSkipVerify = False, tc_pin = None\<rparr>)
           | _ \<Rightarrow> Inl (LoadServerKeypair ''key file''))
      | _ \<Rightarrow> Inl (LoadServerKeypair ''certificate file''))"

definition ClientTLSConfig ::
  "(bytes \<Rightarrow> bool) \<Rightarrow> (string \<Rightarrow> read_result) \<Rightarrow> string \<Rightarrow> string \<Rightarrow> string \<Rightarrow> tls_err + tls_config" where
  "ClientTLSConfig pool file caFile serverName fingerprint =
     (let cfg = \<lparr>tc_MinVersion = VersionTLS12, tc_Certificates = [], tc_ServerName = serverName, tc_RootCAs = None,
                 tc_InsecureSkipVerify = False, tc_pin = None\<rparr>;
          with_ca = (if caFile = '''' then Inr cfg
                     else case file caFile of
                            ReadOk caPEM \<Rightarrow>
                              if pool caPEM then Inr (cfg\<lparr>tc_RootCAs := Some caPEM\<rparr>) else Inl NoCertsInCA
                          | _ \<Rightarrow> Inl ReadCA)
      in case with_ca of
           Inl e \<Rightarrow> Inl e
         | Inr cfg \<Rightarrow>
             let fp = strings_TrimSpace fingerprint
             in if fp = '''' then Inr cfg
                else case validateFingerprint fp of
                       Some e \<Rightarrow> Inl e
                     | None \<Rightarrow> Inr (cfg\<lparr>tc_InsecureSkipVerify := True, tc_pin := Some fp\<rparr>))"

text \<open>The callback: the peer's certificates as presented, leaf first.\<close>

definition VerifyPeerCertificate :: "(bytes \<Rightarrow> bytes) \<Rightarrow> string \<Rightarrow> bytes list \<Rightarrow> tls_err option" where
  "VerifyPeerCertificate sha256 pin rawCerts =
     (case rawCerts of
        [] \<Rightarrow> Some NoPeerCertificate
      | leaf # _ \<Rightarrow>
          let got = leafFingerprint sha256 leaf
          in if got \<noteq> pin then Some (FingerprintMismatch pin got) else None)"

section \<open>The self-signed certificate\<close>

text \<open>
  The outcome of the library calls of one generation, in the order they are made, and of the
  two writes. \<open>gen_pem\<close> is \<open>pem.EncodeToMemory\<close>.
\<close>

record generation =
  gen_key :: "string option"
  gen_serial :: "string option"
  gen_cert :: "string + bytes"
  gen_keyDER :: "string + bytes"
  gen_pem :: "string \<Rightarrow> bytes \<Rightarrow> bytes"
  gen_write_cert :: "string option"
  gen_write_key :: "string option"

text \<open>The result and the files written, in order.\<close>

definition LoadOrCreateSelfSignedCert ::
  "(bytes \<Rightarrow> bytes) \<Rightarrow> (bytes \<Rightarrow> bytes \<Rightarrow> string + bytes list) \<Rightarrow> (string \<Rightarrow> read_result) \<Rightarrow> generation \<Rightarrow> string \<Rightarrow> string \<Rightarrow>
   (tls_err + bytes list \<times> string \<times> bool) \<times> (string \<times> bytes) list" where
  "LoadOrCreateSelfSignedCert sha256 keypair file g certFile keyFile =
     (case file certFile of
        ReadOk certPEM \<Rightarrow>
          (case file keyFile of
             ReadOk keyPEM \<Rightarrow>
               (case keypair certPEM keyPEM of
                  Inl m \<Rightarrow> (Inl (LoadSelfSigned m), [])
                | Inr [] \<Rightarrow> (Inl NoCertificate, [])
                | Inr (leaf # rest) \<Rightarrow> (Inr (leaf # rest, leafFingerprint sha256 leaf, False), []))
           | _ \<Rightarrow> (Inl (KeyMissing certFile keyFile), []))
      | _ \<Rightarrow>
          (case gen_key g of Some m \<Rightarrow> (Inl (Generate ''generate key'' m), []) | None \<Rightarrow>
          (case gen_serial g of Some m \<Rightarrow> (Inl (Generate ''generate serial'' m), []) | None \<Rightarrow>
          (case gen_cert g of Inl m \<Rightarrow> (Inl (Generate ''create self-signed cert'' m), []) | Inr der \<Rightarrow>
          (case gen_keyDER g of Inl m \<Rightarrow> (Inl (Generate ''marshal key'' m), []) | Inr keyDER \<Rightarrow>
             let certPEM = gen_pem g ''CERTIFICATE'' der; keyPEM = gen_pem g ''EC PRIVATE KEY'' keyDER
             in (case gen_write_cert g of Some m \<Rightarrow> (Inl (WriteCert m), []) | None \<Rightarrow>
                (case gen_write_key g of Some m \<Rightarrow> (Inl (WriteKey m), [(certFile, certPEM)]) | None \<Rightarrow>
                (case keypair certPEM keyPEM of
                   Inl m \<Rightarrow> (Inl (LoadGenerated m), [(certFile, certPEM), (keyFile, keyPEM)])
                 | Inr cert \<Rightarrow>
                     (Inr (cert, leafFingerprint sha256 der, True), [(certFile, certPEM), (keyFile, keyPEM)])))))))))"

text \<open>What a later start reads: the files written, over those there were.\<close>

definition files_after :: "(string \<times> bytes) list \<Rightarrow> (string \<Rightarrow> read_result) \<Rightarrow> string \<Rightarrow> read_result" where
  "files_after ws file = fold (\<lambda>(p, c) f. f(p := ReadOk c)) ws file"

section \<open>Listening and dialling\<close>

text \<open>
  The failures of the library's calls, in the order they are made. The result is the error or the endpoint that was started:
  its address, its TLS configuration and the proxy set on it.
\<close>

record conn_faults =
  cf_new :: "string option"
  cf_tls :: "string option"
  cf_proxy :: "string option"
  cf_start :: "string option"

record endpoint =
  ep_addr :: string
  ep_tls :: "tls_config option"
  ep_proxy :: "string option"

definition Listen :: "conn_faults \<Rightarrow> string \<Rightarrow> tls_config option \<Rightarrow> mesh_err + endpoint" where
  "Listen cf addr cfg =
     (case cf_new cf of Some e \<Rightarrow> Inl (MeshErr ''new listener'' e) | None \<Rightarrow>
     (case (if cfg = None then None else cf_tls cf) of Some e \<Rightarrow> Inl (MeshErr ''set listener tls config'' e) | None \<Rightarrow>
     (case cf_start cf of Some e \<Rightarrow> Inl (MeshErr ''listen'' e) | None \<Rightarrow>
        Inr \<lparr>ep_addr = addr, ep_tls = cfg, ep_proxy = None\<rparr>)))"

definition Dial :: "conn_faults \<Rightarrow> string \<Rightarrow> tls_config option \<Rightarrow> string \<Rightarrow> mesh_err + endpoint" where
  "Dial cf addr cfg proxyURL =
     (case cf_new cf of Some e \<Rightarrow> Inl (MeshErr ''new dialer'' e) | None \<Rightarrow>
     (case (if cfg = None then None else cf_tls cf) of Some e \<Rightarrow> Inl (MeshErr ''set dialer tls config'' e) | None \<Rightarrow>
     (case (if proxyURL = [] then Inr emptyURL else url_Parse proxyURL) of Inl e \<Rightarrow> Inl (ProxyURLErr e) | Inr _ \<Rightarrow>
     (case (if proxyURL = [] then None else cf_proxy cf) of Some e \<Rightarrow> Inl (MeshErr ''set proxy'' e) | None \<Rightarrow>
     (case cf_start cf of Some e \<Rightarrow> Inl (MeshErr ''dial'' e) | None \<Rightarrow>
        Inr \<lparr>ep_addr = addr, ep_tls = cfg, ep_proxy = (if proxyURL = [] then None else Some proxyURL)\<rparr>)))))"

section \<open>Lemmas\<close>

lemma fingerprint_chars: "set (leafFingerprint sha256 der) \<subseteq> set (''sha256/='' @ encodeStd)"
  using base64_encode_chars [OF alphabet_ok_Std, of "sha256 der"]
  by (auto simp: leafFingerprint_def base64_StdEncoding_def)

lemma TrimSpace_fingerprint [simp]: "strings_TrimSpace (leafFingerprint sha256 der) = leafFingerprint sha256 der"
proof (rule TrimSpace_id_chars [OF _ fingerprint_chars])
  show "\<forall>p\<in>set space_seqs. hd p \<notin> set (''sha256/='' @ encodeStd) \<and> last p \<notin> set (''sha256/='' @ encodeStd)"
    by (simp add: space_seqs_def encodeStd_def)
qed

lemma leafFingerprint_valid [simp]:
  "validateFingerprint (leafFingerprint sha256 der) = None" "leafFingerprint sha256 der \<noteq> ''''"
  by (simp_all add: validateFingerprint_def leafFingerprint_def)

lemma base64_StdEncoding_inj:
  assumes "length a = length b" "base64_StdEncoding a = base64_StdEncoding b"
  shows "a = b"
proof -
  have "base64_encode encodeStd a = base64_encode encodeStd b"
    using assms(2) unfolding base64_StdEncoding_def assms(1) append_same_eq .
  then show ?thesis
    by (metis alphabet_ok_Std base64_roundtrip option.inject)
qed

lemma ClientTLSConfig_InrD:
  assumes "ClientTLSConfig pool file ca sn fp = Inr cfg"
  shows "tc_MinVersion cfg = VersionTLS12 \<and> tc_ServerName cfg = sn \<and>
    (ca = '''' \<longleftrightarrow> tc_RootCAs cfg = None) \<and>
    (if strings_TrimSpace fp = '''' then \<not> tc_InsecureSkipVerify cfg \<and> tc_pin cfg = None
     else tc_InsecureSkipVerify cfg \<and> tc_pin cfg = Some (strings_TrimSpace fp) \<and> prefix ''sha256/'' (strings_TrimSpace fp))"
  using assms
  by (auto simp: ClientTLSConfig_def validateFingerprint_def Let_def
      split: if_splits option.splits sum.splits read_result.splits)

lemma generatedD:
  assumes "LoadOrCreateSelfSignedCert sha256 keypair file g certFile keyFile = (Inr (cert, fp, True), ws)"
  obtains der keyDER where "gen_cert g = Inr der" "gen_keyDER g = Inr keyDER" "fp = leafFingerprint sha256 der"
    "ws = [(certFile, gen_pem g ''CERTIFICATE'' der), (keyFile, gen_pem g ''EC PRIVATE KEY'' keyDER)]"
    "keypair (gen_pem g ''CERTIFICATE'' der) (gen_pem g ''EC PRIVATE KEY'' keyDER) = Inr cert"
  using assms
  by (auto simp: LoadOrCreateSelfSignedCert_def Let_def
      split: read_result.splits sum.splits option.splits list.splits prod.splits)

section \<open>Properties\<close>

text \<open>
  A worker never dials without checking the router's certificate: the standard verification
  is switched off only when a fingerprint is pinned, and then the handshake succeeds exactly for
  a peer whose leaf certificate has that fingerprint. TLS is at least version 1.2, and a CA file
  that was named is in force.
\<close>
lemma client_tls_verified:
  assumes "ClientTLSConfig pool file ca sn fp = Inr cfg"
  shows "tc_MinVersion cfg = 0x0303 \<and> (ca \<noteq> '''' \<longrightarrow> tc_RootCAs cfg \<noteq> None) \<and>
    (if tc_InsecureSkipVerify cfg then
       \<exists>pin. tc_pin cfg = Some pin \<and> pin = strings_TrimSpace fp \<and> prefix ''sha256/'' pin \<and>
         (\<forall>certs. VerifyPeerCertificate sha256 pin certs = None \<longleftrightarrow>
            (\<exists>leaf rest. certs = leaf # rest \<and> leafFingerprint sha256 leaf = pin))
     else strings_TrimSpace fp = '''')"
  using ClientTLSConfig_InrD [OF assms]
  by (auto simp: VersionTLS12_def VerifyPeerCertificate_def Let_def split: if_splits list.splits)

lemma client_tls_verified_instance:
  "\<exists>cfg. ClientTLSConfig (\<lambda>_. False) (\<lambda>_. ReadNotExist) '''' ''router'' ''sha256/AAAA'' = Inr cfg \<and>
     tc_InsecureSkipVerify cfg \<and> tc_pin cfg = Some ''sha256/AAAA''"
proof -
  have trim: "strings_TrimSpace ''sha256/AAAA'' = ''sha256/AAAA''"
    by code_simp
  obtain cfg where c: "ClientTLSConfig (\<lambda>_. False) (\<lambda>_. ReadNotExist) '''' ''router'' ''sha256/AAAA'' = Inr cfg"
    by (simp add: ClientTLSConfig_def trim validateFingerprint_def)
  from client_tls_verified [OF c, of "\<lambda>b. b"] c trim show ?thesis
    by (auto split: if_splits)
qed

text \<open>
  C37: pins survive a restart. When the router's first start generated a certificate and
  reported its fingerprint, every later start that reads the two files written loads the same
  certificate, reports the same fingerprint and writes nothing; a worker that pins the reported
  string accepts this certificate, and rejects every certificate whose hash differs.
\<close>
theorem self_signed_pin_survives:
  assumes "LoadOrCreateSelfSignedCert sha256 keypair file g certFile keyFile = (Inr (cert, fp, True), ws)"
    and "certFile \<noteq> keyFile" and sha: "\<And>x. length (sha256 x) = 32"
    and pem: "\<And>der keyDER chain. keypair (gen_pem g ''CERTIFICATE'' der) (gen_pem g ''EC PRIVATE KEY'' keyDER) = Inr chain \<Longrightarrow> chain = [der]"
  shows "LoadOrCreateSelfSignedCert sha256 keypair (files_after ws file) g' certFile keyFile = (Inr (cert, fp, False), []) \<and>
    (\<exists>cfg. ClientTLSConfig pool file' '''' sn fp = Inr cfg \<and> tc_pin cfg = Some fp) \<and>
    VerifyPeerCertificate sha256 fp cert = None \<and>
    (\<forall>leaf rest. sha256 leaf \<noteq> sha256 (hd cert) \<longrightarrow> VerifyPeerCertificate sha256 fp (leaf # rest) \<noteq> None)"
proof -
  obtain der keyDER where g: "fp = leafFingerprint sha256 der"
      "ws = [(certFile, gen_pem g ''CERTIFICATE'' der), (keyFile, gen_pem g ''EC PRIVATE KEY'' keyDER)]"
      "keypair (gen_pem g ''CERTIFICATE'' der) (gen_pem g ''EC PRIVATE KEY'' keyDER) = Inr cert"
    using generatedD [OF assms(1)] by metis
  then have cert: "cert = [der]"
    using pem by blast
  have load: "LoadOrCreateSelfSignedCert sha256 keypair (files_after ws file) g' certFile keyFile = (Inr (cert, fp, False), [])"
    using g(3) assms(2) by (simp add: LoadOrCreateSelfSignedCert_def files_after_def g(1,2) cert)
  have pin: "\<exists>cfg. ClientTLSConfig pool file' '''' sn fp = Inr cfg \<and> tc_pin cfg = Some fp"
    by (simp add: ClientTLSConfig_def g(1) Let_def)
  have "VerifyPeerCertificate sha256 fp (leaf # rest) \<noteq> None" if "sha256 leaf \<noteq> sha256 der" for leaf rest
    using that base64_StdEncoding_inj [of "sha256 leaf" "sha256 der"] sha
    by (auto simp: VerifyPeerCertificate_def g(1) leafFingerprint_def Let_def)
  with load pin show ?thesis
    by (simp add: cert VerifyPeerCertificate_def g(1) Let_def)
qed

definition sample_generation :: generation where
  "sample_generation = \<lparr>gen_key = None, gen_serial = None, gen_cert = Inr [1], gen_keyDER = Inr [2],
     gen_pem = (\<lambda>_ d. d), gen_write_cert = None, gen_write_key = None\<rparr>"

theorem self_signed_pin_survives_witness:
  "\<exists>fp ws. LoadOrCreateSelfSignedCert (\<lambda>_. replicate 32 0) (\<lambda>c k. Inr [c]) (\<lambda>_. ReadNotExist) sample_generation ''c'' ''k''
       = (Inr ([[1]], fp, True), ws) \<and>
     LoadOrCreateSelfSignedCert (\<lambda>_. replicate 32 0) (\<lambda>c k. Inr [c]) (files_after ws (\<lambda>_. ReadNotExist)) sample_generation ''c'' ''k''
       = (Inr ([[1]], fp, False), [])"
proof -
  obtain fp ws where l: "LoadOrCreateSelfSignedCert (\<lambda>_. replicate 32 0) (\<lambda>c k. Inr [c]) (\<lambda>_. ReadNotExist) sample_generation ''c'' ''k''
      = (Inr ([[1]], fp, True), ws)"
    by (simp add: LoadOrCreateSelfSignedCert_def sample_generation_def Let_def)
  from self_signed_pin_survives [OF l, of sample_generation "\<lambda>_. False" "\<lambda>_. ReadNotExist" "''r''"]
  show ?thesis
    using l by (auto simp: sample_generation_def)
qed

section \<open>Behaviours worth knowing\<close>

text \<open>
  The comment on \<open>LoadOrCreateSelfSignedCert\<close> promises a fresh certificate when either file is
  missing. With the certificate present and the key missing the call fails instead; and this is
  the state left behind when the write of the key fails, so the router does not start again
  until the certificate is removed by hand.
\<close>
lemma half_written_cert_blocks_restart:
  assumes "LoadOrCreateSelfSignedCert sha256 keypair file g certFile keyFile = (Inl (WriteKey m), ws)"
    and "file keyFile = ReadNotExist" "certFile \<noteq> keyFile"
  shows "LoadOrCreateSelfSignedCert sha256 keypair (files_after ws file) g' certFile keyFile =
    (Inl (KeyMissing certFile keyFile), [])"
proof -
  obtain certPEM where "ws = [(certFile, certPEM)]"
    using assms(1) unfolding LoadOrCreateSelfSignedCert_def Let_def
    by (simp split: read_result.splits sum.splits option.splits list.splits) blast+
  then show ?thesis
    using assms(2,3) by (simp add: LoadOrCreateSelfSignedCert_def files_after_def)
qed

end
