(* ===== verification/WsTransport.thy ===== *)
theory WsTransport
  imports MeshTLS
begin

text \<open>
  The WebSocket transport below the mesh sockets, \<open>src/internal/mesh/wstransport\<close>: options, pipes,
  the dialer with its proxy, and the listener. Connections are numbered; the pipes made of them
  live in a store, because the listener's queue, the socket that accepted a pipe and the HTTP
  handler that waits for it share them. The WebSocket library's answers (a finished handshake, a
  read, a failure) are parameters.
\<close>

section \<open>Options\<close>

datatype opt_name =
    NoDelay | MaxRecvSize | TLSConfig | LocalAddr | RemoteAddr | TLSConnState
  | WebSocketMux | WebSocketHandler | WebSocketCheckOrigin | WebSocketProxyURL | OtherOption string

text \<open>Values of Go's empty interface, by dynamic type; a pointer is \<open>None\<close> where it is nil.\<close>

datatype opt_value =
    BoolV bool | IntV int | TLSV "tls_config option" | URLV "URL option" | AddrV string | ConnStateV string
  | MuxV | HandlerV | OtherV string

datatype tran_err =
    ErrBadOption | ErrBadValue | ErrBadTran | ErrBadProto | ErrClosed | ErrTLSNoConfig | ErrTLSNoCert | TranErr string | TranURLErr url_err

type_synonym options_map = "(opt_name, opt_value) gomap"

definition options_get :: "opt_name \<Rightarrow> options_map \<Rightarrow> tran_err + opt_value" where
  "options_get name opts =
     (if name = NoDelay then Inr (BoolV True)
      else case map_of opts name of None \<Rightarrow> Inl ErrBadOption | Some v \<Rightarrow> Inr v)"

definition options_set :: "opt_name \<Rightarrow> opt_value \<Rightarrow> options_map \<Rightarrow> tran_err option \<times> options_map" where
  "options_set name val opts =
     (case name of
        NoDelay \<Rightarrow> (case val of BoolV _ \<Rightarrow> (None, opts) | _ \<Rightarrow> (Some ErrBadValue, opts))
      | WebSocketCheckOrigin \<Rightarrow> (case val of BoolV _ \<Rightarrow> (None, AList.update name val opts) | _ \<Rightarrow> (Some ErrBadValue, opts))
      | TLSConfig \<Rightarrow> (case val of TLSV _ \<Rightarrow> (None, AList.update name val opts) | _ \<Rightarrow> (Some ErrBadValue, opts))
      | WebSocketProxyURL \<Rightarrow> (case val of URLV _ \<Rightarrow> (None, AList.update name val opts) | _ \<Rightarrow> (Some ErrBadValue, opts))
      | MaxRecvSize \<Rightarrow> (case val of IntV _ \<Rightarrow> (None, AList.update name val opts) | _ \<Rightarrow> (Some ErrBadValue, opts))
      | _ \<Rightarrow> (Some ErrBadOption, opts))"

definition maxRecv :: "options_map \<Rightarrow> int" where
  "maxRecv opts = (case options_get MaxRecvSize opts of Inr (IntV n) \<Rightarrow> n | _ \<Rightarrow> 0)"

section \<open>Pipes\<close>

text \<open>\<open>wp_wg\<close> is the counter of the wait group; the HTTP handler returns when it is zero.\<close>

record wsPipe =
  wp_addr :: string
  wp_open :: bool
  wp_iswss :: bool
  wp_readLimit :: int
  wp_options :: options_map
  wp_wg :: int

definition wsPipe_Recv :: "string + bytes \<Rightarrow> string + message" where
  "wsPipe_Recv res = (case res of Inl e \<Rightarrow> Inl e | Inr body \<Rightarrow> Inr \<lparr>msg_Header = [], msg_Body = body\<rparr>)"

text \<open>What \<open>Send\<close> writes as one binary message.\<close>

definition wsPipe_Send :: "string option \<Rightarrow> message \<Rightarrow> string + bytes" where
  "wsPipe_Send fault m =
     (let buf = (if length (msg_Header m) > 0 then msg_Header m @ msg_Body m else msg_Body m)
      in case fault of Some e \<Rightarrow> Inl e | None \<Rightarrow> Inr buf)"

definition wsPipe_Close :: "wsPipe \<Rightarrow> wsPipe" where
  "wsPipe_Close p = (if wp_open p then p\<lparr>wp_open := False, wp_wg := wp_wg p - 1\<rparr> else p)"

definition wsPipe_GetOption :: "opt_name \<Rightarrow> wsPipe \<Rightarrow> tran_err + opt_value" where
  "wsPipe_GetOption name p = (case map_of (wp_options p) name of Some v \<Rightarrow> Inr v | None \<Rightarrow> Inl ErrBadOption)"

text \<open>A finished handshake: the connection's two addresses and its TLS state, if it has one.\<close>

record ws_conn =
  wc_local :: string
  wc_remote :: string
  wc_tls :: "string option"

definition conn_options :: "ws_conn \<Rightarrow> options_map" where
  "conn_options c =
     (let m = AList.update RemoteAddr (AddrV (wc_remote c)) (AList.update LocalAddr (AddrV (wc_local c)) [])
      in case wc_tls c of None \<Rightarrow> m | Some st \<Rightarrow> AList.update TLSConnState (ConnStateV st) m)"

section \<open>The dialer\<close>

datatype tran_panic = TypeAssertion | NilPointer

record dialer =
  di_addr :: string
  di_peerName :: string
  di_opts :: options_map
  di_iswss :: bool

definition NewDialer :: "string \<Rightarrow> string \<Rightarrow> tran_err + dialer" where
  "NewDialer addr peer =
     (if \<not> prefix ''wss://'' addr \<and> \<not> prefix ''ws://'' addr then Inl ErrBadTran
      else Inr \<lparr>di_addr = addr, di_peerName = peer,
                di_opts = AList.update MaxRecvSize (IntV 0) (AList.update NoDelay (BoolV True) []),
                di_iswss = prefix ''wss://'' addr\<rparr>)"

definition dialer_SetOption :: "opt_name \<Rightarrow> opt_value \<Rightarrow> dialer \<Rightarrow> tran_err option \<times> dialer" where
  "dialer_SetOption n v d = (let (e, opts) = options_set n v (di_opts d) in (e, d\<lparr>di_opts := opts\<rparr>))"

definition dialer_GetOption :: "opt_name \<Rightarrow> dialer \<Rightarrow> tran_err + opt_value" where
  "dialer_GetOption n d = options_get n (di_opts d)"

datatype proxy_choice = ProxyFromEnvironment | ProxyURL URL

record dial_request =
  dr_url :: string
  dr_subprotocols :: "string list"
  dr_tls :: "tls_config option"
  dr_proxy :: proxy_choice

text \<open>What the WebSocket dialer is configured with, or a failed type assertion.\<close>

definition dial_request_of :: "dialer \<Rightarrow> tran_panic + dial_request" where
  "dial_request_of d =
     (let proxy = (case map_of (di_opts d) WebSocketProxyURL of
                     Some (URLV (Some u)) \<Rightarrow> ProxyURL u
                   | _ \<Rightarrow> ProxyFromEnvironment);
          req = \<lparr>dr_url = di_addr d, dr_subprotocols = [di_peerName d @ ''.sp.nanomsg.org''], dr_tls = None, dr_proxy = proxy\<rparr>
      in case map_of (di_opts d) TLSConfig of
           None \<Rightarrow> Inr req
         | Some (TLSV cfg) \<Rightarrow> Inr (req\<lparr>dr_tls := cfg\<rparr>)
         | Some _ \<Rightarrow> Inl TypeAssertion)"

datatype dial_answer = BadHandshake | DialFails string | Connected ws_conn

definition dialer_Dial :: "(dial_request \<Rightarrow> dial_answer) \<Rightarrow> dialer \<Rightarrow> tran_panic + (tran_err + wsPipe)" where
  "dialer_Dial net d =
     (case dial_request_of d of
        Inl p \<Rightarrow> Inl p
      | Inr req \<Rightarrow>
          Inr (case net req of
                 BadHandshake \<Rightarrow> Inl ErrBadProto
               | DialFails e \<Rightarrow> Inl (TranErr e)
               | Connected c \<Rightarrow>
                   Inr \<lparr>wp_addr = di_addr d, wp_open = True, wp_iswss = False, wp_readLimit = maxRecv (di_opts d),
                        wp_options = conn_options c, wp_wg = 1\<rparr>))"

section \<open>The listener\<close>

text \<open>
  \<open>ln_anyOrigin\<close> says that the upgrader's \<open>CheckOrigin\<close> is the function that accepts every
  origin; otherwise it is nil, the library's default. \<open>ln_listener\<close> is the network listener with
  the TLS configuration around it while it listens, \<open>ln_mux\<close> the pattern the handler is registered under.
\<close>

record listener =
  ln_addr :: string
  ln_selfName :: string
  ln_url :: URL
  ln_mux :: string
  ln_opts :: options_map
  ln_iswss :: bool
  ln_anyOrigin :: bool
  ln_running :: bool
  ln_noserve :: bool
  ln_closed :: bool
  ln_anon :: bool
  ln_bound :: "nat option"
  ln_listener :: "tls_config option option"
  ln_pending :: "nat list"

definition NewListener :: "string \<Rightarrow> string \<Rightarrow> tran_err + listener" where
  "NewListener addr self =
     (if \<not> prefix ''wss://'' addr \<and> \<not> prefix ''ws://'' addr then Inl ErrBadTran
      else case ParseRequestURI addr of
             Inl e \<Rightarrow> Inl (TranURLErr e)
           | Inr u \<Rightarrow>
               let u1 = (if url_Path u = [] then u\<lparr>url_Path := ''/''\<rparr> else u)
               in Inr \<lparr>ln_addr = addr, ln_selfName = self, ln_url = u1, ln_mux = url_Path u1,
                       ln_opts = AList.update MaxRecvSize (IntV 0) [], ln_iswss = prefix ''wss://'' addr,
                       ln_anyOrigin = False, ln_running = False, ln_noserve = False, ln_closed = False, ln_anon = False,
                       ln_bound = None, ln_listener = None, ln_pending = []\<rparr>)"

text \<open>
  The two transports the package registers. \<open>WSS\<close> hands everything to \<open>WS\<close>, which looks at the
  address; the registry finds a transport by its scheme.
\<close>

datatype tran = WS | WSS

fun Scheme :: "tran \<Rightarrow> string" where
  "Scheme WS = ''ws''"
| "Scheme WSS = ''wss''"

definition RegisterTransport :: "tran \<Rightarrow> (string, tran) gomap \<Rightarrow> (string, tran) gomap" where
  "RegisterTransport t reg = AList.update (Scheme t) t reg"

definition init_transports :: "(string, tran) gomap" where
  "init_transports = RegisterTransport WSS (RegisterTransport WS [])"

fun tran_NewDialer :: "tran \<Rightarrow> string \<Rightarrow> string \<Rightarrow> tran_err + dialer" where
  "tran_NewDialer WS addr peer = NewDialer addr peer"
| "tran_NewDialer WSS addr peer = NewDialer addr peer"

fun tran_NewListener :: "tran \<Rightarrow> string \<Rightarrow> string \<Rightarrow> tran_err + listener" where
  "tran_NewListener WS addr self = NewListener addr self"
| "tran_NewListener WSS addr self = NewListener addr self"

definition listener_SetOption :: "opt_name \<Rightarrow> opt_value \<Rightarrow> listener \<Rightarrow> tran_err option \<times> listener" where
  "listener_SetOption n v l =
     (let l1 = (case (n, v) of (WebSocketCheckOrigin, BoolV b) \<Rightarrow> l\<lparr>ln_anyOrigin := \<not> b\<rparr> | _ \<Rightarrow> l);
          (e, opts) = options_set n v (ln_opts l1)
      in (e, l1\<lparr>ln_opts := opts\<rparr>))"

definition listener_GetOption :: "opt_name \<Rightarrow> listener \<Rightarrow> (tran_err + opt_value) \<times> listener" where
  "listener_GetOption n l =
     (case n of
        WebSocketMux \<Rightarrow> (Inr MuxV, l)
      | WebSocketHandler \<Rightarrow> (Inr HandlerV, l\<lparr>ln_running := True, ln_noserve := True\<rparr>)
      | WebSocketCheckOrigin \<Rightarrow>
          (case options_get n (ln_opts l) of Inr (BoolV b) \<Rightarrow> (Inr (BoolV b), l) | _ \<Rightarrow> (Inr (BoolV True), l))
      | _ \<Rightarrow> (options_get n (ln_opts l), l))"

text \<open>What the network answers: the resolved port, the failure of \<open>ListenTCP\<close>, the port it bound.\<close>

record listen_world =
  lw_resolve :: "string + nat"
  lw_tcp :: "string option"
  lw_port :: nat

text \<open>The TLS configuration of a \<open>wss\<close> listener.\<close>

definition listen_tls :: "listener \<Rightarrow> tran_panic + (tran_err + tls_config option)" where
  "listen_tls l =
     (if \<not> ln_iswss l then Inr (Inr None)
      else case map_of (ln_opts l) TLSConfig of
             None \<Rightarrow> Inr (Inl ErrTLSNoConfig)
           | Some (TLSV None) \<Rightarrow> Inl NilPointer
           | Some (TLSV (Some cfg)) \<Rightarrow> if tc_Certificates cfg = [] then Inr (Inl ErrTLSNoCert) else Inr (Inr (Some cfg))
           | Some _ \<Rightarrow> Inl TypeAssertion)"

text \<open>
  \<open>Listen\<close>, from its closed check to the start of the server, as one step. The method takes no lock
  between them; the program calls it once, in \<open>Router.Listen\<close>, before the socket is handed to anything
  that could close it.
\<close>

definition listener_Listen :: "listen_world \<Rightarrow> listener \<Rightarrow> tran_panic + (tran_err option \<times> listener)" where
  "listener_Listen w l =
     (if ln_closed l then Inr (Some ErrClosed, l)
      else if ln_noserve l then Inr (None, l)
      else case listen_tls l of
             Inl p \<Rightarrow> Inl p
           | Inr (Inl e) \<Rightarrow> Inr (Some e, l)
           | Inr (Inr cfg) \<Rightarrow>
               (case lw_resolve w of
                  Inl e \<Rightarrow> Inr (Some (TranErr e), l)
                | Inr port \<Rightarrow>
                    let l1 = (if port = 0 then l\<lparr>ln_anon := True\<rparr> else l)
                    in (case lw_tcp w of
                          Some e \<Rightarrow> Inr (Some (TranErr e), l1)
                        | None \<Rightarrow>
                            Inr (None, l1\<lparr>ln_listener := Some cfg, ln_pending := [], ln_running := True,
                                          ln_bound := Some (lw_port w)\<rparr>))))"

datatype accept_result = AcceptClosed | AcceptWaits | Accepts nat

definition Accept :: "listener \<Rightarrow> accept_result \<times> listener" where
  "Accept l =
     (if \<not> ln_running l then (AcceptClosed, l)
      else if length (ln_pending l) = 0 then (AcceptWaits, l)
      else (Accepts (last (ln_pending l)), l\<lparr>ln_pending := butlast (ln_pending l)\<rparr>))"

type_synonym pipe_store = "(nat, wsPipe) gomap"

definition handler_pipe :: "ws_conn \<Rightarrow> listener \<Rightarrow> wsPipe" where
  "handler_pipe c l =
     \<lparr>wp_addr = ln_addr l, wp_open = True, wp_iswss = ln_iswss l, wp_readLimit = maxRecv (ln_opts l),
      wp_options = conn_options c, wp_wg = 1\<rparr>"

definition listener_handler :: "nat \<Rightarrow> ws_conn \<Rightarrow> listener \<Rightarrow> pipe_store \<Rightarrow> listener \<times> pipe_store" where
  "listener_handler i c l ps = (l\<lparr>ln_pending := ln_pending l @ [i]\<rparr>, AList.update i (handler_pipe c l) ps)"

definition close_pipe :: "nat \<Rightarrow> pipe_store \<Rightarrow> pipe_store" where
  "close_pipe i ps = (case map_of ps i of None \<Rightarrow> ps | Some p \<Rightarrow> AList.update i (wsPipe_Close p) ps)"

definition listener_Close :: "listener \<Rightarrow> pipe_store \<Rightarrow> tran_err option \<times> listener \<times> pipe_store" where
  "listener_Close l ps =
     (if ln_closed l then (Some ErrClosed, l, ps)
      else (None, l\<lparr>ln_listener := None, ln_closed := True, ln_running := False, ln_pending := []\<rparr>,
            fold close_pipe (ln_pending l) ps))"

text \<open>\<open>ServeHTTP\<close> up to the upgrade: a response, or the upgrade goes ahead.\<close>

datatype serve_check = BadRequest | NotFound | GoAhead

definition ServeHTTP_check :: "string list \<Rightarrow> listener \<Rightarrow> serve_check" where
  "ServeHTTP_check offered l =
     (if \<not> list_ex (\<lambda>p. p = ln_selfName l @ ''.sp.nanomsg.org'') offered then BadRequest
      else if \<not> ln_running l then NotFound else GoAhead)"

text \<open>
  \<open>Address\<close> changes the listener's URL in place where the port was chosen by the system; it
  reads the bound address, which is nil when the listener never got one.
\<close>

definition Address :: "listener \<Rightarrow> tran_panic + URL \<times> listener" where
  "Address l =
     (if ln_anon l then
        (case ln_bound l of
           Some port \<Rightarrow>
             let u = (ln_url l)\<lparr>url_Host := Hostname (url_Host (ln_url l)) @ '':'' @ FormatInt (int port)\<rparr>
             in Inr (u, l\<lparr>ln_url := u\<rparr>)
         | None \<Rightarrow> Inl NilPointer)
      else Inr (ln_url l, l))"

section \<open>The listener as a transition system\<close>

text \<open>
  The listener with the HTTP handlers and the socket that use it. A handler first passes the
  check of \<open>ServeHTTP\<close>, releases the lock, upgrades its connection and then queues the pipe, so
  other steps may come between; \<open>ws_upgrading\<close> are the connections in between. The socket
  accepts pipes and closes those it accepted; a handler returns when its wait group is at zero.
  The socket starts a listener once.
\<close>

record ws_sys =
  ws_l :: listener
  ws_pipes :: pipe_store
  ws_upgrading :: "nat list"
  ws_accepted :: "nat list"

datatype ws_event =
    Answered serve_check | Passed nat | UpgradeFailed nat | Upgraded nat | AcceptedConn nat | AcceptRefused
  | Started "tran_err option" | CloseCalled "tran_err option" | PipeClosed nat | HandlerDone nat

inductive ws_step :: "ws_sys \<Rightarrow> ws_event \<Rightarrow> ws_sys \<Rightarrow> bool" where
  refused: "ServeHTTP_check offered (ws_l S) = r \<Longrightarrow> r \<noteq> GoAhead \<Longrightarrow> ws_step S (Answered r) S"
| passed: "ServeHTTP_check offered (ws_l S) = GoAhead \<Longrightarrow> i \<notin> set (ws_upgrading S) \<Longrightarrow> map_of (ws_pipes S) i = None \<Longrightarrow>
    ws_step S (Passed i) (S\<lparr>ws_upgrading := ws_upgrading S @ [i]\<rparr>)"
| failed: "i \<in> set (ws_upgrading S) \<Longrightarrow> ws_step S (UpgradeFailed i) (S\<lparr>ws_upgrading := remove1 i (ws_upgrading S)\<rparr>)"
| upgraded: "i \<in> set (ws_upgrading S) \<Longrightarrow> listener_handler i c (ws_l S) (ws_pipes S) = (l', ps') \<Longrightarrow>
    ws_step S (Upgraded i) (S\<lparr>ws_l := l', ws_pipes := ps', ws_upgrading := remove1 i (ws_upgrading S)\<rparr>)"
| accept: "Accept (ws_l S) = (Accepts i, l') \<Longrightarrow>
    ws_step S (AcceptedConn i) (S\<lparr>ws_l := l', ws_accepted := ws_accepted S @ [i]\<rparr>)"
| no_accept: "Accept (ws_l S) = (AcceptClosed, l') \<Longrightarrow> ws_step S AcceptRefused (S\<lparr>ws_l := l'\<rparr>)"
| start: "\<not> ln_running (ws_l S) \<Longrightarrow> listener_Listen w (ws_l S) = Inr (e, l') \<Longrightarrow> ws_step S (Started e) (S\<lparr>ws_l := l'\<rparr>)"
| close: "listener_Close (ws_l S) (ws_pipes S) = (e, l', ps') \<Longrightarrow>
    ws_step S (CloseCalled e) (S\<lparr>ws_l := l', ws_pipes := ps'\<rparr>)"
| pipe: "i \<in> set (ws_accepted S) \<Longrightarrow> ws_step S (PipeClosed i) (S\<lparr>ws_pipes := close_pipe i (ws_pipes S)\<rparr>)"
| returned: "map_of (ws_pipes S) i = Some p \<Longrightarrow> wp_wg p = 0 \<Longrightarrow> ws_step S (HandlerDone i) S"

inductive ws_run :: "ws_sys \<Rightarrow> ws_event list \<Rightarrow> ws_sys \<Rightarrow> bool" where
  nil: "ws_run S [] S"
| snoc: "ws_run S evs S' \<Longrightarrow> ws_step S' ev S'' \<Longrightarrow> ws_run S (evs @ [ev]) S''"

definition ws_init :: "listener \<Rightarrow> ws_sys" where
  "ws_init l = \<lparr>ws_l = l, ws_pipes = [], ws_upgrading = [], ws_accepted = []\<rparr>"

section \<open>Lemmas\<close>

lemma close_pipe_wf [simp]: "map_wf ps \<Longrightarrow> map_wf (close_pipe i ps)"
  by (simp add: close_pipe_def split: option.split)

lemma map_of_close_pipe:
  "map_of (close_pipe i ps) j = (if j = i then map_option wsPipe_Close (map_of ps j) else map_of ps j)"
  by (simp add: close_pipe_def split: option.split)

lemma fold_close_wf [simp]: "map_wf ps \<Longrightarrow> map_wf (fold close_pipe is ps)"
  by (induction "is" arbitrary: ps) simp_all

lemma wsPipe_Close_idem [simp]: "wsPipe_Close (wsPipe_Close p) = wsPipe_Close p"
  by (simp add: wsPipe_Close_def)

lemma map_of_fold_close:
  "map_of (fold close_pipe is ps) j = (if j \<in> set is then map_option wsPipe_Close (map_of ps j) else map_of ps j)"
  by (induction "is" arbitrary: ps) (auto simp: map_of_close_pipe option.map_comp o_def)

text \<open>A pipe's wait group counts exactly its being open.\<close>

definition pipe_ok :: "wsPipe \<Rightarrow> bool" where
  "pipe_ok p \<longleftrightarrow> wp_wg p = (if wp_open p then 1 else 0)"

lemma pipe_ok_Close [simp]: "pipe_ok p \<Longrightarrow> pipe_ok (wsPipe_Close p)" "\<not> wp_open (wsPipe_Close p)"
  by (simp_all add: pipe_ok_def wsPipe_Close_def)

lemma pipe_ok_handler [simp]: "pipe_ok (handler_pipe c l)" "wp_open (handler_pipe c l)"
  by (simp_all add: pipe_ok_def handler_pipe_def)

definition ws_inv :: "ws_sys \<Rightarrow> bool" where
  "ws_inv S \<longleftrightarrow>
     map_wf (ws_pipes S) \<and> distinct (ln_pending (ws_l S) @ ws_accepted S) \<and> distinct (ws_upgrading S) \<and>
     set (ln_pending (ws_l S)) \<union> set (ws_accepted S) \<subseteq> dom (map_of (ws_pipes S)) \<and>
     (\<forall>i \<in> set (ws_upgrading S). map_of (ws_pipes S) i = None) \<and>
     (\<forall>i p. map_of (ws_pipes S) i = Some p \<longrightarrow> pipe_ok p \<and>
        (wp_open p \<longrightarrow> i \<in> set (ln_pending (ws_l S)) \<union> set (ws_accepted S)) \<and>
        (i \<in> set (ln_pending (ws_l S)) \<longrightarrow> wp_open p)) \<and>
     (ln_closed (ws_l S) \<longrightarrow> \<not> ln_running (ws_l S)) \<and>
     (\<not> ln_running (ws_l S) \<and> \<not> ln_closed (ws_l S) \<longrightarrow> ln_pending (ws_l S) = [] \<and> ws_upgrading S = [])"

lemma AcceptD:
  assumes "Accept l = (Accepts i, l')"
  shows "ln_running l \<and> ln_pending l = ln_pending l' @ [i] \<and> l' = l\<lparr>ln_pending := ln_pending l'\<rparr>"
  using assms by (auto simp: Accept_def split: if_splits)

lemma ListenD:
  assumes "listener_Listen w l = Inr (e, l')"
  shows "ln_closed l' = ln_closed l \<and>
    (ln_running l' = ln_running l \<and> ln_pending l' = ln_pending l \<or> ln_running l' \<and> \<not> ln_closed l \<and> ln_pending l' = [])"
  using assms by (auto simp: listener_Listen_def Let_def split: if_splits sum.splits option.splits)

lemma ws_inv_pipe:
  "ws_inv S \<Longrightarrow> map_of (ws_pipes S) i = Some p \<Longrightarrow>
   pipe_ok p \<and> (wp_open p \<longrightarrow> i \<in> set (ln_pending (ws_l S)) \<union> set (ws_accepted S)) \<and> (i \<in> set (ln_pending (ws_l S)) \<longrightarrow> wp_open p)"
  unfolding ws_inv_def by blast

lemma ws_inv_pending:
  assumes "ws_inv S" "i \<in> set (ln_pending (ws_l S))"
  shows "\<exists>p. map_of (ws_pipes S) i = Some p \<and> wp_open p" "i \<notin> set (ws_accepted S)"
proof -
  obtain p where "map_of (ws_pipes S) i = Some p"
    using assms unfolding ws_inv_def by blast
  then show "\<exists>p. map_of (ws_pipes S) i = Some p \<and> wp_open p"
    using ws_inv_pipe [OF assms(1)] assms(2) by blast
  show "i \<notin> set (ws_accepted S)"
    using assms unfolding ws_inv_def by auto
qed

text \<open>The invariant sees of the listener only its queue and two flags.\<close>

lemma ws_inv_listener:
  assumes "ws_inv S" "ln_pending l' = ln_pending (ws_l S)" "ln_closed l' = ln_closed (ws_l S)"
    "ln_running (ws_l S) \<longrightarrow> ln_running l'" "ln_closed l' \<longrightarrow> \<not> ln_running l'"
  shows "ws_inv (S\<lparr>ws_l := l'\<rparr>)"
  using assms unfolding ws_inv_def by (simp, blast)

lemma ws_inv_step:
  assumes "ws_step S ev S'" "ws_inv S"
  shows "ws_inv S'"
  using assms
proof (induction rule: ws_step.induct)
  case (passed offered S i)
  then show ?case
    by (auto simp: ws_inv_def ServeHTTP_check_def split: if_splits)
next
  case (failed i S)
  then show ?case
    by (auto simp: ws_inv_def dest: notin_set_remove1 in_set_remove1 intro: distinct_remove1)
next
  case (upgraded i S c l' ps')
  have l': "l' = (ws_l S)\<lparr>ln_pending := ln_pending (ws_l S) @ [i]\<rparr>" "ps' = AList.update i (handler_pipe c (ws_l S)) (ws_pipes S)"
    using upgraded.hyps(2) by (simp_all add: listener_handler_def)
  have new: "map_of (ws_pipes S) i = None" "ws_upgrading S \<noteq> []"
    using upgraded by (auto simp: ws_inv_def)
  then have "i \<notin> set (ln_pending (ws_l S)) \<union> set (ws_accepted S)"
    using upgraded.prems by (auto simp: ws_inv_def)
  then show ?case
    using upgraded.prems new
    by (auto simp: ws_inv_def l' split: if_splits)
next
  case (accept S i l')
  note l' = AcceptD [OF accept.hyps]
  have "ln_closed l' = ln_closed (ws_l S)" "ln_running l' = ln_running (ws_l S)"
    using l' by (metis listener.select_convs listener.surjective listener.update_convs(14))+
  then show ?case
    using accept.prems l' by (auto simp: ws_inv_def)
next
  case (start S w e l')
  then show ?case
    using ListenD [OF start.hyps(2)] by (intro ws_inv_listener) (auto simp: ws_inv_def)
next
  case (close S e l' ps')
  have rest: "i \<in> set (ws_accepted S)"
    if "map_of (ws_pipes S) i = Some p" "wp_open p" "i \<notin> set (ln_pending (ws_l S))" for i p
    using ws_inv_pipe [OF close.prems that(1)] that(2,3) by blast
  show ?case
    using close
    by (auto simp: ws_inv_def listener_Close_def map_of_fold_close dest: rest split: if_splits)
next
  case (pipe i S)
  then show ?case
    by (auto simp: ws_inv_def map_of_close_pipe split: if_splits)
qed (auto simp: Accept_def split: if_splits)


lemma ws_inv_run: "ws_run S0 evs S \<Longrightarrow> ws_inv S0 \<Longrightarrow> ws_inv S"
  by (induction rule: ws_run.induct) (simp_all add: ws_inv_step)

lemma ws_inv_init: "NewListener addr self = Inr l \<Longrightarrow> ws_inv (ws_init l)"
  by (auto simp: NewListener_def ws_init_def ws_inv_def Let_def split: if_splits sum.splits)

inductive_cases ws_step_AcceptedE: "ws_step S (AcceptedConn i) S'"
inductive_cases ws_step_DoneE: "ws_step S (HandlerDone i) S'"

text \<open>A closed listener stays closed, and a pipe that was closed stays closed.\<close>

lemma ws_step_closed:
  assumes "ws_step S ev S'" "ws_inv S" "ln_closed (ws_l S)"
  shows "ln_closed (ws_l S') \<and> ws_accepted S' = ws_accepted S \<and>
    set (ln_pending (ws_l S)) \<subseteq> set (ln_pending (ws_l S')) \<and>
    (\<forall>i. ev \<noteq> Passed i) \<and> (\<forall>i. ev = Upgraded i \<longrightarrow> i \<in> set (ws_upgrading S)) \<and>
    set (ws_upgrading S') \<subseteq> set (ws_upgrading S)"
  using assms
proof (induction rule: ws_step.induct)
  case (accept S i l')
  then show ?case
    using AcceptD [OF accept.hyps] by (auto simp: ws_inv_def)
next
  case (passed offered S i)
  then show ?case
    by (auto simp: ws_inv_def ServeHTTP_check_def split: if_splits)
next
  case (start S w e l')
  then show ?case
    using ListenD [OF start.hyps(2)] by auto
qed (auto simp: listener_handler_def Accept_def listener_Close_def dest: set_remove1_subset [THEN subsetD] split: if_splits)

lemma ws_step_pipe_closed:
  assumes "ws_step S ev S'" "ws_inv S" "map_of (ws_pipes S) i = Some p" "\<not> wp_open p"
  shows "\<exists>p'. map_of (ws_pipes S') i = Some p' \<and> \<not> wp_open p'"
  using assms
proof (induction rule: ws_step.induct)
  case (upgraded j S c l' ps')
  have "map_of (ws_pipes S) j = None"
    using upgraded unfolding ws_inv_def by blast
  with upgraded show ?case
    by (auto simp: listener_handler_def)
qed (auto simp: listener_Close_def map_of_fold_close map_of_close_pipe split: if_splits)

lemma ws_run_closed:
  assumes "ws_run S evs S'" "ws_inv S" "ln_closed (ws_l S)"
  shows "ln_closed (ws_l S') \<and> ws_accepted S' = ws_accepted S \<and> set (ln_pending (ws_l S)) \<subseteq> set (ln_pending (ws_l S')) \<and>
    (\<forall>i. Passed i \<notin> set evs) \<and> (\<forall>i. Upgraded i \<in> set evs \<longrightarrow> i \<in> set (ws_upgrading S)) \<and>
    set (ws_upgrading S') \<subseteq> set (ws_upgrading S)"
  using assms
proof (induction rule: ws_run.induct)
  case (snoc S evs S' ev S'')
  then show ?case
    using ws_step_closed [OF snoc.hyps(2) ws_inv_run [OF snoc.hyps(1) snoc.prems(1)]] by auto
qed simp

lemma ws_run_pipe_closed:
  assumes "ws_run S evs S'" "ws_inv S" "map_of (ws_pipes S) i = Some p" "\<not> wp_open p"
  shows "\<exists>p'. map_of (ws_pipes S') i = Some p' \<and> \<not> wp_open p'"
  using assms
proof (induction rule: ws_run.induct)
  case (snoc S evs S' ev S'')
  then show ?case
    using ws_step_pipe_closed [OF snoc.hyps(2) ws_inv_run [OF snoc.hyps(1) snoc.prems(1)]] by blast
qed simp

text \<open>
  A connection that passed the check before the listener was closed and is upgraded afterwards
  is queued on a listener nobody accepts from and that is never closed again: its pipe stays open
  and its handler never returns.
\<close>

lemma late_upgrade_stranded:
  assumes "ws_inv S" "ln_closed (ws_l S)" "ws_step S (Upgraded i) S'" "ws_run S' evs S''"
  shows "\<exists>p. map_of (ws_pipes S'') i = Some p \<and> wp_open p \<and> wp_wg p = 1 \<and> i \<notin> set (ws_accepted S'')"
proof -
  have up: "i \<in> set (ln_pending (ws_l S'))"
    using assms(3) by cases (auto simp: listener_handler_def)
  have inv: "ws_inv S'" "ws_inv S''"
    using ws_inv_step [OF assms(3,1)] ws_inv_run [OF assms(4)] by blast+
  have "ln_closed (ws_l S')"
    using ws_step_closed [OF assms(3,1,2)] by blast
  then have "i \<in> set (ln_pending (ws_l S''))"
    using ws_run_closed [OF assms(4) inv(1)] up by blast
  then show ?thesis
    using ws_inv_pending [OF inv(2)] ws_inv_pipe [OF inv(2)] by (metis pipe_ok_def)
qed

section \<open>A dialer and a listener\<close>

text \<open>A message arrives as one body, header first: the mangos protocol layer takes it apart again.\<close>

lemma pipe_carries_message:
  "wsPipe_Send None m = Inr buf \<Longrightarrow> wsPipe_Recv (Inr buf) = Inr \<lparr>msg_Header = [], msg_Body = msg_Header m @ msg_Body m\<rparr>"
  by (auto simp: wsPipe_Send_def wsPipe_Recv_def Let_def split: if_splits)

lemma handshake_matches_iff:
  assumes "dial_request_of d = Inr req"
  shows "ServeHTTP_check (dr_subprotocols req) l = GoAhead \<longleftrightarrow> di_peerName d = ln_selfName l \<and> ln_running l"
proof -
  have "dr_subprotocols req = [di_peerName d @ ''.sp.nanomsg.org'']"
    using assms by (auto simp: dial_request_of_def Let_def split: option.splits opt_value.splits)
  then show ?thesis
    by (simp add: ServeHTTP_check_def)
qed

section \<open>Typed options\<close>

text \<open>The dynamic type every stored option has; the code asserts it without checking.\<close>

fun typed_as :: "opt_name \<Rightarrow> opt_value \<Rightarrow> bool" where
  "typed_as NoDelay (BoolV _) = True"
| "typed_as WebSocketCheckOrigin (BoolV _) = True"
| "typed_as TLSConfig (TLSV _) = True"
| "typed_as WebSocketProxyURL (URLV _) = True"
| "typed_as MaxRecvSize (IntV _) = True"
| "typed_as _ _ = False"

definition opts_typed :: "options_map \<Rightarrow> bool" where
  "opts_typed opts \<longleftrightarrow> (\<forall>n v. map_of opts n = Some v \<longrightarrow> typed_as n v)"

lemma options_set_cases:
  "options_set n v opts =
    (if typed_as n v then (None, if n = NoDelay then opts else AList.update n v opts)
     else (Some (if n \<in> {NoDelay, WebSocketCheckOrigin, TLSConfig, WebSocketProxyURL, MaxRecvSize} then ErrBadValue else ErrBadOption), opts))"
  by (cases n; cases v) (simp_all add: options_set_def)

lemma opts_typed_set: "opts_typed opts \<Longrightarrow> opts_typed (snd (options_set n v opts))"
  by (auto simp: opts_typed_def options_set_cases)

lemma typed_as_TLS: "typed_as TLSConfig v \<Longrightarrow> \<exists>c. v = TLSV c"
  by (cases v) simp_all

definition set_all :: "(opt_name \<times> opt_value) list \<Rightarrow> dialer \<Rightarrow> dialer" where
  "set_all calls d = fold (\<lambda>(n, v) d. snd (dialer_SetOption n v d)) calls d"

lemma dialer_SetOption_opts:
  "dialer_SetOption n v d = (fst (options_set n v (di_opts d)), d\<lparr>di_opts := snd (options_set n v (di_opts d))\<rparr>)"
  by (simp add: dialer_SetOption_def split: prod.split)

lemma set_all_typed:
  "opts_typed (di_opts d) \<Longrightarrow> opts_typed (di_opts (set_all calls d)) \<and> di_addr (set_all calls d) = di_addr d \<and>
   di_peerName (set_all calls d) = di_peerName d"
  unfolding set_all_def
  by (induction calls arbitrary: d) (auto simp: dialer_SetOption_opts opts_typed_set)

text \<open>
  The option calls of \<open>Worker.Dial\<close> (\<open>socket.go\<close>) on its dialer, or the error of parsing the proxy's
  address, with which it gives up.
\<close>

definition dial_calls :: "tls_config option \<Rightarrow> string \<Rightarrow> url_err + (opt_name \<times> opt_value) list" where
  "dial_calls cfg proxyURL =
     (let tls = (case cfg of None \<Rightarrow> [] | Some c \<Rightarrow> [(TLSConfig, TLSV (Some c))])
      in if proxyURL = [] then Inr tls
         else case url_Parse proxyURL of
                Inl e \<Rightarrow> Inl e
              | Inr u \<Rightarrow> Inr (tls @ [(WebSocketProxyURL, URLV (Some u))]))"

lemma NewDialer_typed: "NewDialer addr peer = Inr d \<Longrightarrow> opts_typed (di_opts d)"
  by (auto simp: NewDialer_def opts_typed_def split: if_splits)

text \<open>
  An address the system chose a port for loses the brackets of an IPv6 host: what the listener
  then reports is not an address a dialer can use.
\<close>

lemma anonymous_ipv6_unbracketed:
  "ln_anon l \<Longrightarrow> ln_bound l = Some port \<Longrightarrow> url_Host (ln_url l) = ''[::1]:0'' \<Longrightarrow>
   map_sum id (url_Host \<circ> fst) (Address l) = Inr (''::1:'' @ FormatInt (int port))"
  by (simp add: Address_def Hostname_def split_last_def validOptionalPort_def char_digit_def prefix_def suffix_def Let_def)

text \<open>
  The transport the registry has for the scheme of an address accepts it, and uses TLS exactly for
  the secure scheme.
\<close>

lemma transport_of_scheme:
  assumes "map_of init_transports s = Some t" "prefix (s @ ''://'') addr"
  shows "\<exists>d. tran_NewDialer t addr peer = Inr d \<and> (di_iswss d \<longleftrightarrow> t = WSS)"
    and "ParseRequestURI addr = Inr u \<Longrightarrow> \<exists>l. tran_NewListener t addr self = Inr l \<and> (ln_iswss l \<longleftrightarrow> t = WSS)"
  using assms by (auto simp: init_transports_def RegisterTransport_def NewDialer_def NewListener_def Let_def prefix_def split: if_splits)

section \<open>Properties\<close>

text \<open>
  C34: the listener neither loses nor doubles connections. In every interleaving of HTTP handlers,
  accepts, closes and the start: no connection is handed out twice; every open pipe is waiting in
  the queue or was handed out; what is handed out next is open and was not handed out before; and
  a handler returns, which closes its connection, only after its pipe was closed.
\<close>
theorem ws_listener_sound:
  assumes "NewListener addr self = Inr l" "ws_run (ws_init l) evs S"
  shows "distinct (ws_accepted S) \<and>
    (\<forall>i p. map_of (ws_pipes S) i = Some p \<longrightarrow> wp_open p \<longrightarrow> i \<in> set (ln_pending (ws_l S)) \<union> set (ws_accepted S)) \<and>
    (\<forall>i S'. ws_step S (AcceptedConn i) S' \<longrightarrow>
       i \<notin> set (ws_accepted S) \<and> (\<exists>p. map_of (ws_pipes S) i = Some p \<and> wp_open p) \<and> ln_pending (ws_l S) = ln_pending (ws_l S') @ [i]) \<and>
    (\<forall>i S'. ws_step S (HandlerDone i) S' \<longrightarrow> (\<exists>p. map_of (ws_pipes S) i = Some p \<and> \<not> wp_open p))"
proof -
  have inv: "ws_inv S"
    using ws_inv_run [OF assms(2) ws_inv_init [OF assms(1)]] .
  have "i \<notin> set (ws_accepted S) \<and> (\<exists>p. map_of (ws_pipes S) i = Some p \<and> wp_open p) \<and> ln_pending (ws_l S) = ln_pending (ws_l S') @ [i]"
    if "ws_step S (AcceptedConn i) S'" for i S'
    using that
  proof (rule ws_step_AcceptedE)
    fix l' assume "S' = S\<lparr>ws_l := l', ws_accepted := ws_accepted S @ [i]\<rparr>" "Accept (ws_l S) = (Accepts i, l')"
    then show ?thesis
      using ws_inv_pending [OF inv, of i] AcceptD [of "ws_l S" i l'] by simp
  qed
  moreover have "\<exists>p. map_of (ws_pipes S) i = Some p \<and> \<not> wp_open p" if "ws_step S (HandlerDone i) S'" for i S'
    using that by (rule ws_step_DoneE) (metis inv ws_inv_pipe pipe_ok_def zero_neq_one)
  moreover have "distinct (ws_accepted S)"
    using inv by (simp add: ws_inv_def)
  ultimately show ?thesis
    using ws_inv_pipe [OF inv] by blast
qed

definition sample_listener :: listener where
  "sample_listener =
     \<lparr>ln_addr = ''ws://h:80/mesh'', ln_selfName = ''rep'',
      ln_url = emptyURL\<lparr>url_Scheme := ''ws'', url_Host := ''h:80'', url_Path := ''/mesh''\<rparr>, ln_mux = ''/mesh'',
      ln_opts = [(MaxRecvSize, IntV 0)], ln_iswss = False, ln_anyOrigin = False, ln_running = False, ln_noserve = False,
      ln_closed = False, ln_anon = False, ln_bound = None, ln_listener = None, ln_pending = []\<rparr>"

lemma sample_new_listener:
  "NewListener ''ws://h:80/mesh'' ''rep'' = Inr sample_listener"
proof -
  have "hostname_ok ''h''" "port_ok ''80''" "path_ok ''/mesh''" "''ws'' \<in> set web_schemes"
    by (simp_all add: hostname_ok_def port_ok_def path_ok_def web_schemes_def is_alnum_def is_letter_def ascii_val_def char_digit_def)
  from parse_url_plain [OF this(4,1-3), of True] show ?thesis
    by (simp add: NewListener_def ParseRequestURI_def sample_listener_def)
qed

definition sample_serving :: listener where
  "sample_serving = sample_listener\<lparr>ln_listener := Some None, ln_running := True, ln_bound := Some 80\<rparr>"

lemma sample_upgrading_run:
  "ws_run (ws_init sample_listener) [Started None, Passed 7] ((ws_init sample_serving)\<lparr>ws_upgrading := [7]\<rparr>)"
proof -
  have "ws_step (ws_init sample_listener) (Started None) (ws_init sample_serving)"
    using ws_step.start [of "ws_init sample_listener" "\<lparr>lw_resolve = Inr 80, lw_tcp = None, lw_port = 80\<rparr>" None sample_serving]
    by (simp add: ws_init_def sample_listener_def sample_serving_def listener_Listen_def listen_tls_def)
  moreover have "ws_step (ws_init sample_serving) (Passed 7) ((ws_init sample_serving)\<lparr>ws_upgrading := [7]\<rparr>)"
    using ws_step.passed [of "[''rep.sp.nanomsg.org'']" "ws_init sample_serving" 7]
    by (simp add: ws_init_def sample_listener_def sample_serving_def ServeHTTP_check_def)
  ultimately show ?thesis
    using ws_run.snoc [OF ws_run.snoc [OF ws_run.nil]] by fastforce
qed

theorem ws_listener_sound_witness:
  "\<exists>S. ws_run (ws_init sample_listener) [Started None, Passed 7] S \<and> distinct (ws_accepted S) \<and> ws_upgrading S = [7]"
  using ws_listener_sound [OF sample_new_listener sample_upgrading_run] sample_upgrading_run by fastforce

text \<open>
  C35: what closing ends. Once \<open>Close\<close> has succeeded, in every continuation: accepting reports that
  the listener is closed and nothing more is handed out; every pipe that was waiting in the queue
  is closed, so that its handler can return; and no further request passes the check, so that the
  only connections that can still be upgraded are those of requests that had passed it before.
  (One that is upgraded so late is not accepted and stays open, see \<open>late_upgrade_stranded\<close>.)
\<close>
theorem listener_close_final:
  assumes "NewListener addr self = Inr l" "ws_run (ws_init l) evs S"
    and "ws_step S (CloseCalled None) S1" "ws_run S1 evs' S2"
  shows "fst (Accept (ws_l S2)) = AcceptClosed \<and> ws_accepted S2 = ws_accepted S \<and>
    (\<forall>i \<in> set (ln_pending (ws_l S)). \<exists>p. map_of (ws_pipes S2) i = Some p \<and> \<not> wp_open p \<and> wp_wg p = 0) \<and>
    (\<forall>offered. ServeHTTP_check offered (ws_l S2) \<noteq> GoAhead) \<and>
    (\<forall>i. Passed i \<notin> set evs' \<and> (Upgraded i \<in> set evs' \<longrightarrow> i \<in> set (ws_upgrading S)))"
proof -
  have inv: "ws_inv S"
    using ws_inv_run [OF assms(2) ws_inv_init [OF assms(1)]] .
  have inv1: "ws_inv S1" and inv2: "ws_inv S2"
    using ws_inv_step [OF assms(3) inv] ws_inv_run [OF assms(4)] by blast+
  obtain l' ps' where S1: "S1 = S\<lparr>ws_l := l', ws_pipes := ps'\<rparr>" and
    c: "listener_Close (ws_l S) (ws_pipes S) = (None, l', ps')"
    using assms(3) by cases
  have closed: "ln_closed (ws_l S1)" "ws_accepted S1 = ws_accepted S" "ws_upgrading S1 = ws_upgrading S"
    using c by (auto simp: S1 listener_Close_def split: if_splits)
  note run = ws_run_closed [OF assms(4) inv1 closed(1)]
  have stopped: "\<not> ln_running (ws_l S2)"
    using run inv2 by (simp add: ws_inv_def)
  have "\<exists>p. map_of (ws_pipes S2) i = Some p \<and> \<not> wp_open p \<and> wp_wg p = 0" if i: "i \<in> set (ln_pending (ws_l S))" for i
  proof -
    obtain p where "map_of (ws_pipes S) i = Some p"
      using ws_inv_pending [OF inv i] by blast
    then have "map_of (ws_pipes S1) i = Some (wsPipe_Close p)"
      using c i by (auto simp: S1 listener_Close_def map_of_fold_close split: if_splits)
    from ws_run_pipe_closed [OF assms(4) inv1 this] obtain p2 where "map_of (ws_pipes S2) i = Some p2" "\<not> wp_open p2"
      by auto
    then show ?thesis
      using ws_inv_pipe [OF inv2] by (auto simp: pipe_ok_def)
  qed
  then show ?thesis
    using run closed stopped by (simp add: Accept_def ServeHTTP_check_def)
qed

theorem listener_close_final_witness:
  "\<exists>S1. ws_step ((ws_init sample_serving)\<lparr>ws_upgrading := [7]\<rparr>) (CloseCalled None) S1 \<and> fst (Accept (ws_l S1)) = AcceptClosed \<and>
     ServeHTTP_check [''rep.sp.nanomsg.org''] (ws_l S1) \<noteq> GoAhead"
proof -
  obtain S1 where c: "ws_step ((ws_init sample_serving)\<lparr>ws_upgrading := [7]\<rparr>) (CloseCalled None) S1"
    using ws_step.close [of "(ws_init sample_serving)\<lparr>ws_upgrading := [7]\<rparr>" None]
    by (auto simp: listener_Close_def ws_init_def sample_serving_def sample_listener_def)
  show ?thesis
    using c listener_close_final [OF sample_new_listener sample_upgrading_run c ws_run.nil] by blast
qed

text \<open>The stranded connection of \<open>late_upgrade_stranded\<close> is reachable.\<close>

lemma late_upgrade_reachable:
  "\<exists>evs S S'. ws_run (ws_init sample_listener) evs S \<and> ln_closed (ws_l S) \<and> ws_step S (Upgraded 7) S'"
proof -
  let ?S = "(ws_init sample_serving)\<lparr>ws_upgrading := [7]\<rparr>"
  let ?l = "sample_serving\<lparr>ln_listener := None, ln_closed := True, ln_running := False, ln_pending := []\<rparr>"
  let ?S1 = "?S\<lparr>ws_l := ?l, ws_pipes := []\<rparr>"
  have "ws_step ?S (CloseCalled None) ?S1"
    by (rule ws_step.close) (simp add: listener_Close_def ws_init_def sample_serving_def sample_listener_def)
  from ws_run.snoc [OF sample_upgrading_run this] have "ws_run (ws_init sample_listener) [Started None, Passed 7, CloseCalled None] ?S1"
    by simp
  moreover obtain l' ps' where "listener_handler 7 \<lparr>wc_local = ''l'', wc_remote = ''r'', wc_tls = None\<rparr> (ws_l ?S1) (ws_pipes ?S1) = (l', ps')"
    by fastforce
  then have "\<exists>S'. ws_step ?S1 (Upgraded 7) S'"
    using ws_step.upgraded [of 7 ?S1] by fastforce
  moreover have "ln_closed (ws_l ?S1)"
    by simp
  ultimately show ?thesis by blast
qed

text \<open>
  C36: options keep their types, and a worker dials with what it was configured with. Whatever
  options are set on a dialer, with values of any type, the unchecked type assertions of \<open>Dial\<close>
  succeed. \<open>Worker.Dial\<close> gives up before dialling exactly when the proxy's address does not parse;
  otherwise the option calls it makes are all accepted, and the connection is then attempted
  with exactly the given TLS configuration and through the given proxy, or through the
  environment's when none was given.
\<close>
theorem dialer_options_typed:
  assumes "NewDialer addr peer = Inr d"
  shows "(\<exists>req. dial_request_of (set_all calls d) = Inr req \<and> dr_url req = addr) \<and>
    (case dial_calls cfg proxyURL of
       Inl e \<Rightarrow> proxyURL \<noteq> [] \<and> url_Parse proxyURL = Inl e
     | Inr dc \<Rightarrow>
         (\<forall>k < length dc. fst (case dc ! k of (n, v) \<Rightarrow> dialer_SetOption n v (set_all (take k dc) d)) = None) \<and>
         (\<exists>proxy. dial_request_of (set_all dc d) =
            Inr \<lparr>dr_url = addr, dr_subprotocols = [peer @ ''.sp.nanomsg.org''], dr_tls = cfg, dr_proxy = proxy\<rparr> \<and>
            (if proxyURL = [] then proxy = ProxyFromEnvironment
             else \<exists>u. url_Parse proxyURL = Inr u \<and> proxy = ProxyURL u)))"
proof -
  have d: "di_addr d = addr" "di_peerName d = peer" "map_of (di_opts d) TLSConfig = None" "map_of (di_opts d) WebSocketProxyURL = None"
    using assms by (auto simp: NewDialer_def split: if_splits)
  note typed = set_all_typed [OF NewDialer_typed [OF assms], of calls]
  have "\<exists>req. dial_request_of (set_all calls d) = Inr req \<and> dr_url req = addr"
  proof (cases "map_of (di_opts (set_all calls d)) TLSConfig")
    case (Some v)
    then obtain c where "v = TLSV c"
      using typed typed_as_TLS by (auto simp: opts_typed_def)
    with Some show ?thesis
      using typed d by (simp add: dial_request_of_def Let_def)
  qed (use typed d in \<open>simp add: dial_request_of_def Let_def\<close>)
  moreover have "fst (dialer_SetOption n v e) = None" if "dial_calls cfg proxyURL = Inr dc" "(n, v) \<in> set dc" for dc n v e
    using that
    by (auto simp: dial_calls_def dialer_SetOption_opts options_set_cases Let_def split: option.splits if_splits sum.splits)
  then have "\<forall>k < length dc. fst (case dc ! k of (n, v) \<Rightarrow> dialer_SetOption n v (set_all (take k dc) d)) = None"
    if "dial_calls cfg proxyURL = Inr dc" for dc
    using that by (metis (no_types, lifting) case_prod_conv nth_mem prod.exhaust)
  moreover have "dial_request_of (set_all dc d) =
      Inr \<lparr>dr_url = addr, dr_subprotocols = [peer @ ''.sp.nanomsg.org''], dr_tls = cfg,
           dr_proxy = (if proxyURL = [] then ProxyFromEnvironment else ProxyURL (projr (url_Parse proxyURL)))\<rparr> \<and>
      (proxyURL = [] \<or> (\<exists>u. url_Parse proxyURL = Inr u))"
    if "dial_calls cfg proxyURL = Inr dc" for dc
    using d that
    by (cases cfg)
      (auto simp: dial_calls_def set_all_def dialer_SetOption_opts options_set_cases dial_request_of_def Let_def split: if_splits sum.splits)
  then have "\<exists>proxy. dial_request_of (set_all dc d) =
      Inr \<lparr>dr_url = addr, dr_subprotocols = [peer @ ''.sp.nanomsg.org''], dr_tls = cfg, dr_proxy = proxy\<rparr> \<and>
      (if proxyURL = [] then proxy = ProxyFromEnvironment else \<exists>u. url_Parse proxyURL = Inr u \<and> proxy = ProxyURL u)"
    if "dial_calls cfg proxyURL = Inr dc" for dc
    using that by (cases "proxyURL = []") auto
  moreover have "proxyURL \<noteq> [] \<and> url_Parse proxyURL = Inl e" if "dial_calls cfg proxyURL = Inl e" for e
    using that by (auto simp: dial_calls_def Let_def split: if_splits sum.splits)
  ultimately show ?thesis
    by (cases "dial_calls cfg proxyURL"; simp only: sum.case) blast+
qed

theorem dialer_options_typed_witness:
  "\<exists>d dc. NewDialer ''wss://r/mesh'' ''rep'' = Inr d \<and> dial_calls None ''http://proxy:3128'' = Inr dc \<and>
     dial_request_of (set_all dc d) =
       Inr \<lparr>dr_url = ''wss://r/mesh'', dr_subprotocols = [''rep.sp.nanomsg.org''], dr_tls = None,
         dr_proxy = ProxyURL (emptyURL\<lparr>url_Scheme := ''http'', url_Host := ''proxy:3128''\<rparr>)\<rparr>"
proof -
  obtain d where d: "NewDialer ''wss://r/mesh'' ''rep'' = Inr d"
    by (simp add: NewDialer_def)
  have "hostname_ok ''proxy''" "port_ok ''3128''" "path_ok ''''" "''http'' \<in> set web_schemes"
    by (simp_all add: hostname_ok_def port_ok_def path_ok_def web_schemes_def is_alnum_def is_letter_def ascii_val_def char_digit_def no_ctl_def)
  from url_Parse_plain [OF this(4,1-3)]
  have u: "url_Parse ''http://proxy:3128'' = Inr (emptyURL\<lparr>url_Scheme := ''http'', url_Host := ''proxy:3128''\<rparr>)"
    by (simp add: emptyURL_def)
  then obtain dc where "dial_calls None ''http://proxy:3128'' = Inr dc"
    by (simp add: dial_calls_def)
  then show ?thesis
    using d dialer_options_typed [OF d, where calls = "[]" and cfg = None and proxyURL = "''http://proxy:3128''"] u by simp
qed

end
