(* ===== verification/Store.thy ===== *)
theory Store
  imports Prelude
begin

text \<open>
  The migration runner of package \<open>store\<close> (\<open>src/internal/store/store.go\<close>): the script
  splitter \<open>statements\<close>, \<open>applyMigration\<close>, \<open>migrate\<close> and \<open>Open\<close>. SQLite is
  not part of the repository: what one statement does to the data is the parameter
  \<open>exec\<close>, and whether a transaction can be begun and committed is the parameter
  \<open>tx\<close>.
\<close>

section \<open>Splitting a script into statements\<close>

abbreviation quote :: char where "quote \<equiv> CHR 0x27"
abbreviation newline :: char where "newline \<equiv> CHR 0x0A"
abbreviation dash :: char where "dash \<equiv> CHR 0x2D"
abbreviation semicolon :: char where "semicolon \<equiv> CHR 0x3B"

definition flush_stmt :: "string \<Rightarrow> string list" where
  "flush_stmt buf = (let stmt = strings_TrimSpace buf in if stmt \<noteq> [] then [stmt] else [])"

text \<open>
  The loop of \<open>statements\<close> over the rest of the script: \<open>inString\<close> and the buffer
  are its variables. A doubled quote inside a literal is copied and skipped; a line comment is
  skipped up to and including its newline, because the loop's increment steps over it.
\<close>

function scan_stmts :: "bool \<Rightarrow> string \<Rightarrow> string \<Rightarrow> string list" where
  "scan_stmts inString buf raw =
     (case raw of
        [] \<Rightarrow> flush_stmt buf
      | c # s \<Rightarrow>
          if inString then
            (if c = quote then
               (if s \<noteq> [] \<and> hd s = quote then scan_stmts True (buf @ [c, hd s]) (tl s)
                else scan_stmts False (buf @ [c]) s)
             else scan_stmts True (buf @ [c]) s)
          else if c = quote then scan_stmts True (buf @ [c]) s
          else if c = dash \<and> s \<noteq> [] \<and> hd s = dash then
            scan_stmts False buf (tl (dropWhile (\<lambda>x. x \<noteq> newline) raw))
          else if c = semicolon then flush_stmt buf @ scan_stmts False [] s
          else scan_stmts False (buf @ [c]) s)"
  by pat_completeness auto
termination
  by (relation "measure (\<lambda>(i, b, r). length r)")
    (auto simp: less_Suc_eq_le le_diff_conv intro: le_SucI length_dropWhile_le)

declare scan_stmts.simps [simp del]

definition statements :: "string \<Rightarrow> string list" where
  "statements raw = scan_stmts False [] raw"

lemma scan_Nil [simp]: "scan_stmts i buf [] = flush_stmt buf"
  by (simp add: scan_stmts.simps)

lemma scan_in_string [simp]:
  "c \<noteq> quote \<Longrightarrow> scan_stmts True buf (c # s) = scan_stmts True (buf @ [c]) s"
  "scan_stmts True buf (quote # quote # s) = scan_stmts True (buf @ [quote, quote]) s"
  "scan_stmts True buf [quote] = scan_stmts False (buf @ [quote]) []"
  "c \<noteq> quote \<Longrightarrow> scan_stmts True buf (quote # c # s) = scan_stmts False (buf @ [quote]) (c # s)"
  by (simp_all add: scan_stmts.simps [of True])

lemma scan_outside [simp]:
  "scan_stmts False buf (quote # s) = scan_stmts True (buf @ [quote]) s"
  "scan_stmts False buf (semicolon # s) = flush_stmt buf @ scan_stmts False [] s"
  "scan_stmts False buf (dash # dash # s) =
     scan_stmts False buf (tl (dropWhile (\<lambda>x. x \<noteq> newline) s))"
  "c \<noteq> quote \<Longrightarrow> c \<noteq> semicolon \<Longrightarrow> c \<noteq> dash \<Longrightarrow>
     scan_stmts False buf (c # s) = scan_stmts False (buf @ [c]) s"
  by (simp_all add: scan_stmts.simps [of False])

text \<open>
  The grammar the splitter is written for: plain text, quoted literals with doubled quotes,
  line comments and semicolons. \<open>render\<close> writes a script, \<open>group_pieces\<close> is the reading
  the documentation of \<open>statements\<close> gives it.
\<close>

datatype piece = Plain string | is_Quoted: Quoted string | Comment string | Semi

definition quote_lit :: "string \<Rightarrow> string" where
  "quote_lit q = quote # concat (map (\<lambda>c. if c = quote then [quote, quote] else [c]) q) @ [quote]"

fun render_piece :: "piece \<Rightarrow> string" where
  "render_piece (Plain s) = s"
| "render_piece (Quoted q) = quote_lit q"
| "render_piece (Comment s) = [dash, dash] @ s @ [newline]"
| "render_piece Semi = [semicolon]"

definition render :: "piece list \<Rightarrow> string" where
  "render ps = concat (map render_piece ps)"

fun piece_ok :: "piece \<Rightarrow> bool" where
  "piece_ok (Plain s) = (s \<noteq> [] \<and> quote \<notin> set s \<and> semicolon \<notin> set s \<and> dash \<notin> set s)"
| "piece_ok (Quoted q) = True"
| "piece_ok (Comment s) = (newline \<notin> set s)"
| "piece_ok Semi = True"

fun pieces_ok :: "piece list \<Rightarrow> bool" where
  "pieces_ok [] = True"
| "pieces_ok [p] = piece_ok p"
| "pieces_ok (p # q # ps) =
     (piece_ok p \<and> \<not> (is_Quoted p \<and> is_Quoted q) \<and> pieces_ok (q # ps))"

fun group_pieces :: "string \<Rightarrow> piece list \<Rightarrow> string list" where
  "group_pieces buf [] = flush_stmt buf"
| "group_pieces buf (Semi # ps) = flush_stmt buf @ group_pieces [] ps"
| "group_pieces buf (Comment s # ps) = group_pieces buf ps"
| "group_pieces buf (p # ps) = group_pieces (buf @ render_piece p) ps"

lemma scan_plain:
  "quote \<notin> set s \<Longrightarrow> semicolon \<notin> set s \<Longrightarrow> dash \<notin> set s \<Longrightarrow>
   scan_stmts False buf (s @ r) = scan_stmts False (buf @ s) r"
  by (induction s arbitrary: buf) auto

lemma scan_literal_body:
  "r = [] \<or> hd r \<noteq> quote \<Longrightarrow>
   scan_stmts True buf (concat (map (\<lambda>c. if c = quote then [quote, quote] else [c]) q) @ quote # r) =
   scan_stmts False (buf @ concat (map (\<lambda>c. if c = quote then [quote, quote] else [c]) q) @ [quote]) r"
proof (induction q arbitrary: buf)
  case Nil
  then show ?case by (cases r) auto
qed auto

lemma scan_literal:
  "r = [] \<or> hd r \<noteq> quote \<Longrightarrow>
   scan_stmts False buf (quote_lit q @ r) = scan_stmts False (buf @ quote_lit q) r"
  by (simp add: quote_lit_def scan_literal_body)

lemma scan_comment:
  "newline \<notin> set s \<Longrightarrow>
   scan_stmts False buf (dash # dash # s @ newline # r) = scan_stmts False buf r"
  by simp

lemma render_hd: "pieces_ok (p # ps) \<Longrightarrow> \<not> is_Quoted p \<Longrightarrow> hd (render (p # ps)) \<noteq> quote"
  by (cases p; cases ps) (auto simp: render_def hd_append dest: hd_in_set)

lemma pieces_okD: "pieces_ok (p # ps) \<Longrightarrow> piece_ok p \<and> pieces_ok ps"
  by (cases ps) auto

lemma scan_render: "pieces_ok ps \<Longrightarrow> scan_stmts False buf (render ps) = group_pieces buf ps"
proof (induction ps arbitrary: buf)
  case (Cons p ps)
  have p: "piece_ok p" and IH: "\<And>buf. scan_stmts False buf (render ps) = group_pieces buf ps"
    using Cons pieces_okD by blast+
  have sep: "render ps = [] \<or> hd (render ps) \<noteq> quote" if "is_Quoted p"
    using Cons.prems that by (cases ps) (auto simp: render_def [of "[]"] dest: render_hd)
  have "render (p # ps) = render_piece p @ render ps"
    by (simp add: render_def)
  with p sep IH show ?case
    by (cases p) (auto simp: scan_plain scan_literal)
qed (simp add: render_def)

definition stmt_ok :: "string \<Rightarrow> bool" where
  "stmt_ok t \<longleftrightarrow> t \<noteq> [] \<and> strings_TrimSpace t = t"

lemma flush_stmt_ok: "list_all stmt_ok (flush_stmt buf)"
  by (simp add: flush_stmt_def Let_def stmt_ok_def)

lemma scan_stmts_ok: "list_all stmt_ok (scan_stmts i buf raw)"
proof (induction raw arbitrary: i buf rule: length_induct)
  case (1 raw)
  then have IH: "list_all stmt_ok (scan_stmts i buf s)" if "length s < length raw" for i buf s
    using that by blast
  show ?case
  proof (cases raw)
    case (Cons c s)
    have skip: "length (dropWhile P l) - Suc 0 < Suc (Suc (length l))" for P and l :: string
      using length_dropWhile_le [of P l] by linarith
    show ?thesis
      using Cons
      by (cases i; cases s) (auto simp: scan_stmts.simps [of _ _ "c # _"] flush_stmt_ok IH skip)
  qed (simp add: flush_stmt_ok)
qed

section \<open>Migrations\<close>

text \<open>
  The database as the runner sees it: its data and the names recorded in
  \<open>schema_migrations\<close>. A transaction that is not committed leaves the database as it was.
\<close>

record 'd store =
  st_data :: 'd
  st_applied :: "string list"

text \<open>
  What a migration's transaction meets from the driver: it cannot begin, the insert of its record
  fails, it cannot be committed, or none of these.
\<close>

datatype tx_outcome = BeginFails | RecordFails | CommitFails | TxOk

datatype store_err =
    ErrOpen
  | ErrPragma string
  | ErrCreateTable
  | ErrQueryNames
  | ErrScanName
  | ErrIterateNames
  | ErrReadDir
  | ErrRead string
  | ErrBegin string
  | ErrApply string
  | ErrRecord string
  | ErrCommit string

fun exec_all :: "(string \<Rightarrow> 'd \<Rightarrow> 'd option) \<Rightarrow> string list \<Rightarrow> 'd \<Rightarrow> 'd option" where
  "exec_all exec [] d = Some d"
| "exec_all exec (stmt # stmts) d =
     (case exec stmt d of None \<Rightarrow> None | Some d' \<Rightarrow> exec_all exec stmts d')"

definition applyMigration ::
  "(string \<Rightarrow> 'd \<Rightarrow> 'd option) \<Rightarrow> (string \<Rightarrow> tx_outcome) \<Rightarrow> string \<Rightarrow> string \<Rightarrow> 'd store \<Rightarrow>
   store_err + 'd store" where
  "applyMigration exec tx name raw st =
     (if tx name = BeginFails then Inl (ErrBegin name)
      else case exec_all exec (statements raw) (st_data st) of
             None \<Rightarrow> Inl (ErrApply name)
           | Some d \<Rightarrow>
               if tx name = RecordFails \<or> name \<in> set (st_applied st) then Inl (ErrRecord name)
               else if tx name = CommitFails then Inl (ErrCommit name)
               else Inr (st\<lparr>st_data := d, st_applied := st_applied st @ [name]\<rparr>))"

text \<open>An embedded file: its name, whether it is a directory, and what reading it gives.\<close>

record file_entry =
  fe_name :: string
  fe_isdir :: bool
  fe_content :: "string option"

text \<open>
  What the query for the recorded names meets: it fails, the row with some index cannot be scanned,
  the iteration ends with an error, or it runs through.
\<close>

datatype rows_outcome = QueryFails | ScanFails nat | IterFails | RowsOk

fun scan_names :: "rows_outcome \<Rightarrow> nat \<Rightarrow> string list \<Rightarrow> (string, bool) gomap \<Rightarrow> store_err + (string, bool) gomap" where
  "scan_names rows i [] applied = (if rows = IterFails then Inl ErrIterateNames else Inr applied)"
| "scan_names rows i (name # names) applied =
     (if rows = ScanFails i then Inl ErrScanName
      else scan_names rows (Suc i) names (AList.update name True applied))"

definition appliedMigrations :: "rows_outcome \<Rightarrow> 'd store \<Rightarrow> store_err + (string, bool) gomap" where
  "appliedMigrations rows st =
     (if rows = QueryFails then Inl ErrQueryNames else scan_names rows 0 (st_applied st) [])"

fun migrate_loop ::
  "(string \<Rightarrow> 'd \<Rightarrow> 'd option) \<Rightarrow> (string \<Rightarrow> tx_outcome) \<Rightarrow> (string, bool) gomap \<Rightarrow> file_entry list \<Rightarrow> 'd store \<Rightarrow>
   store_err option \<times> 'd store" where
  "migrate_loop exec tx applied [] st = (None, st)"
| "migrate_loop exec tx applied (e # es) st =
     (if fe_isdir e then migrate_loop exec tx applied es st
      else if map_of applied (fe_name e) = Some True then migrate_loop exec tx applied es st
      else case fe_content e of
             None \<Rightarrow> (Some (ErrRead (fe_name e)), st)
           | Some raw \<Rightarrow>
               (case applyMigration exec tx (fe_name e) raw st of
                  Inl err \<Rightarrow> (Some err, st)
                | Inr st' \<Rightarrow> migrate_loop exec tx applied es st'))"

text \<open>Whether the bookkeeping table can be created and the directory read, and how the query runs.\<close>

record mig_env =
  mg_create :: bool
  mg_rows :: rows_outcome
  mg_readdir :: bool

definition migrate ::
  "(string \<Rightarrow> 'd \<Rightarrow> 'd option) \<Rightarrow> (string \<Rightarrow> tx_outcome) \<Rightarrow> mig_env \<Rightarrow> file_entry list \<Rightarrow> 'd store \<Rightarrow>
   store_err option \<times> 'd store" where
  "migrate exec tx env entries st =
     (if \<not> mg_create env then (Some ErrCreateTable, st)
      else case appliedMigrations (mg_rows env) st of
             Inl err \<Rightarrow> (Some err, st)
           | Inr applied \<Rightarrow>
               if \<not> mg_readdir env then (Some ErrReadDir, st)
               else migrate_loop exec tx applied (sort_key fe_name entries) st)"

text \<open>The files that \<open>migrate\<close> still has to run, in the order it runs them.\<close>

definition pending :: "file_entry list \<Rightarrow> string list \<Rightarrow> file_entry list" where
  "pending entries applied =
     filter (\<lambda>e. \<not> fe_isdir e \<and> fe_name e \<notin> set applied) (sort_key fe_name entries)"

fun run_files :: "(string \<Rightarrow> 'd \<Rightarrow> 'd option) \<Rightarrow> file_entry list \<Rightarrow> 'd \<Rightarrow> 'd option" where
  "run_files exec [] d = Some d"
| "run_files exec (e # es) d =
     (case fe_content e of
        None \<Rightarrow> None
      | Some raw \<Rightarrow> (case exec_all exec (statements raw) d of
                        None \<Rightarrow> None | Some d' \<Rightarrow> run_files exec es d'))"

lemma applyMigration_InrD:
  "applyMigration exec tx name raw st = Inr st' \<Longrightarrow>
     exec_all exec (statements raw) (st_data st) = Some (st_data st') \<and>
     st_applied st' = st_applied st @ [name] \<and> name \<notin> set (st_applied st)"
  by (auto simp: applyMigration_def split: if_splits option.splits)

lemma scan_names_InrD:
  "scan_names rows i names applied = Inr m \<Longrightarrow> map_of m n = Some True \<longleftrightarrow> n \<in> set names \<or> map_of applied n = Some True"
  by (induction names arbitrary: i applied) (auto simp: update_conv' split: if_splits)

lemma appliedMigrations_InrD:
  "appliedMigrations rows st = Inr m \<Longrightarrow> map_of m n = Some True \<longleftrightarrow> n \<in> set (st_applied st)"
  using scan_names_InrD [of rows 0 "st_applied st" "[]"] by (auto simp: appliedMigrations_def split: if_splits)

lemma migrate_loop_result:
  assumes "migrate_loop exec tx m es st = (r, st')" and m: "\<And>n. map_of m n = Some True \<longleftrightarrow> n \<in> set applied"
  defines "todo \<equiv> filter (\<lambda>e. \<not> fe_isdir e \<and> fe_name e \<notin> set applied) es"
  shows "\<exists>ran rest. todo = ran @ rest \<and> run_files exec ran (st_data st) = Some (st_data st') \<and>
    st_applied st' = st_applied st @ map fe_name ran \<and> (r = None \<longleftrightarrow> rest = [])"
  using assms(1) unfolding todo_def
proof (induction es arbitrary: st)
  case (Cons e es)
  show ?case
  proof (cases "fe_isdir e \<or> fe_name e \<in> set applied")
    case True
    with Cons.prems have "migrate_loop exec tx m es st = (r, st')"
      by (simp add: m split: if_splits)
    from Cons.IH [OF this] True show ?thesis by auto
  next
    case False
    show ?thesis
    proof (cases "\<exists>raw st1. fe_content e = Some raw \<and> applyMigration exec tx (fe_name e) raw st = Inr st1")
      case True
      then obtain raw st1 where raw: "fe_content e = Some raw"
        and ap: "applyMigration exec tx (fe_name e) raw st = Inr st1" by blast
      with Cons.prems False have "migrate_loop exec tx m es st1 = (r, st')"
        by (simp add: m)
      from Cons.IH [OF this] obtain ran rest where
        IH: "filter (\<lambda>e. \<not> fe_isdir e \<and> fe_name e \<notin> set applied) es = ran @ rest"
        "run_files exec ran (st_data st1) = Some (st_data st')"
        "st_applied st' = st_applied st1 @ map fe_name ran" "r = None \<longleftrightarrow> rest = []"
        by blast
      with False raw applyMigration_InrD [OF ap] show ?thesis
        by (intro exI [of _ "e # ran"] exI [of _ rest]) simp
    next
      case fails: False
      with Cons.prems False have "st' = st" "r \<noteq> None"
        by (auto simp: m split: option.splits sum.splits)
      with False show ?thesis
        by (intro exI [of _ "[]"] exI [of _ "e # filter (\<lambda>e. \<not> fe_isdir e \<and> fe_name e \<notin> set applied) es"])
          simp
    qed
  qed
qed simp

text \<open>What can go wrong before the first file is looked at.\<close>

definition mig_starts :: "mig_env \<Rightarrow> 'd store \<Rightarrow> bool" where
  "mig_starts env st \<longleftrightarrow> mg_create env \<and> \<not> isl (appliedMigrations (mg_rows env) st) \<and> mg_readdir env"

lemma migrate_result:
  assumes "migrate exec tx env entries st = (r, st')"
  shows "\<exists>ran rest. pending entries (st_applied st) = ran @ rest \<and>
    run_files exec ran (st_data st) = Some (st_data st') \<and>
    st_applied st' = st_applied st @ map fe_name ran \<and> (r = None \<longleftrightarrow> rest = [] \<and> mig_starts env st)"
proof (cases "mig_starts env st")
  case True
  then obtain m where m: "appliedMigrations (mg_rows env) st = Inr m"
    by (cases "appliedMigrations (mg_rows env) st") (auto simp: mig_starts_def)
  with True assms have "migrate_loop exec tx m (sort_key fe_name entries) st = (r, st')"
    by (simp add: migrate_def mig_starts_def)
  from migrate_loop_result [OF this appliedMigrations_InrD [OF m]] True show ?thesis
    by (simp add: pending_def)
next
  case False
  with assms have "st' = st" "r \<noteq> None"
    by (auto simp: migrate_def mig_starts_def split: if_splits sum.splits)
  with False show ?thesis
    by (intro exI [of _ "[]"] exI [of _ "pending entries (st_applied st)"]) simp
qed

lemma migrate_loop_nothing:
  assumes "\<And>n. map_of m n = Some True \<longleftrightarrow> n \<in> set applied"
  shows "filter (\<lambda>e. \<not> fe_isdir e \<and> fe_name e \<notin> set applied) es = [] \<Longrightarrow>
   migrate_loop exec tx m es st = (None, st)"
  by (induction es) (auto simp: assms split: if_splits)

text \<open>
  \<open>Open\<close>: connecting and each pragma can fail (the parameters \<open>connect\<close> and \<open>pragma\<close>); otherwise
  the database is migrated.
\<close>

definition pragma_list :: "string list" where
  "pragma_list =
     [''PRAGMA journal_mode = WAL'', ''PRAGMA foreign_keys = ON'', ''PRAGMA busy_timeout = 5000'']"

definition Store_Open ::
  "bool \<Rightarrow> (string \<Rightarrow> bool) \<Rightarrow> (string \<Rightarrow> 'd \<Rightarrow> 'd option) \<Rightarrow> (string \<Rightarrow> tx_outcome) \<Rightarrow> mig_env \<Rightarrow>
   file_entry list \<Rightarrow> 'd store \<Rightarrow> store_err option \<times> 'd store" where
  "Store_Open connect pragma exec tx env entries st =
     (if \<not> connect then (Some ErrOpen, st)
      else case List.find (\<lambda>p. \<not> pragma p) pragma_list of
             Some p \<Rightarrow> (Some (ErrPragma p), st)
           | None \<Rightarrow> migrate exec tx env entries st)"

section \<open>Properties\<close>

text \<open>
  C38: every script of the grammar the splitter is written for (plain text, quoted literals that
  may contain semicolons, doubled quotes and dashes, line comments, semicolons) is split exactly
  at the semicolons that stand outside literals and comments, each part trimmed, empty parts
  dropped.
\<close>
theorem statements_render:
  "pieces_ok ps \<Longrightarrow> statements (render ps) = group_pieces [] ps"
  by (simp add: statements_def scan_render)

theorem statements_render_witness:
  "statements (render [Plain '' a '', Quoted ''x;--y'', Semi, Comment '' z;'', Semi, Plain ''b'']) =
     [''a '' @ quote_lit ''x;--y'', ''b'']"
proof -
  have "pieces_ok [Plain '' a '', Quoted ''x;--y'', Semi, Comment '' z;'', Semi, Plain ''b'']"
    by code_simp
  note statements_render [OF this]
  also have "group_pieces [] [Plain '' a '', Quoted ''x;--y'', Semi, Comment '' z;'', Semi, Plain ''b''] =
      [''a '' @ quote_lit ''x;--y'', ''b'']"
    by code_simp
  finally show ?thesis .
qed

text \<open>
  C39: a migration run never leaves half a migration behind. Whatever fails (creating or reading
  the bookkeeping table, reading the files, a statement, the record or the commit), the names
  recorded are the old ones followed by those of a prefix of the pending files in name order, the
  data is exactly the result of running that prefix, and there is no error exactly when the run
  could start and the prefix is all of them.
\<close>
theorem migrate_prefix_committed:
  "\<exists>ran rest. pending entries (st_applied st) = ran @ rest \<and>
     run_files exec ran (st_data st) = Some (st_data (snd (migrate exec tx env entries st))) \<and>
     st_applied (snd (migrate exec tx env entries st)) = st_applied st @ map fe_name ran \<and>
     (fst (migrate exec tx env entries st) = None \<longleftrightarrow> rest = [] \<and> mig_starts env st)"
  by (rule migrate_result) simp

text \<open>
  Migrating is idempotent: after a run without error, a second run over the same files that can
  start executes nothing and leaves the database as it is.
\<close>
lemma migrate_idempotent:
  assumes "migrate exec tx env entries st = (None, st')" "mig_starts env' st'"
  shows "migrate exec' tx' env' entries st' = (None, st')"
proof -
  obtain ran where "pending entries (st_applied st) = ran" "st_applied st' = st_applied st @ map fe_name ran"
    using migrate_result [OF assms(1)] by auto
  then have *: "filter (\<lambda>e. \<not> fe_isdir e \<and> fe_name e \<notin> set (st_applied st')) (sort_key fe_name entries) = []"
    by (auto simp: pending_def filter_empty_conv)
  show ?thesis
    using assms(2) migrate_loop_nothing [OF appliedMigrations_InrD *]
    by (auto simp: migrate_def mig_starts_def split: sum.split)
qed

lemma migrate_idempotent_instance:
  "let files = [\<lparr>fe_name = ''002.sql'', fe_isdir = False, fe_content = Some ''B''\<rparr>,
                \<lparr>fe_name = ''001.sql'', fe_isdir = False, fe_content = Some ''A;''\<rparr>];
       st = \<lparr>st_data = [''A'', ''B''], st_applied = [''001.sql'', ''002.sql'']\<rparr>;
       env = \<lparr>mg_create = True, mg_rows = RowsOk, mg_readdir = True\<rparr>
   in migrate (\<lambda>s d. Some (d @ [s])) (\<lambda>_. TxOk) env files \<lparr>st_data = [], st_applied = []\<rparr> = (None, st) \<and>
      migrate (\<lambda>s d. Some (d @ [s])) (\<lambda>_. TxOk) env files st = (None, st)"
proof -
  have run: "migrate (\<lambda>s d. Some (d @ [s])) (\<lambda>_. TxOk) \<lparr>mg_create = True, mg_rows = RowsOk, mg_readdir = True\<rparr>
      [\<lparr>fe_name = ''002.sql'', fe_isdir = False, fe_content = Some ''B''\<rparr>,
       \<lparr>fe_name = ''001.sql'', fe_isdir = False, fe_content = Some ''A;''\<rparr>]
      \<lparr>st_data = [], st_applied = []\<rparr>
    = (None, \<lparr>st_data = [''A'', ''B''], st_applied = [''001.sql'', ''002.sql'']\<rparr>)"
    by code_simp
  then show ?thesis
    using migrate_idempotent [OF run] by (simp add: Let_def mig_starts_def appliedMigrations_def)
qed

text \<open>
  The newline that ends a line comment is dropped with the comment, so the text before the
  comment and the text of the next line are joined without a separator.
\<close>

lemma statements_comment_joins_lines:
  assumes "piece_ok (Plain a)" "piece_ok (Plain b)" "newline \<notin> set c"
  shows "statements (a @ [dash, dash] @ c @ [newline] @ b) = flush_stmt (a @ b)"
  using assms scan_render [of "[Plain a, Comment c, Plain b]" "[]"]
  by (simp add: statements_def render_def)

end
