(* ===== verification/Tables.thy ===== *)
theory Tables
  imports Prelude "HOL-Library.Product_Lexorder"
begin

text \<open>
  The control-plane database as the SQL of the repositories sees it: the tables of
  \<open>src/internal/store/migrations/*.sql\<close> as lists of rows in insertion order, and the
  effect of the statements that \<open>auth\<close>, \<open>audit\<close>, \<open>router\<close> and the admin
  commands execute, with the constraints the schema declares (primary keys, unique columns,
  foreign keys). A statement can also fail in the driver; that is the argument
  \<open>fault\<close>, the driver's message.
\<close>

section \<open>Rows\<close>

record api_key_row =
  ak_id :: string
  ak_name :: string
  ak_token_hash :: string
  ak_prefix :: string
  ak_role :: string
  ak_status :: string
  ak_expires_at :: "time option"
  ak_created_at :: time
  ak_updated_at :: time

record enrollment_row =
  et_id :: string
  et_node_name :: string
  et_status :: string
  et_expires_at :: "time option"
  et_created_at :: time

record node_row =
  nd_id :: string
  nd_token_id :: string
  nd_status :: string
  nd_active_model :: string
  nd_last_heartbeat :: time
  nd_updated_at :: time

record catalog_row =
  cat_id :: nat
  cat_node_id :: string
  cat_model_name :: string

record audit_row =
  au_id :: nat
  au_api_key_id :: "string option"
  au_node_id :: "string option"
  au_model_requested :: string
  au_model_served :: string
  au_prompt_tokens :: int
  au_completion_tokens :: int
  au_ttft_ms :: "int option"
  au_total_duration_ms :: "int option"
  au_was_streamed :: bool
  au_was_model_swapped :: bool
  au_status_code :: int
  au_created_at :: time

record admin_row =
  ad_id :: nat
  ad_event :: string
  ad_api_key_id :: "string option"
  ad_remote_ip :: "string option"
  ad_status_code :: int
  ad_detail :: "string option"
  ad_created_at :: time

text \<open>
  The database: the tables and, for the three \<open>AUTOINCREMENT\<close> keys, the largest id
  given out so far.
\<close>

record db =
  api_keys :: "api_key_row list"
  node_enrollment_tokens :: "enrollment_row list"
  nodes :: "node_row list"
  node_model_catalogs :: "catalog_row list"
  request_audit_logs :: "audit_row list"
  admin_audit_logs :: "admin_row list"
  catalog_seq :: nat
  audit_seq :: nat
  admin_seq :: nat

definition empty_db :: db where
  "empty_db =
     \<lparr>api_keys = [], node_enrollment_tokens = [], nodes = [], node_model_catalogs = [],
      request_audit_logs = [], admin_audit_logs = [], catalog_seq = 0, audit_seq = 0, admin_seq = 0\<rparr>"

datatype sql_err = Driver string | ErrUnique string | ErrForeignKey

text \<open>An \<open>UPDATE \<dots> WHERE id = ?\<close> on the rows of a table.\<close>

definition update_rows :: "('r \<Rightarrow> string) \<Rightarrow> string \<Rightarrow> ('r \<Rightarrow> 'r) \<Rightarrow> 'r list \<Rightarrow> 'r list" where
  "update_rows ident key f rows = map (\<lambda>r. if ident r = key then f r else r) rows"

section \<open>Statements on \<open>api_keys\<close>\<close>

definition insert_api_key :: "string option \<Rightarrow> api_key_row \<Rightarrow> db \<Rightarrow> sql_err + db" where
  "insert_api_key fault r d =
     (case fault of
        Some m \<Rightarrow> Inl (Driver m)
      | None \<Rightarrow>
          if ak_id r \<in> ak_id ` set (api_keys d) then Inl (ErrUnique ''api_keys.id'')
          else if ak_token_hash r \<in> ak_token_hash ` set (api_keys d)
            then Inl (ErrUnique ''api_keys.token_hash'')
          else Inr (d\<lparr>api_keys := api_keys d @ [r]\<rparr>))"

text \<open>An \<open>UPDATE\<close> by id and the number of rows it affected.\<close>

definition update_api_key :: "string option \<Rightarrow> string \<Rightarrow> (api_key_row \<Rightarrow> api_key_row) \<Rightarrow> db \<Rightarrow> sql_err + db \<times> nat" where
  "update_api_key fault key f d =
     (case fault of
        Some m \<Rightarrow> Inl (Driver m)
      | None \<Rightarrow>
          Inr (d\<lparr>api_keys := update_rows ak_id key f (api_keys d)\<rparr>,
               length (filter (\<lambda>r. ak_id r = key) (api_keys d))))"

section \<open>Statements on \<open>node_enrollment_tokens\<close>\<close>

definition insert_enrollment :: "string option \<Rightarrow> enrollment_row \<Rightarrow> db \<Rightarrow> sql_err + db" where
  "insert_enrollment fault r d =
     (case fault of
        Some m \<Rightarrow> Inl (Driver m)
      | None \<Rightarrow>
          if et_id r \<in> et_id ` set (node_enrollment_tokens d)
          then Inl (ErrUnique ''node_enrollment_tokens.id'')
          else Inr (d\<lparr>node_enrollment_tokens := node_enrollment_tokens d @ [r]\<rparr>))"

definition update_enrollment ::
  "string option \<Rightarrow> string \<Rightarrow> (enrollment_row \<Rightarrow> enrollment_row) \<Rightarrow> db \<Rightarrow> sql_err + db \<times> nat" where
  "update_enrollment fault key f d =
     (case fault of
        Some m \<Rightarrow> Inl (Driver m)
      | None \<Rightarrow>
          Inr (d\<lparr>node_enrollment_tokens :=
                  update_rows et_id key f (node_enrollment_tokens d)\<rparr>,
               length (filter (\<lambda>r. et_id r = key) (node_enrollment_tokens d))))"

section \<open>Statements on \<open>nodes\<close> and \<open>node_model_catalogs\<close>\<close>

text \<open>
  \<open>INSERT INTO nodes \<dots> ON CONFLICT(id) DO UPDATE\<close>: an existing row keeps its
  \<open>token_id\<close>; a new row must reference an existing enrollment token.
\<close>

definition upsert_node :: "string option \<Rightarrow> node_row \<Rightarrow> db \<Rightarrow> sql_err + db" where
  "upsert_node fault r d =
     (case fault of
        Some m \<Rightarrow> Inl (Driver m)
      | None \<Rightarrow>
          if nd_id r \<in> nd_id ` set (nodes d)
          then Inr (d\<lparr>nodes := update_rows nd_id (nd_id r)
                      (\<lambda>q. q\<lparr>nd_status := nd_status r, nd_active_model := nd_active_model r,
                             nd_last_heartbeat := nd_last_heartbeat r, nd_updated_at := nd_updated_at r\<rparr>)
                      (nodes d)\<rparr>)
          else if nd_token_id r \<notin> et_id ` set (node_enrollment_tokens d) then Inl ErrForeignKey
          else Inr (d\<lparr>nodes := nodes d @ [r]\<rparr>))"

definition delete_catalog :: "string option \<Rightarrow> string \<Rightarrow> db \<Rightarrow> sql_err + db" where
  "delete_catalog fault node d =
     (case fault of
        Some m \<Rightarrow> Inl (Driver m)
      | None \<Rightarrow> Inr (d\<lparr>node_model_catalogs :=
                        filter (\<lambda>c. cat_node_id c \<noteq> node) (node_model_catalogs d)\<rparr>))"

definition insert_catalog :: "string option \<Rightarrow> string \<Rightarrow> string \<Rightarrow> db \<Rightarrow> sql_err + db" where
  "insert_catalog fault node model d =
     (case fault of
        Some m \<Rightarrow> Inl (Driver m)
      | None \<Rightarrow>
          if node \<notin> nd_id ` set (nodes d) then Inl ErrForeignKey
          else if (node, model) \<in> (\<lambda>c. (cat_node_id c, cat_model_name c)) ` set (node_model_catalogs d)
            then Inl (ErrUnique ''node_model_catalogs.node_id, node_model_catalogs.model_name'')
          else Inr (d\<lparr>node_model_catalogs := node_model_catalogs d @
                       [\<lparr>cat_id = Suc (catalog_seq d), cat_node_id = node, cat_model_name = model\<rparr>],
                      catalog_seq := Suc (catalog_seq d)\<rparr>))"

section \<open>Statements on the audit tables\<close>

definition fk_ok :: "string option \<Rightarrow> string set \<Rightarrow> bool" where
  "fk_ok v keys = (case v of None \<Rightarrow> True | Some k \<Rightarrow> k \<in> keys)"

definition insert_audit :: "string option \<Rightarrow> audit_row \<Rightarrow> db \<Rightarrow> sql_err + db" where
  "insert_audit fault r d =
     (case fault of
        Some m \<Rightarrow> Inl (Driver m)
      | None \<Rightarrow>
          if fk_ok (au_api_key_id r) (ak_id ` set (api_keys d)) \<and>
             fk_ok (au_node_id r) (nd_id ` set (nodes d))
          then Inr (d\<lparr>request_audit_logs := request_audit_logs d @ [r\<lparr>au_id := Suc (audit_seq d)\<rparr>],
                      audit_seq := Suc (audit_seq d)\<rparr>)
          else Inl ErrForeignKey)"

definition insert_admin_event :: "string option \<Rightarrow> admin_row \<Rightarrow> db \<Rightarrow> sql_err + db" where
  "insert_admin_event fault r d =
     (case fault of
        Some m \<Rightarrow> Inl (Driver m)
      | None \<Rightarrow>
          if fk_ok (ad_api_key_id r) (ak_id ` set (api_keys d))
          then Inr (d\<lparr>admin_audit_logs := admin_audit_logs d @ [r\<lparr>ad_id := Suc (admin_seq d)\<rparr>],
                      admin_seq := Suc (admin_seq d)\<rparr>)
          else Inl ErrForeignKey)"

section \<open>Rows addressed by a key\<close>

definition rows_revoked :: "('r \<Rightarrow> string) \<Rightarrow> ('r \<Rightarrow> string) \<Rightarrow> 'r list \<Rightarrow> string \<Rightarrow> bool" where
  "rows_revoked ident status rows k \<longleftrightarrow>
     k \<in> ident ` set rows \<and> (\<forall>r\<in>set rows. ident r = k \<longrightarrow> status r = ''revoked'')"

lemma ident_update_rows [simp, table_simps]:
  "(\<And>r. ident (f r) = ident r) \<Longrightarrow> map ident (update_rows ident key f rows) = map ident rows"
  by (simp add: update_rows_def)

lemma ident_set_update_rows [simp, table_simps]:
  "(\<And>r. ident (f r) = ident r) \<Longrightarrow> ident ` set (update_rows ident key f rows) = ident ` set rows"
  by (metis ident_update_rows set_map)

lemma in_update_rows:
  "r \<in> set (update_rows ident key f rows) \<longleftrightarrow>
     (r \<in> set rows \<and> ident r \<noteq> key) \<or> (\<exists>q\<in>set rows. ident q = key \<and> r = f q)"
  by (auto simp: update_rows_def)

lemma find_update_rows:
  "(\<And>r. ident (f r) = ident r) \<Longrightarrow>
   List.find (\<lambda>r. ident r = k) (update_rows ident key f rows) =
     map_option (\<lambda>r. if ident r = key then f r else r) (List.find (\<lambda>r. ident r = k) rows)"
  by (induction rows) (auto simp: update_rows_def)

lemma rows_revoked_append:
  "rows_revoked ident status rows k \<Longrightarrow> ident r \<notin> ident ` set rows \<Longrightarrow>
   rows_revoked ident status (rows @ [r]) k"
  by (auto simp: rows_revoked_def)

lemma rows_revoked_update:
  assumes "rows_revoked ident status rows k" "\<And>r. ident (f r) = ident r"
    and "\<And>r. status r = ''revoked'' \<Longrightarrow> status (f r) = ''revoked''"
  shows "rows_revoked ident status (update_rows ident key f rows) k"
  using assms by (auto simp: rows_revoked_def in_update_rows)

lemma rows_revoked_revoke:
  assumes "filter (\<lambda>r. ident r = k) rows \<noteq> []" "\<And>r. ident (f r) = ident r"
    and "\<And>r. status (f r) = ''revoked''"
  shows "rows_revoked ident status (update_rows ident k f rows) k"
  using assms by (auto simp: rows_revoked_def in_update_rows filter_empty_conv)

section \<open>Newest-first order\<close>

text \<open>
  \<open>ORDER BY created_at DESC, id DESC\<close>: the sort key of the two list pages, ordered so
  that a smaller key is a newer row.
\<close>

datatype newest = Newest (newest_at: time) (newest_id: string)

instantiation newest :: linorder
begin

definition less_eq_newest :: "newest \<Rightarrow> newest \<Rightarrow> bool" where
  "less_eq_newest a b \<longleftrightarrow> (newest_at b, newest_id b) \<le> (newest_at a, newest_id a)"

definition less_newest :: "newest \<Rightarrow> newest \<Rightarrow> bool" where
  "less_newest a b \<longleftrightarrow> (newest_at b, newest_id b) < (newest_at a, newest_id a)"

instance
  by standard (auto simp: less_eq_newest_def less_newest_def newest.expand)

end

definition newest_first :: "('a \<Rightarrow> time) \<Rightarrow> ('a \<Rightarrow> string) \<Rightarrow> 'a list \<Rightarrow> 'a list" where
  "newest_first created ident rows = sort_key (\<lambda>r. Newest (created r) (ident r)) rows"

lemma newest_first_mset [simp]: "mset (newest_first c i rows) = mset rows"
  by (simp add: newest_first_def)

lemma newest_first_sorted: "sorted (map (\<lambda>r. Newest (c r) (i r)) (newest_first c i rows))"
  by (simp add: newest_first_def)

end
