(* ===== verification/Auth.thy ===== *)
theory Auth
  imports Encoding Tables
begin

text \<open>
  Package \<open>auth\<close>: ingress API keys (\<open>src/internal/auth/apikey.go\<close>), worker enrollment
  tokens (\<open>enrollment.go\<close>) and the PASETO signer (\<open>paseto.go\<close>). Code outside the
  repository is a parameter: \<open>argon\<close> is argon2's \<open>IDKey\<close>, \<open>v4sign\<close> and
  \<open>parseV4\<close> are go-paseto's signing and parsing; random bytes, ids and clock readings are
  arguments. The locale \<open>credential_store\<close> states what revocation promises; both
  repositories are interpretations.
\<close>

section \<open>PHC-encoded argon2id hashes\<close>

definition keyLabel :: string where "keyLabel = ''sk-mesh-''"
definition keyPrefixLen :: nat where "keyPrefixLen = 16"

definition argonTime :: "32 word" where "argonTime = 1"
definition argonMemory :: "32 word" where "argonMemory = 64 * 1024"
definition argonThreads :: byte where "argonThreads = 1"
definition argonKeyLen :: "32 word" where "argonKeyLen = 32"

type_synonym argon2 = "bytes \<Rightarrow> bytes \<Rightarrow> 32 word \<Rightarrow> 32 word \<Rightarrow> byte \<Rightarrow> 32 word \<Rightarrow> bytes"

datatype auth_err =
    ErrInvalidAPIKey
  | ErrReadSalt
  | ErrNotArgon2id
  | ErrArgonParams
  | ErrDecodeSalt
  | ErrDecodeHash
  | ErrSQL string sql_err
  | ErrNoKeyWithID string
  | ErrNoTokenWithID string
  | ErrVerifyToken string
  | ErrSignerKey string

record argonParams =
  par_memory :: "32 word"
  par_time :: "32 word"
  par_threads :: byte

definition GenerateAPIKey :: "bytes \<Rightarrow> string" where
  "GenerateAPIKey rnd = keyLabel @ base64_encode encodeURL rnd"

definition PrefixOf :: "string \<Rightarrow> string" where
  "PrefixOf raw = (if length raw < keyPrefixLen then raw else take keyPrefixLen raw)"

definition phcEncode :: "bytes \<Rightarrow> bytes \<Rightarrow> string" where
  "phcEncode salt hash =
     ''$argon2id$v=19$m='' @ format_nat (unat argonMemory) @ '',t='' @ format_nat (unat argonTime)
     @ '',p='' @ format_nat (unat argonThreads) @ ''$'' @ base64_encode encodeStd salt
     @ ''$'' @ base64_encode encodeStd hash"

definition param_step :: "argonParams \<Rightarrow> string \<Rightarrow> argonParams" where
  "param_step p kv =
     (let eq = strings_SplitN2 kv CHR ''='' in
      if length eq \<noteq> 2 then p
      else if eq ! 0 = ''m'' then p\<lparr>par_memory := word_of_nat (fst (ParseUint (eq ! 1) 32))\<rparr>
      else if eq ! 0 = ''t'' then p\<lparr>par_time := word_of_nat (fst (ParseUint (eq ! 1) 32))\<rparr>
      else if eq ! 0 = ''p'' then p\<lparr>par_threads := word_of_nat (fst (ParseUint (eq ! 1) 8))\<rparr>
      else p)"

definition phcDecode :: "string \<Rightarrow> auth_err + bytes \<times> bytes \<times> argonParams" where
  "phcDecode encoded =
     (let parts = strings_Split encoded CHR ''$'' in
      if length parts \<noteq> 6 \<or> parts ! 1 \<noteq> ''argon2id'' then Inl ErrNotArgon2id
      else
        let p = foldl param_step \<lparr>par_memory = 0, par_time = 0, par_threads = 0\<rparr>
                  (strings_Split (parts ! 3) CHR '','')
        in if par_memory p = 0 \<or> par_time p = 0 \<or> par_threads p = 0 then Inl ErrArgonParams
           else case base64_decode encodeStd (parts ! 4) of
                  None \<Rightarrow> Inl ErrDecodeSalt
                | Some salt \<Rightarrow>
                    (case base64_decode encodeStd (parts ! 5) of
                       None \<Rightarrow> Inl ErrDecodeHash
                     | Some hash \<Rightarrow> Inr (salt, hash, p)))"

text \<open>\<open>HashAPIKey\<close>: \<open>salt\<close> is what the random source gives, \<open>None\<close> on failure.\<close>

definition HashAPIKey :: "argon2 \<Rightarrow> bytes option \<Rightarrow> string \<Rightarrow> auth_err + string" where
  "HashAPIKey argon salt raw =
     (case salt of
        None \<Rightarrow> Inl ErrReadSalt
      | Some s \<Rightarrow>
          Inr (phcEncode s (argon (bytes_of_string raw) s argonTime argonMemory argonThreads argonKeyLen)))"

definition VerifyAPIKey :: "argon2 \<Rightarrow> string \<Rightarrow> string \<Rightarrow> auth_err + bool" where
  "VerifyAPIKey argon raw encoded =
     (case phcDecode encoded of
        Inl e \<Rightarrow> Inl e
      | Inr (salt, hash, p) \<Rightarrow>
          Inr (hash = argon (bytes_of_string raw) salt (par_time p) (par_memory p) (par_threads p)
                 (word_of_nat (length hash))))"

lemma SplitN2_pair [simp]:
  "sep \<notin> set k \<Longrightarrow> strings_SplitN2 (k @ sep # v) sep = [k, v]"
  by (simp add: strings_SplitN2_def)

lemma phcEncode_eq:
  "phcEncode salt hash = ''$argon2id$v=19$m=65536,t=1,p=1$'' @ base64_encode encodeStd salt
     @ CHR ''$'' # base64_encode encodeStd hash"
proof -
  have "format_nat (unat argonMemory) = ''65536''" "format_nat (unat argonTime) = ''1''"
    "format_nat (unat argonThreads) = ''1''"
    by (simp_all add: argonMemory_def argonTime_def argonThreads_def format_nat.simps digit_char_def char_of_def bit_0)
  then show ?thesis
    by (simp add: phcEncode_def)
qed

lemma phc_parts:
  "strings_Split (phcEncode salt hash) CHR ''$'' =
     [[], ''argon2id'', ''v=19'', ''m=65536,t=1,p=1'',
      base64_encode encodeStd salt, base64_encode encodeStd hash]"
  by (simp add: phcEncode_eq)

lemma phc_params:
  "foldl param_step \<lparr>par_memory = 0, par_time = 0, par_threads = 0\<rparr>
     (strings_Split ''m=65536,t=1,p=1'' CHR '','') =
   \<lparr>par_memory = argonMemory, par_time = argonTime, par_threads = argonThreads\<rparr>"
  by (simp add: param_step_def strings_SplitN2_def Let_def ParseUint_def char_digit_def
      argonMemory_def argonTime_def argonThreads_def)

lemma phcDecode_phcEncode [simp, codec_simps]:
  "phcDecode (phcEncode salt hash) =
     Inr (salt, hash, \<lparr>par_memory = argonMemory, par_time = argonTime, par_threads = argonThreads\<rparr>)"
  unfolding phcDecode_def Let_def phc_parts
  by (simp add: phc_params argonMemory_def argonTime_def argonThreads_def del: strings_Split.simps)

text \<open>
  Verifying a key against its own stored hash succeeds exactly when the presented key derives
  the same hash, provided the derived key has the requested length.
\<close>

lemma VerifyAPIKey_phcEncode:
  "VerifyAPIKey argon raw (phcEncode salt hash) =
     Inr (hash = argon (bytes_of_string raw) salt argonTime argonMemory argonThreads
            (word_of_nat (length hash)))"
  by (simp add: VerifyAPIKey_def)

section \<open>API keys\<close>

record APIKey =
  key_ID :: string
  key_Name :: string
  key_Prefix :: string
  key_Role :: string
  key_Status :: string
  key_ExpiresAt :: "time option"
  key_CreatedAt :: time

definition defaultKeyRole :: string where "defaultKeyRole = ''client''"

text \<open>The columns \<open>Verify\<close> scans; it leaves \<open>CreatedAt\<close> at the zero time.\<close>

definition scan_verify :: "api_key_row \<Rightarrow> APIKey" where
  "scan_verify r =
     \<lparr>key_ID = ak_id r, key_Name = ak_name r, key_Prefix = ak_prefix r, key_Role = ak_role r,
      key_Status = ak_status r, key_ExpiresAt = ak_expires_at r, key_CreatedAt = 0\<rparr>"

definition scan_list :: "api_key_row \<Rightarrow> APIKey" where
  "scan_list r = (scan_verify r)\<lparr>key_CreatedAt := ak_created_at r\<rparr>"

text \<open>\<open>expiresAt.Valid && expiresAt.Time.Before(now)\<close>.\<close>

definition expired :: "time option \<Rightarrow> time \<Rightarrow> bool" where
  "expired e now = (case e of None \<Rightarrow> False | Some t \<Rightarrow> t < now)"

definition APIKey_Create ::
  "argon2 \<Rightarrow> bytes option \<Rightarrow> string \<Rightarrow> time \<Rightarrow> string option \<Rightarrow> string \<Rightarrow> string \<Rightarrow> db \<Rightarrow>
   auth_err + APIKey \<times> db" where
  "APIKey_Create argon salt uuid now fault name raw d =
     (case HashAPIKey argon salt raw of
        Inl e \<Rightarrow> Inl e
      | Inr hash \<Rightarrow>
          (case insert_api_key fault
                  \<lparr>ak_id = uuid, ak_name = name, ak_token_hash = hash, ak_prefix = PrefixOf raw,
                   ak_role = defaultKeyRole, ak_status = ''active'', ak_expires_at = None,
                   ak_created_at = now, ak_updated_at = now\<rparr> d of
             Inl e \<Rightarrow> Inl (ErrSQL ''insert api key'' e)
           | Inr d' \<Rightarrow>
               Inr (\<lparr>key_ID = uuid, key_Name = name, key_Prefix = PrefixOf raw, key_Role = defaultKeyRole,
                     key_Status = ''active'', key_ExpiresAt = None, key_CreatedAt = 0\<rparr>, d')))"

definition APIKey_List :: "string option \<Rightarrow> db \<Rightarrow> auth_err + APIKey list" where
  "APIKey_List fault d =
     (case fault of
        Some m \<Rightarrow> Inl (ErrSQL ''list api keys'' (Driver m))
      | None \<Rightarrow> Inr (map scan_list (newest_first ak_created_at ak_id (api_keys d))))"

text \<open>
  The row loop of \<open>Verify\<close>: an inactive or expired row is skipped, a malformed hash ends
  the loop with its error, the first row that verifies is returned.
\<close>

fun verify_rows :: "argon2 \<Rightarrow> time \<Rightarrow> string \<Rightarrow> api_key_row list \<Rightarrow> auth_err + APIKey option" where
  "verify_rows argon now bearer [] = Inr None"
| "verify_rows argon now bearer (r # rs) =
     (if ak_status r \<noteq> ''active'' then verify_rows argon now bearer rs
      else if expired (ak_expires_at r) now then verify_rows argon now bearer rs
      else case VerifyAPIKey argon bearer (ak_token_hash r) of
             Inl e \<Rightarrow> Inl e
           | Inr True \<Rightarrow> Inr (Some (scan_verify r))
           | Inr False \<Rightarrow> verify_rows argon now bearer rs)"

text \<open>
  \<open>Verify\<close>: the query carries no \<open>ORDER BY\<close>, so the order of the candidate rows is
  the argument \<open>ord\<close>; the query and the iteration can fail in the driver.
\<close>

definition APIKey_Verify ::
  "argon2 \<Rightarrow> (api_key_row list \<Rightarrow> api_key_row list) \<Rightarrow> time \<Rightarrow> string option \<Rightarrow> string option \<Rightarrow> string \<Rightarrow> db \<Rightarrow>
   auth_err + APIKey" where
  "APIKey_Verify argon ord now qfault ifault bearer d =
     (case qfault of
        Some m \<Rightarrow> Inl (ErrSQL ''query api keys'' (Driver m))
      | None \<Rightarrow>
          (case verify_rows argon now bearer (ord (filter (\<lambda>r. ak_prefix r = PrefixOf bearer) (api_keys d))) of
             Inl e \<Rightarrow> Inl e
           | Inr (Some ak) \<Rightarrow> Inr ak
           | Inr None \<Rightarrow>
               (case ifault of
                  Some m \<Rightarrow> Inl (ErrSQL ''iterate api keys'' (Driver m))
                | None \<Rightarrow> Inl ErrInvalidAPIKey)))"

text \<open>
  \<open>Revoke\<close> returns an error or nothing, and the database it leaves: the update and the
  reading of the row count (\<open>rfault\<close>) can fail separately, the latter after the update
  took effect.
\<close>

definition APIKey_Revoke ::
  "time \<Rightarrow> string option \<Rightarrow> string option \<Rightarrow> string \<Rightarrow> db \<Rightarrow> auth_err option \<times> db" where
  "APIKey_Revoke now fault rfault key d =
     (case update_api_key fault key (\<lambda>r. r\<lparr>ak_status := ''revoked'', ak_updated_at := now\<rparr>) d of
        Inl e \<Rightarrow> (Some (ErrSQL ''revoke api key'' e), d)
      | Inr (d', n) \<Rightarrow>
          (case rfault of
             Some m \<Rightarrow> (Some (ErrSQL ''revoke api key'' (Driver m)), d')
           | None \<Rightarrow> if n = 0 then (Some (ErrNoKeyWithID key), d') else (None, d')))"

definition APIKey_ActiveByID :: "time \<Rightarrow> string option \<Rightarrow> string \<Rightarrow> db \<Rightarrow> auth_err + bool" where
  "APIKey_ActiveByID now fault key d =
     (case fault of
        Some m \<Rightarrow> Inl (ErrSQL ''query api key by id'' (Driver m))
      | None \<Rightarrow>
          (case List.find (\<lambda>r. ak_id r = key) (api_keys d) of
             None \<Rightarrow> Inr False
           | Some r \<Rightarrow>
               if ak_status r \<noteq> ''active'' then Inr False
               else if expired (ak_expires_at r) now then Inr False
               else Inr True))"

section \<open>Enrollment tokens\<close>

definition noExpiryTTL :: duration where "noExpiryTTL = 100 * 365 * 24 * Hour"

definition effectiveExpiry :: "time \<Rightarrow> duration \<Rightarrow> time" where
  "effectiveExpiry now ttl =
     (if ttl > 0 then now + ttl else if ttl = 0 then now + noExpiryTTL else now + ttl)"

record EnrollmentToken =
  tok_ID :: string
  tok_NodeName :: string
  tok_Status :: string
  tok_ExpiresAt :: "time option"
  tok_CreatedAt :: time

text \<open>The claims of a PASETO token; a claim may be absent.\<close>

record claims =
  cl_aud :: "string option"
  cl_jti :: "string option"
  cl_sub :: "string option"
  cl_iat :: "time option"
  cl_exp :: "time option"

record Enrollment =
  enr_ID :: string
  enr_NodeName :: string

definition workerAudience :: string where "workerAudience = ''linguine-worker''"

definition Signer_Issue :: "(claims \<Rightarrow> string) \<Rightarrow> time \<Rightarrow> string \<Rightarrow> string \<Rightarrow> duration \<Rightarrow> string" where
  "Signer_Issue v4sign now ident nodeName ttl =
     v4sign \<lparr>cl_aud = Some workerAudience, cl_jti = Some ident, cl_sub = Some nodeName,
             cl_iat = Some now, cl_exp = Some (effectiveExpiry now ttl)\<rparr>"

text \<open>
  \<open>Parse\<close>: \<open>parseV4 audience now token\<close> is the library's parser with its
  not-expired rule and the audience rule, already holding the public key. Absent \<open>jti\<close> or
  \<open>sub\<close> claims read as empty strings.
\<close>

definition Signer_Parse ::
  "(string \<Rightarrow> time \<Rightarrow> string \<Rightarrow> string + claims) \<Rightarrow> time \<Rightarrow> string \<Rightarrow> auth_err + Enrollment" where
  "Signer_Parse parseV4 now token =
     (case parseV4 workerAudience now token of
        Inl m \<Rightarrow> Inl (ErrVerifyToken m)
      | Inr c \<Rightarrow>
          Inr \<lparr>enr_ID = (case cl_jti c of None \<Rightarrow> [] | Some s \<Rightarrow> s),
               enr_NodeName = (case cl_sub c of None \<Rightarrow> [] | Some s \<Rightarrow> s)\<rparr>)"

text \<open>\<open>Create\<close> reads the clock for the row (\<open>now\<close>) and again in \<open>Issue\<close> (\<open>now'\<close>).\<close>

definition Enrollment_Create ::
  "(claims \<Rightarrow> string) \<Rightarrow> string \<Rightarrow> time \<Rightarrow> time \<Rightarrow> string option \<Rightarrow> string \<Rightarrow> duration \<Rightarrow> db \<Rightarrow>
   auth_err + EnrollmentToken \<times> string \<times> db" where
  "Enrollment_Create v4sign uuid now now' fault nodeName ttl d =
     (let expiresAt = Some (effectiveExpiry now ttl) in
      case insert_enrollment fault
             \<lparr>et_id = uuid, et_node_name = nodeName, et_status = ''active'',
              et_expires_at = expiresAt, et_created_at = now\<rparr> d of
        Inl e \<Rightarrow> Inl (ErrSQL ''insert enrollment token'' e)
      | Inr d' \<Rightarrow>
          Inr (\<lparr>tok_ID = uuid, tok_NodeName = nodeName, tok_Status = ''active'',
                tok_ExpiresAt = expiresAt, tok_CreatedAt = now\<rparr>,
               Signer_Issue v4sign now' uuid nodeName ttl, d'))"

definition scan_token :: "enrollment_row \<Rightarrow> EnrollmentToken" where
  "scan_token r =
     \<lparr>tok_ID = et_id r, tok_NodeName = et_node_name r, tok_Status = et_status r,
      tok_ExpiresAt = et_expires_at r, tok_CreatedAt = et_created_at r\<rparr>"

definition Enrollment_List :: "string option \<Rightarrow> db \<Rightarrow> auth_err + EnrollmentToken list" where
  "Enrollment_List fault d =
     (case fault of
        Some m \<Rightarrow> Inl (ErrSQL ''list enrollment tokens'' (Driver m))
      | None \<Rightarrow> Inr (map scan_token (newest_first et_created_at et_id (node_enrollment_tokens d))))"

definition Enrollment_Revoke ::
  "string option \<Rightarrow> string option \<Rightarrow> string \<Rightarrow> db \<Rightarrow> auth_err option \<times> db" where
  "Enrollment_Revoke fault rfault key d =
     (case update_enrollment fault key (\<lambda>r. r\<lparr>et_status := ''revoked''\<rparr>) d of
        Inl e \<Rightarrow> (Some (ErrSQL ''revoke enrollment token'' e), d)
      | Inr (d', n) \<Rightarrow>
          (case rfault of
             Some m \<Rightarrow> (Some (ErrSQL ''revoke enrollment token'' (Driver m)), d')
           | None \<Rightarrow> if n = 0 then (Some (ErrNoTokenWithID key), d') else (None, d')))"

definition Enrollment_IsActive :: "time \<Rightarrow> string option \<Rightarrow> string \<Rightarrow> db \<Rightarrow> auth_err + bool" where
  "Enrollment_IsActive now fault key d =
     (case fault of
        Some m \<Rightarrow> Inl (ErrSQL ''query enrollment token'' (Driver m))
      | None \<Rightarrow>
          (case List.find (\<lambda>r. et_id r = key) (node_enrollment_tokens d) of
             None \<Rightarrow> Inr False
           | Some r \<Rightarrow>
               if et_status r \<noteq> ''active'' then Inr False
               else if expired (et_expires_at r) now then Inr False
               else Inr True))"

section \<open>What revocation promises\<close>

locale credential_store =
  fixes revoked :: "'d \<Rightarrow> string \<Rightarrow> bool"
    and active :: "time \<Rightarrow> string \<Rightarrow> 'd \<Rightarrow> bool"
    and step :: "'op \<Rightarrow> 'd \<Rightarrow> 'd"
  assumes revoked_inactive: "revoked d k \<Longrightarrow> \<not> active t k d"
    and revoked_step: "revoked d k \<Longrightarrow> revoked (step x d) k"
    and active_earlier: "active t' k d \<Longrightarrow> t \<le> t' \<Longrightarrow> active t k d"
begin

lemma revoked_run: "revoked d k \<Longrightarrow> revoked (fold step ops d) k"
  by (induction ops arbitrary: d) (auto intro: revoked_step)

lemma never_active_again: "revoked d k \<Longrightarrow> \<not> active t k (fold step ops d)"
  using revoked_inactive revoked_run by blast

lemma inactive_later: "\<not> active t k d \<Longrightarrow> t \<le> t' \<Longrightarrow> \<not> active t' k d"
  by (blast intro: active_earlier)

end

lemma expired_later: "expired e t \<Longrightarrow> t \<le> t' \<Longrightarrow> expired e t'"
  by (auto simp: expired_def split: option.splits)

lemma find_idE:
  assumes "List.find (\<lambda>r. f r = k) rows = Some r"
  shows "r \<in> set rows" "f r = k"
  using assms by (auto simp: find_Some_iff)

lemma find_id_None: "List.find (\<lambda>r. f r = k) rows = None \<longleftrightarrow> k \<notin> f ` set rows"
  using find_None_iff [of "\<lambda>r. f r = k" rows] by auto

subsection \<open>API keys\<close>

definition key_revoked :: "db \<Rightarrow> string \<Rightarrow> bool" where
  "key_revoked d k = rows_revoked ak_id ak_status (api_keys d) k"

definition key_active :: "time \<Rightarrow> string \<Rightarrow> db \<Rightarrow> bool" where
  "key_active now k d \<longleftrightarrow> APIKey_ActiveByID now None k d = Inr True"

text \<open>Everything the program does to \<open>api_keys\<close>, whatever the outcome.\<close>

datatype key_op =
    CreateKey "bytes option" string time "string option" string string
  | RevokeKey time "string option" "string option" string
  | MakeAdmin "string option" string

fun key_step :: "argon2 \<Rightarrow> key_op \<Rightarrow> db \<Rightarrow> db" where
  "key_step argon (CreateKey salt uuid now fault name raw) d =
     (case APIKey_Create argon salt uuid now fault name raw d of Inl _ \<Rightarrow> d | Inr (_, d') \<Rightarrow> d')"
| "key_step argon (RevokeKey now fault rfault k) d = snd (APIKey_Revoke now fault rfault k d)"
| "key_step argon (MakeAdmin fault k) d =
     (case update_api_key fault k (\<lambda>r. r\<lparr>ak_role := ''admin''\<rparr>) d of Inl _ \<Rightarrow> d | Inr (d', _) \<Rightarrow> d')"

lemma key_active_iff:
  "key_active now k d \<longleftrightarrow>
     (\<exists>r. List.find (\<lambda>r. ak_id r = k) (api_keys d) = Some r \<and> ak_status r = ''active'' \<and>
          \<not> expired (ak_expires_at r) now)"
  by (auto simp: key_active_def APIKey_ActiveByID_def split: option.splits)

lemma insert_api_key_Inr:
  "insert_api_key fault r d = Inr d' \<longleftrightarrow>
     fault = None \<and> ak_id r \<notin> ak_id ` set (api_keys d) \<and>
     ak_token_hash r \<notin> ak_token_hash ` set (api_keys d) \<and> d' = d\<lparr>api_keys := api_keys d @ [r]\<rparr>"
  by (auto simp: insert_api_key_def split: option.splits)

lemma APIKey_Create_InrD:
  "APIKey_Create argon salt uuid now fault name raw d = Inr (ak, d') \<Longrightarrow>
     \<exists>hash. HashAPIKey argon salt raw = Inr hash \<and> fault = None \<and>
        uuid \<notin> ak_id ` set (api_keys d) \<and> hash \<notin> ak_token_hash ` set (api_keys d) \<and>
        ak = \<lparr>key_ID = uuid, key_Name = name, key_Prefix = PrefixOf raw, key_Role = defaultKeyRole,
              key_Status = ''active'', key_ExpiresAt = None, key_CreatedAt = 0\<rparr> \<and>
        d' = d\<lparr>api_keys := api_keys d @
                [\<lparr>ak_id = uuid, ak_name = name, ak_token_hash = hash, ak_prefix = PrefixOf raw,
                  ak_role = defaultKeyRole, ak_status = ''active'', ak_expires_at = None,
                  ak_created_at = now, ak_updated_at = now\<rparr>]\<rparr>"
  by (auto simp: APIKey_Create_def insert_api_key_Inr split: sum.splits)

lemma APIKey_Revoke_db:
  "snd (APIKey_Revoke now fault rfault k d) =
     (if fault = None
      then d\<lparr>api_keys := update_rows ak_id k (\<lambda>r. r\<lparr>ak_status := ''revoked'', ak_updated_at := now\<rparr>) (api_keys d)\<rparr>
      else d)"
  by (auto simp: APIKey_Revoke_def update_api_key_def split: option.splits)

lemma APIKey_Revoke_revokes:
  "APIKey_Revoke now fault rfault k d = (None, d') \<Longrightarrow> key_revoked d' k"
  by (auto simp: APIKey_Revoke_def update_api_key_def key_revoked_def
      intro!: rows_revoked_revoke split: option.splits if_splits)

lemma key_revoked_step: "key_revoked d k \<Longrightarrow> key_revoked (key_step argon x d) k"
  by (cases x)
    (auto simp: key_revoked_def APIKey_Revoke_db update_api_key_def
       dest!: APIKey_Create_InrD intro!: rows_revoked_append rows_revoked_update
       split: sum.splits option.splits)

interpretation api_key_store: credential_store key_revoked key_active "key_step argon" for argon
proof unfold_locales
  show "\<not> key_active t k d" if "key_revoked d k" for d k t
    using that by (auto simp: key_active_iff key_revoked_def rows_revoked_def dest: find_idE)
  show "key_active t k d" if "key_active t' k d" "t \<le> t'" for t' k d t
    using that by (auto simp: key_active_iff dest: expired_later)
qed (rule key_revoked_step)

subsection \<open>Enrollment tokens\<close>

definition token_revoked :: "db \<Rightarrow> string \<Rightarrow> bool" where
  "token_revoked d k = rows_revoked et_id et_status (node_enrollment_tokens d) k"

definition token_active :: "time \<Rightarrow> string \<Rightarrow> db \<Rightarrow> bool" where
  "token_active now k d \<longleftrightarrow> Enrollment_IsActive now None k d = Inr True"

datatype token_op =
    CreateToken string time time "string option" string duration
  | RevokeToken "string option" "string option" string

fun token_step :: "(claims \<Rightarrow> string) \<Rightarrow> token_op \<Rightarrow> db \<Rightarrow> db" where
  "token_step v4sign (CreateToken uuid now now' fault node ttl) d =
     (case Enrollment_Create v4sign uuid now now' fault node ttl d of Inl _ \<Rightarrow> d | Inr (_, _, d') \<Rightarrow> d')"
| "token_step v4sign (RevokeToken fault rfault k) d = snd (Enrollment_Revoke fault rfault k d)"

lemma token_active_iff:
  "token_active now k d \<longleftrightarrow>
     (\<exists>r. List.find (\<lambda>r. et_id r = k) (node_enrollment_tokens d) = Some r \<and> et_status r = ''active'' \<and>
          \<not> expired (et_expires_at r) now)"
  by (auto simp: token_active_def Enrollment_IsActive_def split: option.splits)

lemma Enrollment_Create_InrD:
  "Enrollment_Create v4sign uuid now now' fault node ttl d = Inr (et, tok, d') \<Longrightarrow>
     fault = None \<and> uuid \<notin> et_id ` set (node_enrollment_tokens d) \<and>
     et = \<lparr>tok_ID = uuid, tok_NodeName = node, tok_Status = ''active'',
           tok_ExpiresAt = Some (effectiveExpiry now ttl), tok_CreatedAt = now\<rparr> \<and>
     tok = Signer_Issue v4sign now' uuid node ttl \<and>
     d' = d\<lparr>node_enrollment_tokens := node_enrollment_tokens d @
             [\<lparr>et_id = uuid, et_node_name = node, et_status = ''active'',
               et_expires_at = Some (effectiveExpiry now ttl), et_created_at = now\<rparr>]\<rparr>"
  by (auto simp: Enrollment_Create_def insert_enrollment_def Let_def
      split: sum.splits option.splits if_splits)

lemma Enrollment_Revoke_db:
  "snd (Enrollment_Revoke fault rfault k d) =
     (if fault = None
      then d\<lparr>node_enrollment_tokens :=
              update_rows et_id k (\<lambda>r. r\<lparr>et_status := ''revoked''\<rparr>) (node_enrollment_tokens d)\<rparr>
      else d)"
  by (auto simp: Enrollment_Revoke_def update_enrollment_def split: option.splits)

lemma Enrollment_Revoke_revokes:
  "Enrollment_Revoke fault rfault k d = (None, d') \<Longrightarrow> token_revoked d' k"
  by (auto simp: Enrollment_Revoke_def update_enrollment_def token_revoked_def
      intro!: rows_revoked_revoke split: option.splits if_splits)

lemma token_revoked_step: "token_revoked d k \<Longrightarrow> token_revoked (token_step v4sign x d) k"
  by (cases x)
    (auto simp: token_revoked_def Enrollment_Revoke_db
       dest!: Enrollment_Create_InrD intro!: rows_revoked_append rows_revoked_update
       split: sum.splits option.splits)

interpretation token_store: credential_store token_revoked token_active "token_step v4sign" for v4sign
proof unfold_locales
  show "\<not> token_active t k d" if "token_revoked d k" for d k t
    using that by (auto simp: token_active_iff token_revoked_def rows_revoked_def dest: find_idE)
  show "token_active t k d" if "token_active t' k d" "t \<le> t'" for t' k d t
    using that by (auto simp: token_active_iff dest: expired_later)
qed (rule token_revoked_step)

section \<open>The signer's key file\<close>

text \<open>
  \<open>LoadOrCreateSigner\<close>: what reading the file gives, the generated private key
  (\<open>None\<close> when generation fails), whether the write succeeds, and the library's
  constructor \<open>fromHex\<close>. The result is the key and the file content written, if any.
\<close>

definition LoadOrCreateSigner ::
  "(string \<Rightarrow> 'k option) \<Rightarrow> read_result \<Rightarrow> bytes option \<Rightarrow> bool \<Rightarrow> (auth_err + 'k) \<times> bytes option" where
  "LoadOrCreateSigner fromHex file gen write_ok =
     (case file of
        ReadOk data \<Rightarrow>
          (case fromHex (strings_TrimSpace (string_of_bytes data)) of
             None \<Rightarrow> (Inl (ErrSignerKey ''load signer key''), None)
           | Some sec \<Rightarrow> (Inr sec, None))
      | ReadFail m \<Rightarrow> (Inl (ErrSignerKey ''read signer key''), None)
      | ReadNotExist \<Rightarrow>
          (case gen of
             None \<Rightarrow> (Inl (ErrSignerKey ''generate signer key''), None)
           | Some priv \<Rightarrow>
               let enc = hex_EncodeToString priv in
               if \<not> write_ok then (Inl (ErrSignerKey ''write signer key''), None)
               else case fromHex enc of
                      None \<Rightarrow> (Inl (ErrSignerKey ''construct signer''), Some (bytes_of_string enc))
                    | Some sec \<Rightarrow> (Inr sec, Some (bytes_of_string enc))))"

section \<open>Verification of bearer tokens\<close>

text \<open>The rows of a query without \<open>ORDER BY\<close> come in some order, each once.\<close>

definition row_order :: "('r list \<Rightarrow> 'r list) \<Rightarrow> bool" where
  "row_order ord \<longleftrightarrow> (\<forall>rows. mset (ord rows) = mset rows)"

lemma row_order_set: "row_order ord \<Longrightarrow> set (ord rows) = set rows"
  by (metis row_order_def set_mset_mset)

lemma verify_rows_SomeD:
  "verify_rows argon now bearer rs = Inr (Some ak) \<Longrightarrow>
     \<exists>r\<in>set rs. ak = scan_verify r \<and> ak_status r = ''active'' \<and> \<not> expired (ak_expires_at r) now \<and>
       VerifyAPIKey argon bearer (ak_token_hash r) = Inr True"
  by (induction rs) (auto split: if_splits sum.splits bool.splits)

lemma verify_rows_unique:
  assumes "r0 \<in> set rs" "ak_status r0 = ''active''" "\<not> expired (ak_expires_at r0) now"
    and "VerifyAPIKey argon bearer (ak_token_hash r0) = Inr True"
    and "\<forall>r\<in>set rs. r \<noteq> r0 \<longrightarrow> VerifyAPIKey argon bearer (ak_token_hash r) = Inr False"
  shows "verify_rows argon now bearer rs = Inr (Some (scan_verify r0))"
  using assms
proof (induction rs)
  case (Cons r rs)
  then show ?case
    by (cases "r = r0") (auto split: sum.splits bool.splits)
qed simp

lemma APIKey_Verify_InrD:
  assumes "row_order ord" "APIKey_Verify argon ord now qf itf bearer d = Inr ak"
  shows "\<exists>r\<in>set (api_keys d). ak = scan_verify r \<and> ak_prefix r = PrefixOf bearer \<and>
    ak_status r = ''active'' \<and> \<not> expired (ak_expires_at r) now \<and>
    VerifyAPIKey argon bearer (ak_token_hash r) = Inr True"
proof -
  let ?rows = "filter (\<lambda>r. ak_prefix r = PrefixOf bearer) (api_keys d)"
  from assms(2) have "verify_rows argon now bearer (ord ?rows) = Inr (Some ak)"
    by (auto simp: APIKey_Verify_def split: option.splits sum.splits)
  then show ?thesis
    using verify_rows_SomeD row_order_set [OF assms(1), of ?rows] by fastforce
qed

lemma scan_verify_simps [simp]:
  "key_ID (scan_verify r) = ak_id r" "key_Role (scan_verify r) = ak_role r"
  "key_Status (scan_verify r) = ak_status r" "key_Prefix (scan_verify r) = ak_prefix r"
  by (simp_all add: scan_verify_def)

lemma Create_then_Verify:
  assumes create: "APIKey_Create argon (Some salt) uuid now fault name raw d = Inr (ak, d')"
    and len: "length (argon (bytes_of_string raw) salt argonTime argonMemory argonThreads argonKeyLen) = 32"
    and others: "\<forall>r\<in>set (api_keys d). ak_prefix r = PrefixOf raw \<longrightarrow>
      VerifyAPIKey argon raw (ak_token_hash r) = Inr False"
    and ord: "row_order ord"
  shows "APIKey_Verify argon ord now' None itf raw d' = Inr ak"
proof -
  let ?h = "phcEncode salt (argon (bytes_of_string raw) salt argonTime argonMemory argonThreads argonKeyLen)"
  let ?r = "\<lparr>ak_id = uuid, ak_name = name, ak_token_hash = ?h, ak_prefix = PrefixOf raw,
    ak_role = defaultKeyRole, ak_status = ''active'', ak_expires_at = None,
    ak_created_at = now, ak_updated_at = now\<rparr>"
  from APIKey_Create_InrD [OF create] have ak: "ak = scan_verify ?r"
    and rows: "api_keys d' = api_keys d @ [?r]"
    by (auto simp: HashAPIKey_def scan_verify_def)
  have "VerifyAPIKey argon raw ?h = Inr True"
    unfolding VerifyAPIKey_phcEncode len by (simp add: argonKeyLen_def)
  then have "verify_rows argon now' raw (ord (filter (\<lambda>r. ak_prefix r = PrefixOf raw) (api_keys d'))) =
      Inr (Some (scan_verify ?r))"
    using others by (intro verify_rows_unique) (auto simp: rows row_order_set [OF ord] expired_def)
  then show ?thesis
    by (simp add: APIKey_Verify_def ak)
qed

lemma created_token_active:
  assumes "Enrollment_Create v4sign uuid now now' fault node ttl d = Inr (et, tok, d')"
  shows "token_active t uuid d' \<longleftrightarrow> t \<le> now + (if ttl = 0 then 100 * 365 * 24 * Hour else ttl)"
proof -
  from Enrollment_Create_InrD [OF assms] have fresh: "uuid \<notin> et_id ` set (node_enrollment_tokens d)"
    and rows: "node_enrollment_tokens d' = node_enrollment_tokens d @
      [\<lparr>et_id = uuid, et_node_name = node, et_status = ''active'',
        et_expires_at = Some (effectiveExpiry now ttl), et_created_at = now\<rparr>]"
    by auto
  have "List.find (\<lambda>r. et_id r = uuid) (node_enrollment_tokens d') =
      Some \<lparr>et_id = uuid, et_node_name = node, et_status = ''active'',
        et_expires_at = Some (effectiveExpiry now ttl), et_created_at = now\<rparr>"
    using fresh by (simp add: rows find_append find_id_None [THEN iffD2])
  then show ?thesis
    by (auto simp: token_active_iff expired_def effectiveExpiry_def noExpiryTTL_def)
qed

text \<open>A concrete derivation function for the instances below: it pads the input to the length asked for.\<close>

definition sample_argon :: argon2 where
  "sample_argon raw salt t m p n = take (unat n) (raw @ salt @ replicate (unat n) 0)"

lemma length_sample_argon: "length (sample_argon raw salt t m p n) = unat n"
  by (simp add: sample_argon_def)

lemma sample_create:
  "\<exists>ak d'. APIKey_Create sample_argon (Some salt) uuid now None name raw empty_db = Inr (ak, d')"
  by (simp add: APIKey_Create_def HashAPIKey_def insert_api_key_def empty_db_def)

definition sample_key_db :: db where
  "sample_key_db = empty_db\<lparr>api_keys := [\<lparr>ak_id = ''k1'', ak_name = ''app'', ak_token_hash = ''h'',
     ak_prefix = ''sk-mesh-01234567'', ak_role = ''client'', ak_status = ''active'',
     ak_expires_at = None, ak_created_at = 1, ak_updated_at = 1\<rparr>]\<rparr>"

definition cl_jti_text :: "claims \<Rightarrow> string" where
  "cl_jti_text c = (case cl_jti c of None \<Rightarrow> [] | Some s \<Rightarrow> s)"

section \<open>Properties\<close>

text \<open>
  The stored form of a key hash is read back exactly: salt, hash and cost parameters survive
  encoding and decoding, for every salt and hash.
\<close>
lemma phc_roundtrip:
  "phcDecode (phcEncode salt hash) =
     Inr (salt, hash, \<lparr>par_memory = argonMemory, par_time = argonTime, par_threads = argonThreads\<rparr>)"
  by (rule phcDecode_phcEncode)

text \<open>
  A bearer token is accepted only for a stored key that has the token's prefix, is active,
  has not expired and whose hash verifies; the key returned is that row's.
\<close>
lemma APIKey_Verify_sound:
  assumes "row_order ord" "APIKey_Verify argon ord now qf itf bearer d = Inr ak"
  shows "\<exists>r\<in>set (api_keys d). ak = scan_verify r \<and> ak_prefix r = PrefixOf bearer \<and>
    ak_status r = ''active'' \<and> \<not> expired (ak_expires_at r) now \<and>
    VerifyAPIKey argon bearer (ak_token_hash r) = Inr True"
  using assms by (rule APIKey_Verify_InrD)

lemma APIKey_Verify_sound_instance:
  "\<exists>ak d'. APIKey_Create sample_argon (Some [7]) ''k1'' 1 None ''app'' ''sk-mesh-0123456789'' empty_db = Inr (ak, d') \<and>
     (\<exists>r\<in>set (api_keys d'). ak = scan_verify r \<and> ak_prefix r = PrefixOf ''sk-mesh-0123456789'' \<and>
        ak_status r = ''active'')"
proof -
  obtain ak d' where c: "APIKey_Create sample_argon (Some [7]) ''k1'' 1 None ''app'' ''sk-mesh-0123456789'' empty_db
      = Inr (ak, d')"
    using sample_create by blast
  have "APIKey_Verify sample_argon rev 2 None None ''sk-mesh-0123456789'' d' = Inr ak"
    by (rule Create_then_Verify [OF c]) (simp_all add: length_sample_argon empty_db_def row_order_def argonKeyLen_def)
  from APIKey_Verify_sound [OF _ this] c show ?thesis
    by (auto simp: row_order_def)
qed

text \<open>
  A key that was just created is accepted by \<open>Verify\<close> at any later time and resolves to
  the record \<open>Create\<close> returned, as long as argon2 returns the 32 bytes it is asked for and no
  other key with the same prefix verifies or has a malformed hash.
\<close>
lemma created_key_verifies:
  assumes "APIKey_Create argon (Some salt) uuid now fault name raw d = Inr (ak, d')"
    and "length (argon (bytes_of_string raw) salt argonTime argonMemory argonThreads argonKeyLen) = 32"
    and "\<forall>r\<in>set (api_keys d). ak_prefix r = PrefixOf raw \<longrightarrow>
      VerifyAPIKey argon raw (ak_token_hash r) = Inr False"
    and "row_order ord"
  shows "APIKey_Verify argon ord now' None itf raw d' = Inr ak"
  using assms by (rule Create_then_Verify)

lemma created_key_verifies_instance:
  "\<exists>ak d'. APIKey_Create sample_argon (Some [7]) ''k1'' 1 None ''app'' ''sk-mesh-0123456789'' empty_db = Inr (ak, d') \<and>
     APIKey_Verify sample_argon rev 2 None None ''sk-mesh-0123456789'' d' = Inr ak"
proof -
  obtain ak d' where c: "APIKey_Create sample_argon (Some [7]) ''k1'' 1 None ''app'' ''sk-mesh-0123456789'' empty_db
      = Inr (ak, d')"
    using sample_create by blast
  have "APIKey_Verify sample_argon rev 2 None None ''sk-mesh-0123456789'' d' = Inr ak"
    by (rule created_key_verifies [OF c]) (simp_all add: length_sample_argon empty_db_def row_order_def argonKeyLen_def)
  with c show ?thesis by blast
qed

text \<open>
  Revocation is final. After a successful \<open>Revoke\<close> of a key id, whatever keys are created,
  revoked or promoted afterwards, at no time is the id reported active, and no bearer token
  resolves to it.
\<close>
lemma revoked_key_stays_dead:
  assumes revoke: "APIKey_Revoke now fault rfault k d = (None, d')"
    and ord: "row_order ord"
  shows "\<not> key_active t k (fold (key_step argon) ops d') \<and>
    (\<forall>bearer ak. APIKey_Verify argon ord t qf itf bearer (fold (key_step argon) ops d') = Inr ak \<longrightarrow>
       key_ID ak \<noteq> k)"
proof -
  have dead: "key_revoked (fold (key_step argon) ops d') k"
    using APIKey_Revoke_revokes [OF revoke] by (rule api_key_store.revoked_run)
  then have "\<not> key_active t k (fold (key_step argon) ops d')"
    by (rule api_key_store.revoked_inactive)
  moreover have "key_ID ak \<noteq> k"
    if "APIKey_Verify argon ord t qf itf bearer (fold (key_step argon) ops d') = Inr ak" for bearer ak
    using APIKey_Verify_InrD [OF ord that] dead by (auto simp: key_revoked_def rows_revoked_def)
  ultimately show ?thesis by blast
qed

lemma revoked_key_stays_dead_instance:
  "\<exists>d'. APIKey_Revoke 5 None None ''k1'' sample_key_db = (None, d') \<and>
     \<not> key_active 9 ''k1'' (fold (key_step sample_argon)
         [MakeAdmin None ''k1'', CreateKey (Some [1]) ''k1'' 7 None ''n'' ''raw''] d')"
proof -
  obtain d' where r: "APIKey_Revoke 5 None None ''k1'' sample_key_db = (None, d')"
    by (simp add: APIKey_Revoke_def update_api_key_def sample_key_db_def)
  show ?thesis
    using r revoked_key_stays_dead [OF r, of rev 9 sample_argon
        "[MakeAdmin None ''k1'', CreateKey (Some [1]) ''k1'' 7 None ''n'' ''raw'']" None None]
    by (auto simp: row_order_def)
qed

text \<open>
  An enrollment token is active from its creation up to and including its effective expiry,
  and inactive from then on; the lifetime is the one asked for, a hundred years when none was
  asked for.
\<close>
lemma enrollment_lifetime:
  assumes "Enrollment_Create v4sign uuid now now' fault node ttl d = Inr (et, tok, d')"
  shows "token_active t uuid d' \<longleftrightarrow> t \<le> now + (if ttl = 0 then 100 * 365 * 24 * Hour else ttl)"
  using assms by (rule created_token_active)

lemma enrollment_lifetime_instance:
  "\<exists>et tok d'. Enrollment_Create cl_jti_text ''t1'' 10 11 None ''gpu-1'' (24 * Hour) empty_db = Inr (et, tok, d') \<and>
     token_active 10 ''t1'' d' \<and> \<not> token_active (11 + 24 * Hour) ''t1'' d'"
proof -
  obtain et tok d' where c: "Enrollment_Create cl_jti_text ''t1'' 10 11 None ''gpu-1'' (24 * Hour) empty_db
      = Inr (et, tok, d')"
    by (simp add: Enrollment_Create_def insert_enrollment_def empty_db_def Let_def)
  from enrollment_lifetime [OF c, of 10] enrollment_lifetime [OF c, of "11 + 24 * Hour"] c
  show ?thesis by auto
qed

text \<open>
  The signing key survives a restart: when the first start generated and wrote a key, a
  second start that reads what was written loads the same key and writes nothing.
\<close>
lemma signer_survives_restart:
  assumes "LoadOrCreateSigner fromHex ReadNotExist gen write_ok = (Inr sec, Some content)"
  shows "LoadOrCreateSigner fromHex (ReadOk content) gen' write_ok' = (Inr sec, None)"
  using assms by (auto simp: LoadOrCreateSigner_def Let_def split: option.splits if_splits)

lemma signer_survives_restart_instance:
  "LoadOrCreateSigner Some (ReadOk (bytes_of_string ''0aff'')) None False = (Inr ''0aff'', None)"
proof -
  have "LoadOrCreateSigner Some ReadNotExist (Some [10, 255]) True =
      (Inr ''0aff'', Some (bytes_of_string ''0aff''))"
    by (simp add: LoadOrCreateSigner_def hex_EncodeToString_def hextable_def Let_def)
  then show ?thesis by (rule signer_survives_restart)
qed

end
