(* ===== verification/Nodes.thy ===== *)
theory Nodes
  imports Mesh Tables
begin

text \<open>
  The node registry of \<open>src/internal/router/nodes.go\<close> and the read-only views of
  \<open>src/internal/fleet/nodeview.go\<close>: the table of connected workers by node id and by pipe, the
  side table of rejected connection attempts, and the best-effort persistence of a node row and
  its model catalog. The registry's mutex makes its operations atomic; the clock is an argument.
  A pointer of the Go maps is the entry it points to: an entry is written by its own
  \<open>upsert\<close> only, while it is the entry of both maps.
\<close>

section \<open>Entries\<close>

record nodeEntry =
  ne_id :: string
  ne_tokenID :: string
  ne_pipe :: PipeID
  ne_connectionState :: string
  ne_activeModel :: string
  ne_catalog :: "string list"
  ne_vramTotalMB :: "64 word"
  ne_vramFreeMB :: "64 word"
  ne_activeRequests :: int
  ne_estimatedTPS :: float64
  ne_activeConversations :: int
  ne_cachedTokens :: int
  ne_pinnedSessions :: "string list"
  ne_lastSeen :: time
  ne_syncedCatalog :: "string list"

record claimEntry =
  ce_nodeID :: string
  ce_pipe :: PipeID
  ce_reason :: string
  ce_detail :: string
  ce_lastAttempt :: time

definition claimMaxEntries :: nat where "claimMaxEntries = 64"
definition claimExpiry :: duration where "claimExpiry = 60 * Second"

record nodeRegistry =
  byID :: "(string, nodeEntry) gomap"
  byPipe :: "(PipeID, nodeEntry) gomap"
  order :: "string list"
  claims_tbl :: "(string, claimEntry) gomap"
  staleAfter :: duration

definition newNodeRegistry :: "duration \<Rightarrow> nodeRegistry" where
  "newNodeRegistry stale =
     \<lparr>byID = [], byPipe = [], order = [], claims_tbl = [], staleAfter = stale\<rparr>"

section \<open>Claims\<close>

text \<open>
  \<open>recordClaim\<close> iterates over the claims twice; \<open>ord\<close> and \<open>ord'\<close> are the orders of the two
  \<open>range\<close> loops. The first loop deletes the entry it visits, so the later iterations see the
  same entries.
\<close>

definition expire_claims :: "time \<Rightarrow> (string \<times> claimEntry) list \<Rightarrow> (string, claimEntry) gomap \<Rightarrow> (string, claimEntry) gomap" where
  "expire_claims now entries m =
     fold (\<lambda>(i, c) m. if time_sub now (ce_lastAttempt c) > claimExpiry then AList.delete i m else m) entries m"

fun oldest_loop :: "(string \<times> claimEntry) list \<Rightarrow> string \<times> time \<Rightarrow> string \<times> time" where
  "oldest_loop [] acc = acc"
| "oldest_loop ((i, c) # rest) (oldestID, oldest) =
     (if oldestID = '''' \<or> ce_lastAttempt c < oldest then oldest_loop rest (i, ce_lastAttempt c)
      else oldest_loop rest (oldestID, oldest))"

definition recordClaim ::
  "((string, claimEntry) gomap \<Rightarrow> (string, claimEntry) gomap) \<Rightarrow> ((string, claimEntry) gomap \<Rightarrow> (string, claimEntry) gomap) \<Rightarrow>
   time \<Rightarrow> string \<Rightarrow> string \<Rightarrow> string \<Rightarrow> PipeID \<Rightarrow> nodeRegistry \<Rightarrow> nodeRegistry" where
  "recordClaim ord ord' now nodeID reason detail pipe r =
     (if nodeID = '''' then r
      else
        let m = expire_claims now (ord (claims_tbl r)) (claims_tbl r);
            m' = (if map_of m nodeID = None \<and> claimMaxEntries \<le> length m
                  then AList.delete (fst (oldest_loop (ord' m) ('''', 0))) m else m)
        in r\<lparr>claims_tbl := AList.update nodeID
               \<lparr>ce_nodeID = nodeID, ce_pipe = pipe, ce_reason = reason, ce_detail = detail,
                ce_lastAttempt = now\<rparr> m'\<rparr>)"

definition registry_ClaimsSnapshot ::
  "((string, claimEntry) gomap \<Rightarrow> (string, claimEntry) gomap) \<Rightarrow> time \<Rightarrow> nodeRegistry \<Rightarrow> claimEntry list" where
  "registry_ClaimsSnapshot ord now r =
     filter (\<lambda>c. time_sub now (ce_lastAttempt c) \<le> claimExpiry) (map snd (ord (claims_tbl r)))"

section \<open>Registration\<close>

fun removeString :: "string list \<Rightarrow> string \<Rightarrow> string list" where
  "removeString [] x = []"
| "removeString (v # vs) x = (if v = x then vs else v # removeString vs x)"

text \<open>\<open>upsert\<close> up to the unlock: the registry and the entry it stored.\<close>

definition upsert_locked :: "nodeEntry \<Rightarrow> nodeRegistry \<Rightarrow> nodeRegistry \<times> nodeEntry" where
  "upsert_locked e r =
     (let r1 = r\<lparr>claims_tbl := AList.delete (ne_id e) (claims_tbl r)\<rparr>;
          r2 = (case map_of (byPipe r1) (ne_pipe e) of
                  Some old \<Rightarrow>
                    if ne_id old \<noteq> ne_id e
                    then r1\<lparr>byID := AList.delete (ne_id old) (byID r1),
                            order := removeString (order r1) (ne_id old)\<rparr>
                    else r1
                | None \<Rightarrow> r1);
          (e', r3) = (case map_of (byID r2) (ne_id e) of
                  Some existing \<Rightarrow> (e\<lparr>ne_syncedCatalog := ne_syncedCatalog existing\<rparr>, r2)
                | None \<Rightarrow> (e, r2\<lparr>order := order r2 @ [ne_id e]\<rparr>))
      in (r3\<lparr>byID := AList.update (ne_id e) e' (byID r3),
             byPipe := AList.update (ne_pipe e) e' (byPipe r3)\<rparr>, e'))"

definition catalogChanged :: "string list \<Rightarrow> string list \<Rightarrow> bool" where
  "catalogChanged a b =
     (if length a \<noteq> length b then True else list_ex (\<lambda>(x, y). x \<noteq> y) (zip a b))"

text \<open>
  The failures of the statements of one persist: the node row, and the statements of the
  catalog transaction, the insert of each model counted from 0.
\<close>

record persist_faults =
  pf_exec :: "string option"
  pf_begin :: "string option"
  pf_delete :: "string option"
  pf_insert :: "nat \<Rightarrow> string option"
  pf_commit :: "string option"

definition no_faults :: persist_faults where
  "no_faults = \<lparr>pf_exec = None, pf_begin = None, pf_delete = None, pf_insert = (\<lambda>_. None), pf_commit = None\<rparr>"

fun insert_models :: "(nat \<Rightarrow> string option) \<Rightarrow> nat \<Rightarrow> string \<Rightarrow> string list \<Rightarrow> db \<Rightarrow> db option" where
  "insert_models f i node [] d = Some d"
| "insert_models f i node (m # ms) d =
     (case insert_catalog (f i) node m d of Inl _ \<Rightarrow> None | Inr d' \<Rightarrow> insert_models f (Suc i) node ms d')"

text \<open>The transaction works on its own copy of the database, which a rollback throws away.\<close>

definition syncCatalog :: "persist_faults \<Rightarrow> nodeEntry \<Rightarrow> db \<Rightarrow> db \<times> nodeEntry" where
  "syncCatalog pf e d =
     (if pf_begin pf \<noteq> None then (d, e)
      else case delete_catalog (pf_delete pf) (ne_id e) d of
        Inl _ \<Rightarrow> (d, e)
      | Inr d1 \<Rightarrow>
          (case insert_models (pf_insert pf) 0 (ne_id e) (ne_catalog e) d1 of
             None \<Rightarrow> (d, e)
           | Some d2 \<Rightarrow>
               if pf_commit pf \<noteq> None then (d, e)
               else (d2, e\<lparr>ne_syncedCatalog := ne_catalog e\<rparr>)))"

definition persist :: "persist_faults \<Rightarrow> time \<Rightarrow> nodeEntry \<Rightarrow> db \<Rightarrow> db \<times> nodeEntry" where
  "persist pf now e d =
     (case upsert_node (pf_exec pf)
         \<lparr>nd_id = ne_id e, nd_token_id = ne_tokenID e, nd_status = ''online'',
          nd_active_model = ne_activeModel e, nd_last_heartbeat = now, nd_updated_at = now\<rparr> d of
        Inl _ \<Rightarrow> (d, e)
      | Inr d' \<Rightarrow>
          if catalogChanged (ne_catalog e) (ne_syncedCatalog e) then syncCatalog pf e d' else (d', e))"

text \<open>\<open>upsert\<close>; the database is \<open>None\<close> where the registry's handle is \<open>nil\<close>.\<close>

definition upsert :: "persist_faults \<Rightarrow> time \<Rightarrow> nodeEntry \<Rightarrow> nodeRegistry \<Rightarrow> db option \<Rightarrow> nodeRegistry \<times> db option" where
  "upsert pf now e r dbo =
     (let (r', e') = upsert_locked e r
      in case dbo of
           None \<Rightarrow> (r', None)
         | Some d \<Rightarrow>
             let (d', e'') = persist pf now e' d
             in (r'\<lparr>byID := AList.update (ne_id e) e'' (byID r'),
                    byPipe := AList.update (ne_pipe e) e'' (byPipe r')\<rparr>, Some d'))"

section \<open>Selection and snapshots\<close>

text \<open>An id of the order without an entry would be a nil dereference: the value \<open>Inl\<close>.\<close>

datatype go_panic = NilDereference

fun select_loop :: "time \<Rightarrow> duration \<Rightarrow> (string, nodeEntry) gomap \<Rightarrow> string list \<Rightarrow> nodeEntry option \<Rightarrow> go_panic + nodeEntry option" where
  "select_loop now stale m [] best = Inr best"
| "select_loop now stale m (i # is) best =
     (case map_of m i of
        None \<Rightarrow> Inl NilDereference
      | Some e \<Rightarrow>
          if time_sub now (ne_lastSeen e) > stale then select_loop now stale m is best
          else (case best of
                  None \<Rightarrow> select_loop now stale m is (Some e)
                | Some b \<Rightarrow>
                    if ne_activeRequests e < ne_activeRequests b then select_loop now stale m is (Some e)
                    else select_loop now stale m is best))"

definition selectLeastConnections :: "time \<Rightarrow> nodeRegistry \<Rightarrow> go_panic + nodeEntry option" where
  "selectLeastConnections now r = select_loop now (staleAfter r) (byID r) (order r) None"

fun snapshot_loop :: "(string, nodeEntry) gomap \<Rightarrow> string list \<Rightarrow> go_panic + nodeEntry list" where
  "snapshot_loop m [] = Inr []"
| "snapshot_loop m (i # is) =
     (case map_of m i of
        None \<Rightarrow> Inl NilDereference
      | Some e \<Rightarrow> (case snapshot_loop m is of Inl p \<Rightarrow> Inl p | Inr es \<Rightarrow> Inr (e # es)))"

definition snapshot :: "nodeRegistry \<Rightarrow> go_panic + nodeEntry list" where
  "snapshot r = snapshot_loop (byID r) (order r)"

record NodeView =
  nv_ID :: string
  nv_Status :: string
  nv_ConnectionState :: string
  nv_ClaimReason :: string
  nv_ActiveModel :: string
  nv_Catalog :: "string list"
  nv_VRAMTotalMB :: "64 word"
  nv_VRAMFreeMB :: "64 word"
  nv_ActiveRequests :: int
  nv_EstimatedTPS :: float64
  nv_LastHeartbeat :: time

definition node_view :: "time \<Rightarrow> duration \<Rightarrow> nodeEntry \<Rightarrow> NodeView" where
  "node_view now stale e =
     \<lparr>nv_ID = ne_id e,
      nv_Status = (if \<not> time_sub now (ne_lastSeen e) \<le> stale then ''stale''
                   else if ne_connectionState e = ConnStateDegraded then ''degraded'' else ''online''),
      nv_ConnectionState = ne_connectionState e, nv_ClaimReason = '''',
      nv_ActiveModel = ne_activeModel e, nv_Catalog = ne_catalog e,
      nv_VRAMTotalMB = ne_vramTotalMB e, nv_VRAMFreeMB = ne_vramFreeMB e,
      nv_ActiveRequests = ne_activeRequests e, nv_EstimatedTPS = ne_estimatedTPS e,
      nv_LastHeartbeat = ne_lastSeen e\<rparr>"

definition NodesSnapshot :: "time \<Rightarrow> nodeRegistry \<Rightarrow> go_panic + NodeView list" where
  "NodesSnapshot now r =
     (case snapshot r of Inl p \<Rightarrow> Inl p | Inr es \<Rightarrow> Inr (map (node_view now (staleAfter r)) es))"

definition claim_view :: "claimEntry \<Rightarrow> NodeView" where
  "claim_view c =
     \<lparr>nv_ID = ce_nodeID c, nv_Status = ''connecting'', nv_ConnectionState = ConnStateConnecting,
      nv_ClaimReason = ce_reason c, nv_ActiveModel = '''', nv_Catalog = [],
      nv_VRAMTotalMB = 0, nv_VRAMFreeMB = 0, nv_ActiveRequests = 0, nv_EstimatedTPS = 0,
      nv_LastHeartbeat = ce_lastAttempt c\<rparr>"

definition ClaimsSnapshot :: "((string, claimEntry) gomap \<Rightarrow> (string, claimEntry) gomap) \<Rightarrow> time \<Rightarrow> nodeRegistry \<Rightarrow> NodeView list" where
  "ClaimsSnapshot ord now r = map claim_view (registry_ClaimsSnapshot ord now r)"

section \<open>The registry invariant\<close>

definition nodes_inv :: "nodeRegistry \<Rightarrow> bool" where
  "nodes_inv r \<longleftrightarrow>
     map_wf (byID r) \<and> map_wf (byPipe r) \<and> distinct (order r) \<and> set (order r) = dom (map_of (byID r)) \<and>
     (\<forall>i e. map_of (byID r) i = Some e \<longrightarrow> ne_id e = i \<and> map_of (byPipe r) (ne_pipe e) = Some e) \<and>
     (\<forall>p e. map_of (byPipe r) p = Some e \<longrightarrow> ne_pipe e = p)"

definition claims_inv :: "nodeRegistry \<Rightarrow> bool" where
  "claims_inv r \<longleftrightarrow>
     map_wf (claims_tbl r) \<and> length (claims_tbl r) \<le> claimMaxEntries \<and> map_of (claims_tbl r) '''' = None \<and>
     (\<forall>i c. map_of (claims_tbl r) i = Some c \<longrightarrow> ce_nodeID c = i)"

named_theorems registry_simps

lemma catalogChanged_iff [simp, registry_simps]: "catalogChanged a b \<longleftrightarrow> a \<noteq> b"
proof -
  have "list_ex (\<lambda>(x, y). x \<noteq> y) (zip a b) \<longleftrightarrow> a \<noteq> b" if "length a = length b"
    using that by (induction a b rule: list_induct2) auto
  then show ?thesis
    by (auto simp: catalogChanged_def)
qed

lemma removeString_remove1 [simp, registry_simps]: "removeString xs x = remove1 x xs"
  by (induction xs) auto

lemma upsert_locked_byID:
  "map_of (byID (fst (upsert_locked e r))) i =
    (if i = ne_id e then Some (snd (upsert_locked e r))
     else case map_of (byPipe r) (ne_pipe e) of
            Some old \<Rightarrow> if ne_id old = i then None else map_of (byID r) i
          | None \<Rightarrow> map_of (byID r) i)"
  by (auto simp: upsert_locked_def Let_def split: option.splits)

lemma upsert_locked_byPipe:
  "map_of (byPipe (fst (upsert_locked e r))) = (map_of (byPipe r))(ne_pipe e \<mapsto> snd (upsert_locked e r))"
  by (auto simp: upsert_locked_def Let_def split: option.splits)

lemma upsert_locked_entry:
  "\<exists>s. snd (upsert_locked e r) = e\<lparr>ne_syncedCatalog := s\<rparr>"
  by (cases e) (auto simp: upsert_locked_def Let_def split: option.splits)

lemma upsert_locked_keys [simp]:
  "ne_id (snd (upsert_locked e r)) = ne_id e"
  "ne_pipe (snd (upsert_locked e r)) = ne_pipe e"
  "ne_catalog (snd (upsert_locked e r)) = ne_catalog e"
  "ne_tokenID (snd (upsert_locked e r)) = ne_tokenID e"
  using upsert_locked_entry [of e r] by auto

lemma upsert_locked_claims [simp]:
  "claims_tbl (fst (upsert_locked e r)) = AList.delete (ne_id e) (claims_tbl r)"
  "staleAfter (fst (upsert_locked e r)) = staleAfter r"
  by (auto simp: upsert_locked_def Let_def split: option.splits)

lemma upsert_locked_wf:
  assumes "map_wf (byID r)" "map_wf (byPipe r)"
  shows "map_wf (byID (fst (upsert_locked e r))) \<and> map_wf (byPipe (fst (upsert_locked e r)))"
  using assms by (auto simp: upsert_locked_def Let_def split: option.splits)

definition evicted :: "nodeEntry \<Rightarrow> nodeRegistry \<Rightarrow> string list" where
  "evicted e r =
     (case map_of (byPipe r) (ne_pipe e) of
        Some old \<Rightarrow> if ne_id old \<noteq> ne_id e then [ne_id old] else []
      | None \<Rightarrow> [])"

lemma upsert_locked_order_eq:
  "order (fst (upsert_locked e r)) =
    (let o1 = fold remove1 (evicted e r) (order r)
     in if map_of (byID r) (ne_id e) = None then o1 @ [ne_id e] else o1)"
  by (auto simp: upsert_locked_def evicted_def Let_def split: option.splits)

lemma upsert_locked_dom:
  "dom (map_of (byID (fst (upsert_locked e r)))) = insert (ne_id e) (dom (map_of (byID r)) - set (evicted e r))"
  by (auto simp: upsert_locked_byID evicted_def dom_def split: option.splits if_splits)

lemma fold_remove1_set:
  "distinct xs \<Longrightarrow> distinct (fold remove1 ys xs) \<and> set (fold remove1 ys xs) = set xs - set ys"
  by (induction ys arbitrary: xs) (auto simp: distinct_remove1 set_remove1_eq)

lemma upsert_locked_order:
  assumes "nodes_inv r"
  shows "distinct (order (fst (upsert_locked e r))) \<and>
    set (order (fst (upsert_locked e r))) = dom (map_of (byID (fst (upsert_locked e r))))"
proof -
  have o: "distinct (order r)" "set (order r) = dom (map_of (byID r))"
    using assms by (auto simp: nodes_inv_def)
  have ev: "ne_id e \<notin> set (evicted e r)"
    by (auto simp: evicted_def split: option.splits)
  show ?thesis
  proof (cases "map_of (byID r) (ne_id e)")
    case None
    then show ?thesis
      using fold_remove1_set [OF o(1), of "evicted e r"] o(2)
      by (simp only: upsert_locked_order_eq upsert_locked_dom Let_def) (auto simp: domIff)
  next
    case (Some x)
    then have "ne_id e \<in> dom (map_of (byID r)) - set (evicted e r)"
      using ev by auto
    then show ?thesis
      using Some fold_remove1_set [OF o(1), of "evicted e r"] o(2)
      by (simp add: upsert_locked_order_eq upsert_locked_dom Let_def insert_absorb)
  qed
qed

lemma nodes_inv_upsert_locked:
  assumes inv: "nodes_inv r"
  shows "nodes_inv (fst (upsert_locked e r))"
proof -
  have wf: "map_wf (byID r)" "map_wf (byPipe r)" and
    ids: "\<And>i x. map_of (byID r) i = Some x \<Longrightarrow> ne_id x = i \<and> map_of (byPipe r) (ne_pipe x) = Some x" and
    pipes: "\<And>p x. map_of (byPipe r) p = Some x \<Longrightarrow> ne_pipe x = p"
    using inv by (auto simp: nodes_inv_def)
  have "ne_id x = i \<and> map_of (byPipe (fst (upsert_locked e r))) (ne_pipe x) = Some x"
    if "map_of (byID (fst (upsert_locked e r))) i = Some x" for i x
    using that ids [of i x]
    by (auto simp: upsert_locked_byID upsert_locked_byPipe split: if_splits option.splits)
  moreover have "ne_pipe x = p" if "map_of (byPipe (fst (upsert_locked e r))) p = Some x" for p x
    using that pipes [of p x] by (auto simp: upsert_locked_byPipe split: if_splits)
  ultimately show ?thesis
    using upsert_locked_wf [OF wf] upsert_locked_order [OF inv] by (simp add: nodes_inv_def)
qed

text \<open>
  Rewriting the entry just stored, which is what the catalog sync does through the pointer,
  keeps the invariant.
\<close>

lemma nodes_invI:
  assumes "distinct (order r)" "set (order r) = dom (map_of (byID r))" "map_wf (byID r)" "map_wf (byPipe r)"
    and "\<And>i x. map_of (byID r) i = Some x \<Longrightarrow> map_of (byPipe r) (ne_pipe x) = Some x \<and> ne_id x = i"
    and "\<And>p x. map_of (byPipe r) p = Some x \<Longrightarrow> ne_pipe x = p"
  shows "nodes_inv r"
  using assms unfolding nodes_inv_def by blast

lemma nodes_inv_rewrite:
  assumes inv: "nodes_inv r" and cur: "map_of (byID r) (ne_id e) = Some e"
    and same: "ne_id e' = ne_id e" "ne_pipe e' = ne_pipe e"
  shows "nodes_inv (r\<lparr>byID := AList.update (ne_id e) e' (byID r), byPipe := AList.update (ne_pipe e) e' (byPipe r)\<rparr>)"
proof -
  have "map_of (byPipe r) (ne_pipe e) = Some e"
    using inv cur by (simp add: nodes_inv_def)
  then have "ne_pipe x \<noteq> ne_pipe e" if "map_of (byID r) i = Some x" "i \<noteq> ne_id e" for i x
    using inv that unfolding nodes_inv_def by (metis option.inject)
  then have ids: "map_of ((AList.update (ne_pipe e) e' (byPipe r))) (ne_pipe x) = Some x \<and> ne_id x = i"
    if "map_of (AList.update (ne_id e) e' (byID r)) i = Some x" for i x
    using that inv same by (cases "i = ne_id e") (auto simp: nodes_inv_def)
  have pipes: "ne_pipe x = p" if "map_of (AList.update (ne_pipe e) e' (byPipe r)) p = Some x" for p x
    using that inv same by (auto simp: nodes_inv_def split: if_splits)
  have "dom (map_of (AList.update (ne_id e) e' (byID r))) = dom (map_of (byID r))"
    using cur by auto
  then have "distinct (order r)" "set (order r) = dom (map_of (AList.update (ne_id e) e' (byID r)))"
    "map_wf (AList.update (ne_id e) e' (byID r))" "map_wf (AList.update (ne_pipe e) e' (byPipe r))"
    using inv by (auto simp: nodes_inv_def)
  moreover have eqs: "byID (r\<lparr>byID := a, byPipe := b\<rparr>) = a" "byPipe (r\<lparr>byID := a, byPipe := b\<rparr>) = b"
    "order (r\<lparr>byID := a, byPipe := b\<rparr>) = order r" for a b
    by simp_all
  ultimately show ?thesis
    using ids pipes by (intro nodes_invI) (unfold eqs, blast+)
qed

lemma syncCatalog_entry: "\<exists>s. snd (syncCatalog pf e d) = e\<lparr>ne_syncedCatalog := s\<rparr>"
  by (cases e) (auto simp: syncCatalog_def split: sum.splits option.splits)

lemma persist_entry: "\<exists>s. snd (persist pf now e d) = e\<lparr>ne_syncedCatalog := s\<rparr>"
  using syncCatalog_entry [of pf e]
  by (cases e) (auto simp: persist_def split: sum.splits)

lemma persist_keys [simp]:
  "ne_id (snd (persist pf now e d)) = ne_id e" "ne_pipe (snd (persist pf now e d)) = ne_pipe e"
  using persist_entry [of pf now e d] by auto

lemma upsert_Some:
  "upsert pf now e r (Some d) =
    (let r' = fst (upsert_locked e r); e' = snd (upsert_locked e r); p = persist pf now e' d
     in (r'\<lparr>byID := AList.update (ne_id e) (snd p) (byID r'),
            byPipe := AList.update (ne_pipe e) (snd p) (byPipe r')\<rparr>, Some (fst p)))"
  by (simp add: upsert_def Let_def case_prod_beta)

lemma upsert_None: "upsert pf now e r None = (fst (upsert_locked e r), None)"
  by (simp add: upsert_def Let_def case_prod_beta)

lemma nodes_inv_upsert:
  assumes "nodes_inv r"
  shows "nodes_inv (fst (upsert pf now e r dbo))"
proof (cases dbo)
  case None
  then show ?thesis
    using nodes_inv_upsert_locked [OF assms] by (simp add: upsert_None)
next
  case (Some d)
  have "map_of (byID (fst (upsert_locked e r))) (ne_id (snd (upsert_locked e r))) = Some (snd (upsert_locked e r))"
    by (simp add: upsert_locked_byID)
  from nodes_inv_rewrite [OF nodes_inv_upsert_locked [OF assms] this, of "snd (persist pf now (snd (upsert_locked e r)) d)"]
  show ?thesis
    by (simp add: Some upsert_Some Let_def)
qed

lemma upsert_claims [simp]:
  "claims_tbl (fst (upsert pf now e r dbo)) = AList.delete (ne_id e) (claims_tbl r)"
  "staleAfter (fst (upsert pf now e r dbo)) = staleAfter r"
  by (cases dbo; simp add: upsert_None upsert_Some Let_def)+

lemma upsert_stored:
  "\<exists>s. map_of (byID (fst (upsert pf now e r dbo))) (ne_id e) = Some (e\<lparr>ne_syncedCatalog := s\<rparr>)"
proof (cases dbo)
  case None
  then show ?thesis
    using upsert_locked_entry [of e r] by (auto simp: upsert_None upsert_locked_byID)
next
  case (Some d)
  then show ?thesis
    using upsert_locked_entry [of e r] persist_entry [of pf now "snd (upsert_locked e r)" d]
    by (auto simp: upsert_Some Let_def)
qed

text \<open>An entry found after an \<open>upsert\<close> under another token was there before, as it is.\<close>

lemma upsert_other_token:
  assumes "map_of (byID (fst (upsert pf now e r dbo))) n = Some x" "ne_tokenID x \<noteq> ne_tokenID e"
  shows "map_of (byID r) n = Some x"
proof -
  have "n \<noteq> ne_id e"
    using assms upsert_stored [of pf now e r dbo] by auto
  then have "map_of (byID (fst (upsert_locked e r))) n = Some x"
    using assms(1) by (cases dbo) (simp_all add: upsert_None upsert_Some Let_def)
  with \<open>n \<noteq> ne_id e\<close> show ?thesis
    by (auto simp: upsert_locked_byID split: option.splits if_splits)
qed

text \<open>What is selected is an entry of the registry that is not stale.\<close>

lemma selected_fresh:
  assumes "selectLeastConnections t r = Inr (Some node)"
  shows "(\<exists>n. map_of (byID r) n = Some node) \<and> time_sub t (ne_lastSeen node) \<le> staleAfter r"
proof -
  have "(\<exists>n. map_of m n = Some x) \<and> time_sub t (ne_lastSeen x) \<le> stale"
    if "select_loop t stale m is best = Inr (Some x)"
      "\<forall>b. best = Some b \<longrightarrow> (\<exists>n. map_of m n = Some b) \<and> time_sub t (ne_lastSeen b) \<le> stale" for stale m "is" best x
    using that
    by (induction t stale m "is" best rule: select_loop.induct)
      (auto split: option.splits if_splits)
  from this [OF assms [unfolded selectLeastConnections_def]] show ?thesis by simp
qed

lemma upsert_others:
  assumes "i \<noteq> ne_id e"
  shows "map_of (byID (fst (upsert pf now e r dbo))) i =
    (case map_of (byPipe r) (ne_pipe e) of
       Some old \<Rightarrow> if ne_id old = i then None else map_of (byID r) i
     | None \<Rightarrow> map_of (byID r) i)"
  using assms by (cases dbo) (simp_all add: upsert_None upsert_Some Let_def upsert_locked_byID)

section \<open>Claims\<close>

interpretation claim_table: purging_table
  "\<lambda>now c. time_sub now (ce_lastAttempt c) > claimExpiry" expire_claims
  by unfold_locales (simp_all add: expire_claims_def)

lemma oldest_loop_acc:
  assumes "i \<noteq> ''''" "\<forall>(j, c) \<in> set es. j \<noteq> ''''"
  shows "oldest_loop es (i, t) \<in> insert (i, t) (map_prod (\<lambda>k. k) ce_lastAttempt ` set es) \<and>
    snd (oldest_loop es (i, t)) \<le> t \<and> (\<forall>(j, c) \<in> set es. snd (oldest_loop es (i, t)) \<le> ce_lastAttempt c)"
  using assms
proof (induction es arbitrary: i t)
  case (Cons x es)
  obtain j c where x: "x = (j, c)" by (cases x)
  show ?case
    using Cons.IH [of j "ce_lastAttempt c"] Cons.IH [of i t] Cons.prems
    by (cases "ce_lastAttempt c < t") (auto simp: x)
qed simp

lemma oldest_loop_min:
  assumes "es \<noteq> []" "\<forall>(j, c) \<in> set es. j \<noteq> ''''"
  shows "\<exists>c. (fst (oldest_loop es ('''', t)), c) \<in> set es \<and>
    (\<forall>(j, c') \<in> set es. ce_lastAttempt c \<le> ce_lastAttempt c')"
proof -
  obtain j c es' where es: "es = (j, c) # es'"
    using assms(1) by (metis list.exhaust surj_pair)
  have "j \<noteq> ''''" "\<forall>(j, c) \<in> set es'. j \<noteq> ''''"
    using assms(2) by (auto simp: es)
  note acc = oldest_loop_acc [OF this, of "ce_lastAttempt c"]
  then have "oldest_loop es ('''', t) \<in> map_prod (\<lambda>k. k) ce_lastAttempt ` set es"
    by (auto simp: es)
  then obtain k c0 where c0: "(k, c0) \<in> set es" "oldest_loop es ('''', t) = (k, ce_lastAttempt c0)"
    by auto
  with acc show ?thesis
    by (intro exI [of _ c0]) (auto simp: es)
qed

definition fresh_claims :: "time \<Rightarrow> nodeRegistry \<Rightarrow> (string, claimEntry) gomap" where
  "fresh_claims now r = filter (\<lambda>(i, c). \<not> time_sub now (ce_lastAttempt c) > claimExpiry) (claims_tbl r)"

definition oldest_claims :: "(string, claimEntry) gomap \<Rightarrow> string set" where
  "oldest_claims m = {i. \<exists>c. map_of m i = Some c \<and> (\<forall>(j, c') \<in> set m. ce_lastAttempt c \<le> ce_lastAttempt c')}"

lemma fresh_claims_inv:
  assumes "claims_inv r"
  shows "map_wf (fresh_claims now r)" "length (fresh_claims now r) \<le> claimMaxEntries"
    "map_of (fresh_claims now r) '''' = None"
    "map_of (fresh_claims now r) i = Some c \<Longrightarrow> ce_nodeID c = i"
  using assms map_of_filter_snd [of "claims_tbl r" "\<lambda>c. \<not> time_sub now (ce_lastAttempt c) > claimExpiry"]
  by (auto simp: fresh_claims_def claims_inv_def intro: order_trans [OF length_filter_le] split: option.splits if_splits)

text \<open>
  The whole operation: among the unexpired claims at most one is given up, an oldest one, and
  only to make room for a new name in a full table.
\<close>

lemma recordClaim_effect:
  fixes now :: time and pipe :: PipeID and reason detail :: string
  assumes inv: "claims_inv r" and ord: "range_order ord" "range_order ord'" and id: "nodeID \<noteq> ''''"
  defines "m \<equiv> fresh_claims now r"
  defines "new \<equiv> \<lparr>ce_nodeID = nodeID, ce_pipe = pipe, ce_reason = reason, ce_detail = detail, ce_lastAttempt = now\<rparr>"
  obtains V where "claims_tbl (recordClaim ord ord' now nodeID reason detail pipe r) = AList.update nodeID new V"
    "V = m \<and> (map_of m nodeID \<noteq> None \<or> length m < claimMaxEntries) \<or>
     (\<exists>v \<in> oldest_claims m. V = AList.delete v m \<and> map_of m nodeID = None \<and> length m = claimMaxEntries)"
proof -
  have m: "expire_claims now (ord (claims_tbl r)) (claims_tbl r) = m"
    using claim_table.purge_all [OF ord(1)] inv by (simp add: m_def fresh_claims_def claims_inv_def)
  note minv = fresh_claims_inv [OF inv, of now, folded m_def]
  show thesis
  proof (cases "map_of m nodeID = None \<and> claimMaxEntries \<le> length m")
    case True
    then have ne: "ord' m \<noteq> []"
      using range_order_length [OF ord(2), of m] by (auto simp: claimMaxEntries_def)
    have keys: "\<forall>(j, c) \<in> set (ord' m). j \<noteq> ''''"
      using minv(3) by (force simp: range_order_set [OF ord(2)] map_of_eq_None_iff)
    from oldest_loop_min [OF ne keys, of 0]
    have "fst (oldest_loop (ord' m) ('''', 0)) \<in> oldest_claims m"
      using map_wf_mapD [OF minv(1)] by (fastforce simp: oldest_claims_def range_order_set [OF ord(2)])
    with True minv(2) id show thesis
      by (intro that [of "AList.delete (fst (oldest_loop (ord' m) ('''', 0))) m"])
        (auto simp: recordClaim_def m new_def Let_def)
  next
    case False
    with id show thesis
      by (intro that [of m]) (auto simp: recordClaim_def m new_def Let_def)
  qed
qed

lemma claims_inv_recordClaim:
  assumes inv: "claims_inv r" and ord: "range_order ord" "range_order ord'"
  shows "claims_inv (recordClaim ord ord' now nodeID reason detail pipe r)"
proof (cases "nodeID = ''''")
  case False
  define m where "m = fresh_claims now r"
  note minv = fresh_claims_inv [OF inv, of now, folded m_def]
  obtain V where eq: "claims_tbl (recordClaim ord ord' now nodeID reason detail pipe r) = AList.update nodeID
      \<lparr>ce_nodeID = nodeID, ce_pipe = pipe, ce_reason = reason, ce_detail = detail, ce_lastAttempt = now\<rparr> V"
    and V: "V = m \<and> (map_of m nodeID \<noteq> None \<or> length m < claimMaxEntries) \<or>
     (\<exists>v \<in> oldest_claims m. V = AList.delete v m \<and> map_of m nodeID = None \<and> length m = claimMaxEntries)"
    using recordClaim_effect [OF inv ord False, where now = now and pipe = pipe and reason = reason and detail = detail] unfolding m_def by blast
  have wf: "map_wf V" and sub: "map_of V i = Some c \<Longrightarrow> map_of m i = Some c" for i c
    using V minv(1) by (auto split: if_splits)
  have "length (AList.update nodeID
      \<lparr>ce_nodeID = nodeID, ce_pipe = pipe, ce_reason = reason, ce_detail = detail, ce_lastAttempt = now\<rparr> V)
      \<le> claimMaxEntries"
    using V minv(1,2) wf
    by (auto simp: length_update length_delete oldest_claims_def claimMaxEntries_def)
  moreover have "map_of V [] = None"
    using sub [of "[]"] minv(3) by (cases "map_of V []") auto
  ultimately show ?thesis
    using wf sub [THEN minv(4)] False by (auto simp: claims_inv_def eq)
qed (simp add: recordClaim_def inv)

lemma claims_inv_upsert: "claims_inv r \<Longrightarrow> claims_inv (fst (upsert pf now e r dbo))"
  by (auto simp: claims_inv_def length_delete)

lemma recordClaim_nodes [simp]:
  "byID (recordClaim ord ord' now i reason detail pipe r) = byID r"
  "byPipe (recordClaim ord ord' now i reason detail pipe r) = byPipe r"
  "order (recordClaim ord ord' now i reason detail pipe r) = order r"
  "staleAfter (recordClaim ord ord' now i reason detail pipe r) = staleAfter r"
  by (simp_all add: recordClaim_def Let_def)

section \<open>Reachable registries\<close>

inductive reg_reachable :: "duration \<Rightarrow> nodeRegistry \<Rightarrow> bool" for stale where
  start: "reg_reachable stale (newNodeRegistry stale)"
| register: "reg_reachable stale r \<Longrightarrow> reg_reachable stale (fst (upsert pf now e r dbo))"
| refuse: "reg_reachable stale r \<Longrightarrow> range_order ord \<Longrightarrow> range_order ord' \<Longrightarrow>
    reg_reachable stale (recordClaim ord ord' now i reason detail pipe r)"

lemma reachable_inv:
  "reg_reachable stale r \<Longrightarrow> nodes_inv r \<and> claims_inv r \<and> staleAfter r = stale"
proof (induction rule: reg_reachable.induct)
  case start
  then show ?case
    by (simp add: newNodeRegistry_def nodes_inv_def claims_inv_def)
next
  case (register r pf now e dbo)
  then show ?case
    by (simp add: nodes_inv_upsert claims_inv_upsert)
next
  case (refuse r ord ord' now i reason detail pipe)
  then show ?case
    by (simp add: claims_inv_recordClaim) (simp add: nodes_inv_def)
qed

section \<open>Selection\<close>

text \<open>
  What the request path relies on: a dispatch policy that, on a well-formed registry, picks the
  first of the least loaded live entries and nothing only when there is no live entry.
\<close>

locale dispatch_policy =
  fixes ok :: "'r \<Rightarrow> bool"
    and live :: "'r \<Rightarrow> 'e list"
    and load :: "'e \<Rightarrow> int"
    and pick :: "'r \<Rightarrow> 'e option"
  assumes pick_spec:
    "ok r \<Longrightarrow> (case pick r of None \<Rightarrow> live r = [] | Some e \<Rightarrow> first_min load e (live r))"
begin

lemma pick_None: "ok r \<Longrightarrow> pick r = None \<longleftrightarrow> live r = []"
  using pick_spec [of r] by (auto split: option.splits)

lemma pick_Some: "ok r \<Longrightarrow> pick r = Some e \<longleftrightarrow> first_min load e (live r)"
  using pick_spec [of r] by (auto split: option.splits dest: first_min_unique)

lemma pick_live: "ok r \<Longrightarrow> pick r = Some e \<Longrightarrow> e \<in> set (live r)"
  by (simp add: pick_Some first_min_in)

lemma pick_least: "ok r \<Longrightarrow> pick r = Some e \<Longrightarrow> x \<in> set (live r) \<Longrightarrow> load e \<le> load x"
  by (simp add: pick_Some first_min_least)

end

definition entries :: "nodeRegistry \<Rightarrow> nodeEntry list" where
  "entries r = map (\<lambda>i. the (map_of (byID r) i)) (order r)"

definition fresh_nodes :: "time \<Rightarrow> nodeRegistry \<Rightarrow> nodeEntry list" where
  "fresh_nodes now r = filter (\<lambda>e. \<not> time_sub now (ne_lastSeen e) > staleAfter r) (entries r)"

definition best_node :: "time \<Rightarrow> nodeRegistry \<Rightarrow> nodeEntry option" where
  "best_node now r = (case selectLeastConnections now r of Inr b \<Rightarrow> b | Inl _ \<Rightarrow> None)"

fun first_least :: "nodeEntry option \<Rightarrow> nodeEntry list \<Rightarrow> nodeEntry option" where
  "first_least best [] = best"
| "first_least best (e # es) =
     first_least (case best of None \<Rightarrow> Some e
                  | Some b \<Rightarrow> if ne_activeRequests e < ne_activeRequests b then Some e else best) es"

lemma first_least_Some:
  "\<exists>e. first_least (Some b) es = Some e \<and> first_min ne_activeRequests e (b # es)"
proof (induction es arbitrary: b)
  case (Cons a es)
  obtain e where "first_least (Some (if ne_activeRequests a < ne_activeRequests b then a else b)) es = Some e"
    "first_min ne_activeRequests e ((if ne_activeRequests a < ne_activeRequests b then a else b) # es)"
    using Cons.IH by blast
  then show ?case
    by (intro exI [of _ e]) (auto split: if_splits)
qed simp

lemma select_loop_first_least:
  "set is \<subseteq> dom (map_of m) \<Longrightarrow>
   select_loop now stale m is best =
     Inr (first_least best (filter (\<lambda>e. \<not> time_sub now (ne_lastSeen e) > stale) (map (\<lambda>i. the (map_of m i)) is)))"
  by (induction "is" arbitrary: best) (auto split: option.splits)

lemma selectLeastConnections_eq:
  "nodes_inv r \<Longrightarrow> selectLeastConnections now r = Inr (first_least None (fresh_nodes now r))"
  by (simp add: selectLeastConnections_def select_loop_first_least fresh_nodes_def entries_def nodes_inv_def)

lemma snapshot_loop_eq:
  "set is \<subseteq> dom (map_of m) \<Longrightarrow> snapshot_loop m is = Inr (map (\<lambda>i. the (map_of m i)) is)"
  by (induction "is") auto

lemma snapshot_eq: "nodes_inv r \<Longrightarrow> snapshot r = Inr (entries r)"
  by (simp add: snapshot_def snapshot_loop_eq entries_def nodes_inv_def)

lemma entries_set: "nodes_inv r \<Longrightarrow> set (entries r) = {e. \<exists>i. map_of (byID r) i = Some e}"
  by (force simp: entries_def nodes_inv_def)

lemma entries_ids:
  assumes "nodes_inv r"
  shows "map ne_id (entries r) = order r"
proof -
  have "ne_id (the (map_of (byID r) i)) = i" if "i \<in> set (order r)" for i
    using that assms by (auto simp: nodes_inv_def)
  then show ?thesis
    by (simp add: entries_def map_idI)
qed

lemma entries_distinct_pipes:
  assumes "nodes_inv r"
  shows "distinct (map ne_pipe (entries r))"
proof -
  have "distinct (map ne_id (entries r))"
    using assms by (simp add: entries_ids nodes_inv_def)
  moreover have "inj_on ne_pipe (set (entries r))"
  proof (rule inj_onI)
    fix x y assume "x \<in> set (entries r)" "y \<in> set (entries r)" and eq: "ne_pipe x = ne_pipe y"
    then obtain i j where "map_of (byID r) i = Some x" "map_of (byID r) j = Some y"
      using assms by (auto simp: entries_set)
    then have "map_of (byPipe r) (ne_pipe x) = Some x" "map_of (byPipe r) (ne_pipe y) = Some y"
      using assms unfolding nodes_inv_def by blast+
    then show "x = y"
      unfolding eq by (simp only: option.inject)
  qed
  ultimately show ?thesis
    by (simp add: distinct_map)
qed

interpretation least_connections: dispatch_policy nodes_inv "fresh_nodes now" ne_activeRequests "best_node now" for now
proof unfold_locales
  fix r assume inv: "nodes_inv r"
  show "case best_node now r of None \<Rightarrow> fresh_nodes now r = []
     | Some e \<Rightarrow> first_min ne_activeRequests e (fresh_nodes now r)"
  proof (cases "fresh_nodes now r")
    case (Cons b es)
    then show ?thesis
      using first_least_Some [of b es]
      by (auto simp: best_node_def selectLeastConnections_eq [OF inv])
  qed (simp add: best_node_def selectLeastConnections_eq [OF inv])
qed

section \<open>The persisted catalog\<close>

definition catalog_of :: "db \<Rightarrow> string \<Rightarrow> string list" where
  "catalog_of d node = map cat_model_name (filter (\<lambda>c. cat_node_id c = node) (node_model_catalogs d))"

lemma insert_catalog_InrD:
  assumes "insert_catalog f node m d = Inr d'"
  shows "catalog_of d' n = (if n = node then catalog_of d n @ [m] else catalog_of d n) \<and> nodes d' = nodes d"
  using assms by (auto simp: insert_catalog_def catalog_of_def split: option.splits if_splits)

lemma insert_catalog_ok:
  assumes "node \<in> nd_id ` set (nodes d)" "m \<notin> set (catalog_of d node)"
  shows "\<exists>d'. insert_catalog None node m d = Inr d'"
  using assms by (force simp: insert_catalog_def catalog_of_def)

lemma insert_models_SomeD:
  "insert_models f i node ms d = Some d' \<Longrightarrow>
   catalog_of d' n = (if n = node then catalog_of d n @ ms else catalog_of d n) \<and> nodes d' = nodes d"
  by (induction f i node ms d rule: insert_models.induct)
    (auto split: sum.splits dest!: insert_catalog_InrD [where n = n])

lemma insert_models_ok:
  "\<forall>j. f j = None \<Longrightarrow> node \<in> nd_id ` set (nodes d) \<Longrightarrow> distinct (catalog_of d node @ ms) \<Longrightarrow>
   \<exists>d'. insert_models f i node ms d = Some d'"
proof (induction ms arbitrary: i d)
  case (Cons m ms)
  then obtain d' where d': "insert_catalog None node m d = Inr d'"
    using insert_catalog_ok [of node d m] by auto
  then show ?case
    using Cons insert_catalog_InrD [OF d', of node] by simp
qed simp

lemma insert_models_distinct:
  "insert_models f i node ms d = Some d' \<Longrightarrow> distinct ms \<and> set ms \<inter> set (catalog_of d node) = {}"
proof (induction ms arbitrary: i d)
  case (Cons m ms)
  then obtain d1 where ins: "insert_catalog (f i) node m d = Inr d1" "insert_models f (Suc i) node ms d1 = Some d'"
    by (auto split: sum.splits)
  have "m \<notin> set (catalog_of d node)"
    using ins(1) by (force simp: insert_catalog_def catalog_of_def split: option.splits if_splits)
  then show ?case
    using Cons.IH [OF ins(2)] insert_catalog_InrD [OF ins(1), of node] by auto
qed simp

lemma delete_catalog_InrD:
  assumes "delete_catalog f node d = Inr d'"
  shows "catalog_of d' n = (if n = node then [] else catalog_of d n) \<and> nodes d' = nodes d"
proof -
  have d': "d' = d\<lparr>node_model_catalogs := filter (\<lambda>c. cat_node_id c \<noteq> node) (node_model_catalogs d)\<rparr>"
    using assms by (simp add: delete_catalog_def split: option.splits)
  have "filter (\<lambda>c. cat_node_id c \<noteq> node \<and> cat_node_id c = n) xs =
      (if n = node then [] else filter (\<lambda>c. cat_node_id c = n) xs)" for xs
    by (induction xs) auto
  from this [of "node_model_catalogs d"] show ?thesis
    by (cases "n = node") (simp_all add: d' catalog_of_def)
qed

lemma upsert_node_InrD:
  assumes "upsert_node f r d = Inr d'"
  shows "catalog_of d' = catalog_of d" "nd_id r \<in> nd_id ` set (nodes d')"
    "node_enrollment_tokens d' = node_enrollment_tokens d" "api_keys d' = api_keys d"
proof -
  show "catalog_of d' = catalog_of d" "nd_id r \<in> nd_id ` set (nodes d')"
    "node_enrollment_tokens d' = node_enrollment_tokens d" "api_keys d' = api_keys d"
    using assms by (auto simp: upsert_node_def catalog_of_def fun_eq_iff split: option.splits if_splits)
qed

text \<open>
  A catalog sync either leaves the catalog table as it was, or has replaced the node's rows by
  the reported catalog and remembers it.
\<close>

lemma syncCatalog_cases:
  assumes "syncCatalog pf e d = (d', e')"
  shows "(d' = d \<and> e' = e) \<or>
    (e' = e\<lparr>ne_syncedCatalog := ne_catalog e\<rparr> \<and> distinct (ne_catalog e) \<and>
     (\<forall>n. catalog_of d' n = (if n = ne_id e then ne_catalog e else catalog_of d n)))"
proof (cases "\<exists>d1 d2. delete_catalog (pf_delete pf) (ne_id e) d = Inr d1 \<and>
      insert_models (pf_insert pf) 0 (ne_id e) (ne_catalog e) d1 = Some d2")
  case True
  then obtain d1 d2 where del: "delete_catalog (pf_delete pf) (ne_id e) d = Inr d1"
    and ins: "insert_models (pf_insert pf) 0 (ne_id e) (ne_catalog e) d1 = Some d2"
    by blast
  have "syncCatalog pf e d \<in> {(d, e), (d2, e\<lparr>ne_syncedCatalog := ne_catalog e\<rparr>)}"
    unfolding syncCatalog_def del ins sum.case option.case by (simp only: split: if_split) blast
  then have "d' = d \<and> e' = e \<or> d' = d2 \<and> e' = e\<lparr>ne_syncedCatalog := ne_catalog e\<rparr>"
    unfolding assms by blast
  moreover have "\<forall>n. catalog_of d2 n = (if n = ne_id e then ne_catalog e else catalog_of d n)"
    using insert_models_SomeD [OF ins] delete_catalog_InrD [OF del] by simp
  ultimately show ?thesis
    using insert_models_distinct [OF ins] by blast
next
  case False
  then have "syncCatalog pf e d = (d, e)"
    by (cases "delete_catalog (pf_delete pf) (ne_id e) d")
      (simp_all add: syncCatalog_def split: option.splits)
  then show ?thesis
    using assms by simp
qed

lemma persist_cases:
  assumes "persist pf now e d = (d', e')"
  shows "(e' = e \<and> catalog_of d' = catalog_of d) \<or>
    (e' = e\<lparr>ne_syncedCatalog := ne_catalog e\<rparr> \<and> distinct (ne_catalog e) \<and>
     (\<forall>n. catalog_of d' n = (if n = ne_id e then ne_catalog e else catalog_of d n)))"
  using assms
  by (auto simp: persist_def split: if_splits sum.splits dest!: syncCatalog_cases upsert_node_InrD(1))

lemma persist_syncs:
  assumes "ne_tokenID e \<in> et_id ` set (node_enrollment_tokens d)" "distinct (ne_catalog e)"
    and coherent: "ne_syncedCatalog e = [] \<or> ne_syncedCatalog e = catalog_of d (ne_id e)"
    and "ne_catalog e \<noteq> []"
  shows "catalog_of (fst (persist no_faults now e d)) (ne_id e) = ne_catalog e"
proof -
  define row where "row = \<lparr>nd_id = ne_id e, nd_token_id = ne_tokenID e, nd_status = ''online'',
      nd_active_model = ne_activeModel e, nd_last_heartbeat = now, nd_updated_at = now\<rparr>"
  obtain d1 where d1: "upsert_node None row d = Inr d1"
    using assms(1) by (cases "ne_id e \<in> nd_id ` set (nodes d)") (simp_all add: upsert_node_def row_def)
  note d1D = upsert_node_InrD [OF d1]
  show ?thesis
  proof (cases "ne_catalog e = ne_syncedCatalog e")
    case True
    then show ?thesis
      using coherent assms(4) d1 d1D(1) by (simp add: persist_def no_faults_def flip: row_def)
  next
    case False
    obtain d2 where d2: "delete_catalog None (ne_id e) d1 = Inr d2"
      by (simp add: delete_catalog_def)
    have "ne_id e \<in> nd_id ` set (nodes d2)"
      using d1D(2) delete_catalog_InrD [OF d2] by (simp add: row_def)
    then obtain d3 where d3: "insert_models (\<lambda>_. None) 0 (ne_id e) (ne_catalog e) d2 = Some d3"
      using insert_models_ok [of "\<lambda>_. None" "ne_id e" d2 "ne_catalog e" 0] delete_catalog_InrD [OF d2, of "ne_id e"] assms(2)
      by auto
    then show ?thesis
      using False d1 d2 insert_models_SomeD [OF d3, of "ne_id e"] delete_catalog_InrD [OF d2, of "ne_id e"]
      by (simp add: persist_def syncCatalog_def no_faults_def flip: row_def)
  qed
qed

text \<open>What the registry remembers as synced is nothing, or what the table holds.\<close>

definition catalog_coherent :: "nodeRegistry \<Rightarrow> db \<Rightarrow> bool" where
  "catalog_coherent r d \<longleftrightarrow>
     (\<forall>i e. map_of (byID r) i = Some e \<longrightarrow> ne_syncedCatalog e = [] \<or> ne_syncedCatalog e = catalog_of d i)"

lemma upsert_locked_synced:
  assumes "catalog_coherent r d" "ne_syncedCatalog e = []"
  shows "ne_syncedCatalog (snd (upsert_locked e r)) = [] \<or>
    ne_syncedCatalog (snd (upsert_locked e r)) = catalog_of d (ne_id e)"
  using assms
  by (auto simp: upsert_locked_def catalog_coherent_def Let_def split: option.splits if_splits)

section \<open>Properties\<close>

definition sample_entry :: "string \<Rightarrow> PipeID \<Rightarrow> int \<Rightarrow> string list \<Rightarrow> nodeEntry" where
  "sample_entry i p n cat =
     \<lparr>ne_id = i, ne_tokenID = ''t-'' @ i, ne_pipe = p, ne_connectionState = '''', ne_activeModel = ''m'',
      ne_catalog = cat, ne_vramTotalMB = 0, ne_vramFreeMB = 0, ne_activeRequests = n, ne_estimatedTPS = 0,
      ne_activeConversations = 0, ne_cachedTokens = 0, ne_pinnedSessions = [], ne_lastSeen = 0,
      ne_syncedCatalog = []\<rparr>"

definition sample_registry :: nodeRegistry where
  "sample_registry =
     fst (upsert no_faults 0 (sample_entry ''b'' 2 1 []) 
       (fst (upsert no_faults 0 (sample_entry ''a'' 1 3 []) (newNodeRegistry (15 * Second)) None)) None)"

lemma sample_reachable: "reg_reachable (15 * Second) sample_registry"
  unfolding sample_registry_def by (intro reg_reachable.intros)

lemmas sample_simps = sample_registry_def sample_entry_def upsert_def upsert_locked_def newNodeRegistry_def

text \<open>
  C14: whatever heartbeats were accepted or refused, neither the selection nor the dashboard
  snapshot dereferences a missing entry, and the snapshot lists every registered node exactly
  once, in registration order, no two of them on the same pipe.
\<close>
theorem registry_sound:
  assumes "reg_reachable stale r"
  shows "(\<exists>b. selectLeastConnections now r = Inr b) \<and>
    (\<exists>es. snapshot r = Inr es \<and> map ne_id es = order r \<and> distinct (map ne_id es) \<and>
       distinct (map ne_pipe es) \<and> set es = {e. \<exists>i. map_of (byID r) i = Some e})"
proof -
  have inv: "nodes_inv r"
    using reachable_inv [OF assms] by simp
  show ?thesis
    by (simp add: selectLeastConnections_eq [OF inv] snapshot_eq [OF inv] entries_ids [OF inv]
        entries_distinct_pipes [OF inv] entries_set [OF inv]) (use inv in \<open>simp add: nodes_inv_def\<close>)
qed

theorem registry_sound_witness:
  "\<exists>es. snapshot sample_registry = Inr es \<and> map ne_id es = [''a'', ''b''] \<and> distinct (map ne_pipe es)"
proof -
  have "order sample_registry = [''a'', ''b'']"
    by (simp add: sample_simps)
  then show ?thesis
    using registry_sound [OF sample_reachable, of 0] by auto
qed

text \<open>
  C13: selection is least-connections with ties broken by registration order: it answers with no
  node exactly when every registered node is stale, and otherwise with the first of the
  registered, non-stale nodes that has the fewest active requests.
\<close>
theorem least_connections_correct:
  assumes "reg_reachable stale r"
  shows "(selectLeastConnections now r = Inr None \<longleftrightarrow>
      (\<forall>i e. map_of (byID r) i = Some e \<longrightarrow> time_sub now (ne_lastSeen e) > stale)) \<and>
    (selectLeastConnections now r = Inr (Some e) \<longleftrightarrow>
      (\<exists>pre post. filter (\<lambda>x. time_sub now (ne_lastSeen x) \<le> stale) (map (\<lambda>i. the (map_of (byID r) i)) (order r))
          = pre @ e # post \<and>
        (\<forall>x \<in> set pre. ne_activeRequests e < ne_activeRequests x) \<and>
        (\<forall>x \<in> set post. ne_activeRequests e \<le> ne_activeRequests x)))"
proof -
  have inv: "nodes_inv r" and stale: "staleAfter r = stale"
    using reachable_inv [OF assms] by simp_all
  have sel: "selectLeastConnections now r = Inr b \<longleftrightarrow> best_node now r = b" for b
    by (auto simp: best_node_def selectLeastConnections_eq [OF inv])
  have fresh: "fresh_nodes now r =
      filter (\<lambda>x. time_sub now (ne_lastSeen x) \<le> stale) (map (\<lambda>i. the (map_of (byID r) i)) (order r))"
    by (simp add: fresh_nodes_def entries_def stale not_less)
  have "best_node now r = None \<longleftrightarrow>
      (\<forall>i e. map_of (byID r) i = Some e \<longrightarrow> time_sub now (ne_lastSeen e) > stale)"
    using least_connections.pick_None [OF inv] entries_set [OF inv]
    by (auto simp: fresh_nodes_def filter_empty_conv stale)
  then show ?thesis
    using least_connections.pick_Some [OF inv, of now e] by (simp add: sel first_min_iff fresh)
qed

theorem least_connections_correct_witness:
  "selectLeastConnections Second sample_registry = Inr (Some (sample_entry ''b'' 2 1 []))"
proof -
  have "filter (\<lambda>x. time_sub Second (ne_lastSeen x) \<le> 15 * Second)
      (map (\<lambda>i. the (map_of (byID sample_registry) i)) (order sample_registry))
      = [sample_entry ''a'' 1 3 []] @ sample_entry ''b'' 2 1 [] # []"
    by (simp add: sample_simps time_sub_def)
  moreover have "\<forall>x \<in> set [sample_entry ''a'' 1 3 []].
      ne_activeRequests (sample_entry ''b'' 2 1 []) < ne_activeRequests x"
    by (simp add: sample_entry_def)
  moreover have "\<forall>x \<in> set []. ne_activeRequests (sample_entry ''b'' 2 1 []) \<le> ne_activeRequests x"
    by simp
  ultimately show ?thesis
    using least_connections_correct [OF sample_reachable, of Second "sample_entry ''b'' 2 1 []"] by blast
qed

text \<open>
  An accepted heartbeat registers its node with exactly the reported fields, retires the
  node's claim, and touches no other node, except that a different node last seen on the same
  pipe is retired.
\<close>
lemma upsert_registers:
  assumes "upsert pf now e r dbo = (r', dbo')"
  shows "(\<exists>s. map_of (byID r') (ne_id e) = Some (e\<lparr>ne_syncedCatalog := s\<rparr>)) \<and>
    map_of (claims_tbl r') = (map_of (claims_tbl r))(ne_id e := None) \<and>
    (\<forall>i. i \<noteq> ne_id e \<longrightarrow> map_of (byID r') i =
       (if \<exists>old. map_of (byPipe r) (ne_pipe e) = Some old \<and> ne_id old = i then None else map_of (byID r) i))"
proof -
  have r': "r' = fst (upsert pf now e r dbo)"
    using assms by simp
  have others: "map_of (byID r') i =
      (if \<exists>old. map_of (byPipe r) (ne_pipe e) = Some old \<and> ne_id old = i then None else map_of (byID r) i)"
    if "i \<noteq> ne_id e" for i
    unfolding r' upsert_others [OF that] by (auto split: option.splits)
  have "map_of (claims_tbl r') = (map_of (claims_tbl r))(ne_id e := None)"
    by (simp add: r')
  with others upsert_stored [of pf now e r dbo] show ?thesis
    unfolding r' by blast
qed

lemma upsert_registers_instance:
  "\<exists>r' dbo'. upsert no_faults 5 (sample_entry ''c'' 2 0 []) sample_registry None = (r', dbo') \<and>
     map_of (byID r') ''b'' = None \<and> map_of (byID r') ''c'' \<noteq> None"
proof -
  obtain r' dbo' where u: "upsert no_faults 5 (sample_entry ''c'' 2 0 []) sample_registry None = (r', dbo')"
    by fastforce
  have "\<exists>old. map_of (byPipe sample_registry) 2 = Some old \<and> ne_id old = ''b''"
    by (simp add: sample_simps)
  then show ?thesis
    using u upsert_registers [OF u] by (auto simp: sample_entry_def)
qed

text \<open>
  C30: the table of refused connection attempts never exceeds its bound: recording a claim drops
  the expired ones, keeps every other unexpired claim, except that a new name arriving at a full
  table displaces one claim, and that one is an oldest.
\<close>
theorem claims_bounded:
  assumes "reg_reachable stale r" "range_order ord" "range_order ord'" "nodeID \<noteq> ''''"
  shows "length (claims_tbl (recordClaim ord ord' now nodeID reason detail pipe r)) \<le> 64 \<and>
    (\<exists>victim. (victim = None \<or>
        (\<exists>v \<in> oldest_claims (fresh_claims now r). victim = Some v \<and> length (fresh_claims now r) = 64 \<and>
           map_of (fresh_claims now r) nodeID = None)) \<and>
      (\<forall>i. map_of (claims_tbl (recordClaim ord ord' now nodeID reason detail pipe r)) i =
        (if i = nodeID then Some \<lparr>ce_nodeID = nodeID, ce_pipe = pipe, ce_reason = reason, ce_detail = detail,
                                 ce_lastAttempt = now\<rparr>
         else if victim = Some i then None else map_of (fresh_claims now r) i)))"
proof -
  have inv: "claims_inv r"
    using reachable_inv [OF assms(1)] by simp
  define m where "m = fresh_claims now r"
  obtain V where eq: "claims_tbl (recordClaim ord ord' now nodeID reason detail pipe r) = AList.update nodeID
      \<lparr>ce_nodeID = nodeID, ce_pipe = pipe, ce_reason = reason, ce_detail = detail, ce_lastAttempt = now\<rparr> V"
    and V: "V = m \<or> (\<exists>v \<in> oldest_claims m. V = AList.delete v m \<and> map_of m nodeID = None \<and> length m = claimMaxEntries)"
    using recordClaim_effect [OF inv assms(2-4), where now = now and pipe = pipe and reason = reason and detail = detail]
    unfolding m_def by blast
  from V have "\<exists>victim. (victim = None \<or>
        (\<exists>v \<in> oldest_claims m. victim = Some v \<and> length m = 64 \<and> map_of m nodeID = None)) \<and>
      (\<forall>i. map_of V i = (if victim = Some i then None else map_of m i))"
  proof
    assume "V = m"
    then show ?thesis by (intro exI [of _ None]) simp
  next
    assume "\<exists>v \<in> oldest_claims m. V = AList.delete v m \<and> map_of m nodeID = None \<and> length m = claimMaxEntries"
    then obtain v where "v \<in> oldest_claims m" "V = AList.delete v m" "map_of m nodeID = None" "length m = 64"
      by (auto simp: claimMaxEntries_def)
    then show ?thesis by (intro exI [of _ "Some v"]) auto
  qed
  then obtain victim where victim: "victim = None \<or>
        (\<exists>v \<in> oldest_claims m. victim = Some v \<and> length m = 64 \<and> map_of m nodeID = None)"
      "\<forall>i. map_of V i = (if victim = Some i then None else map_of m i)"
    by blast
  have "length (claims_tbl (recordClaim ord ord' now nodeID reason detail pipe r)) \<le> 64"
    using claims_inv_recordClaim [OF inv assms(2,3), of now nodeID reason detail pipe]
    by (simp add: claims_inv_def claimMaxEntries_def)
  moreover note victim(1)
  moreover have "\<forall>i. map_of (claims_tbl (recordClaim ord ord' now nodeID reason detail pipe r)) i =
        (if i = nodeID then Some \<lparr>ce_nodeID = nodeID, ce_pipe = pipe, ce_reason = reason, ce_detail = detail,
                                 ce_lastAttempt = now\<rparr>
         else if victim = Some i then None else map_of m i)"
    using victim(2) by (simp add: eq)
  ultimately show ?thesis
    unfolding m_def by blast
qed

theorem claims_bounded_witness:
  "map_of (claims_tbl (recordClaim rev (\<lambda>m. m) 7 ''evil'' AckReasonAuthFailed ''d'' 9 sample_registry)) ''evil'' =
     Some \<lparr>ce_nodeID = ''evil'', ce_pipe = 9, ce_reason = AckReasonAuthFailed, ce_detail = ''d'', ce_lastAttempt = 7\<rparr>"
  using claims_bounded [OF sample_reachable, of rev "\<lambda>m. m" "''evil''" 7 AckReasonAuthFailed "''d''" 9] by auto

text \<open>
  C31: catalog persistence. Given that the registry's record of what it synced is right, it is
  right again after any accepted heartbeat, whichever statements fail; no other node's catalog
  rows change; the node's rows are either untouched or replaced as a whole by the reported
  catalog; and they are the reported catalog when nothing fails, the enrollment token exists
  and the reported names are distinct and not none.
\<close>
theorem catalog_persisted:
  assumes coh: "catalog_coherent r d" and fresh: "ne_syncedCatalog e = []"
    and ups: "upsert pf now e r (Some d) = (r', Some d')"
  shows "catalog_coherent r' d' \<and>
    (\<forall>n. n \<noteq> ne_id e \<longrightarrow> catalog_of d' n = catalog_of d n) \<and>
    catalog_of d' (ne_id e) \<in> {catalog_of d (ne_id e), ne_catalog e} \<and>
    (pf = no_faults \<and> ne_tokenID e \<in> et_id ` set (node_enrollment_tokens d) \<and>
       distinct (ne_catalog e) \<and> ne_catalog e \<noteq> [] \<longrightarrow> catalog_of d' (ne_id e) = ne_catalog e)"
proof -
  define e1 where "e1 = snd (upsert_locked e r)"
  have e1: "ne_id e1 = ne_id e" "ne_catalog e1 = ne_catalog e" "ne_tokenID e1 = ne_tokenID e"
    by (simp_all add: e1_def)
  have synced: "ne_syncedCatalog e1 = [] \<or> ne_syncedCatalog e1 = catalog_of d (ne_id e)"
    unfolding e1_def by (rule upsert_locked_synced [OF coh fresh])
  obtain e2 where p: "persist pf now e1 d = (d', e2)" and
    r': "map_of (byID r') = (map_of (byID (fst (upsert_locked e r))))(ne_id e \<mapsto> e2)"
    using ups by (auto simp: upsert_Some e1_def Let_def prod_eq_iff)
  note cases = persist_cases [OF p, unfolded e1]
  have others: "catalog_of d' n = catalog_of d n" if "n \<noteq> ne_id e" for n
    using cases that by auto
  have mine: "ne_syncedCatalog e2 = [] \<or> ne_syncedCatalog e2 = catalog_of d' (ne_id e)"
    using cases synced e1(2) by auto
  have "ne_syncedCatalog x = [] \<or> ne_syncedCatalog x = catalog_of d' i" if "map_of (byID r') i = Some x" for i x
  proof (cases "i = ne_id e")
    case True
    with that mine show ?thesis by (simp add: r')
  next
    case False
    with that have "map_of (byID r) i = Some x"
      by (auto simp: r' upsert_locked_byID split: option.splits if_splits)
    with coh others [OF False] show ?thesis
      by (simp add: catalog_coherent_def)
  qed
  then have "catalog_coherent r' d'"
    by (simp add: catalog_coherent_def)
  moreover have "catalog_of d' (ne_id e) \<in> {catalog_of d (ne_id e), ne_catalog e}"
    using cases by auto
  moreover have "catalog_of d' (ne_id e) = ne_catalog e"
    if "pf = no_faults" "ne_tokenID e \<in> et_id ` set (node_enrollment_tokens d)" "distinct (ne_catalog e)" "ne_catalog e \<noteq> []"
    using persist_syncs [of e1 d now] that synced p by (simp add: e1)
  ultimately show ?thesis
    using others by blast
qed

definition sample_node_db :: db where
  "sample_node_db = empty_db\<lparr>node_enrollment_tokens :=
     [\<lparr>et_id = ''t-a'', et_node_name = ''a'', et_status = ''active'', et_expires_at = None, et_created_at = 0\<rparr>]\<rparr>"

theorem catalog_persisted_witness:
  "\<exists>r' d'. upsert no_faults 3 (sample_entry ''a'' 1 0 [''x'', ''y'']) (newNodeRegistry 9) (Some sample_node_db) = (r', Some d') \<and>
     catalog_of d' ''a'' = [''x'', ''y'']"
proof -
  obtain r' d' where u: "upsert no_faults 3 (sample_entry ''a'' 1 0 [''x'', ''y'']) (newNodeRegistry 9) (Some sample_node_db)
      = (r', Some d')"
    by (auto simp: upsert_Some Let_def)
  have "catalog_coherent (newNodeRegistry 9) sample_node_db"
    by (simp add: catalog_coherent_def newNodeRegistry_def)
  then show ?thesis
    using u catalog_persisted [OF _ _ u] by (simp add: sample_entry_def sample_node_db_def)
qed

text \<open>
  The dashboard and the dispatcher agree on who can serve: no node is selected exactly when
  the node view at that moment shows every node as stale, and the views are the registered
  nodes in registration order.
\<close>
lemma dashboard_agrees_with_dispatch:
  assumes "reg_reachable stale r" "NodesSnapshot now r = Inr vs"
  shows "map nv_ID vs = order r \<and>
    (selectLeastConnections now r = Inr None \<longleftrightarrow> (\<forall>v \<in> set vs. nv_Status v = ''stale''))"
proof -
  have inv: "nodes_inv r"
    using reachable_inv [OF assms(1)] by simp
  have vs: "vs = map (node_view now (staleAfter r)) (entries r)"
    using assms(2) by (simp add: NodesSnapshot_def snapshot_eq [OF inv])
  have ids: "map nv_ID vs = order r"
    using entries_ids [OF inv] by (simp add: vs node_view_def comp_def)
  have "selectLeastConnections now r = Inr None \<longleftrightarrow> fresh_nodes now r = []"
    using least_connections.pick_None [OF inv, of now]
    by (auto simp: best_node_def selectLeastConnections_eq [OF inv])
  also have "\<dots> \<longleftrightarrow> (\<forall>v \<in> set vs. nv_Status v = ''stale'')"
    by (auto simp: fresh_nodes_def filter_empty_conv vs node_view_def not_le)
  finally show ?thesis
    using ids by simp
qed

lemma dashboard_agrees_with_dispatch_instance:
  "\<exists>vs. NodesSnapshot (16 * Second) sample_registry = Inr vs \<and> map nv_ID vs = [''a'', ''b''] \<and>
     (selectLeastConnections (16 * Second) sample_registry = Inr None \<longleftrightarrow> (\<forall>v \<in> set vs. nv_Status v = ''stale''))"
proof -
  obtain vs where vs: "NodesSnapshot (16 * Second) sample_registry = Inr vs"
    by (simp add: NodesSnapshot_def snapshot_def sample_simps)
  have "order sample_registry = [''a'', ''b'']"
    by (simp add: sample_simps)
  then show ?thesis
    using vs dashboard_agrees_with_dispatch [OF sample_reachable vs] by simp
qed

section \<open>Behaviours worth knowing\<close>

text \<open>
  The entry of a pipe a node has left is never removed: when another node is given that pipe id,
  the first node is dropped from the registry although it is alive on its new pipe.
\<close>

lemma stale_pipe_evicts_live_node:
  "let r1 = fst (upsert no_faults 0 (sample_entry ''a'' 1 0 []) (newNodeRegistry 9) None);
       r2 = fst (upsert no_faults 1 (sample_entry ''a'' 2 0 []) r1 None);
       r3 = fst (upsert no_faults 2 (sample_entry ''b'' 1 0 []) r2 None)
   in map_of (byID r2) ''a'' \<noteq> None \<and> map_of (byID r3) ''a'' = None"
  by (simp add: sample_simps)

text \<open>
  A worker that reports a model name twice never gets its catalog stored: the unique index makes
  every sync roll back.
\<close>

lemma duplicate_catalog_never_synced:
  "\<not> distinct (ne_catalog e) \<Longrightarrow> catalog_of (fst (persist pf now e d)) n = catalog_of d n"
  using persist_cases [of pf now e d "fst (persist pf now e d)" "snd (persist pf now e d)"] by auto

end
