(* ===== verification/AuditLog.thy ===== *)
theory AuditLog
  imports Tables
begin

text \<open>
  The audit log of \<open>src/internal/audit/repo.go\<close>: the asynchronous writer of request entries (a
  buffered channel, a background goroutine that batches and flushes) as a step relation over
  its interleavings with \<open>Record\<close>, the transactional batch insert, the two queries, and the
  synchronous admin events.
\<close>

section \<open>Entries and rows\<close>

record Entry =
  en_APIKeyID :: string
  en_NodeID :: string
  en_ModelRequested :: string
  en_ModelServed :: string
  en_PromptTokens :: int
  en_CompletionTokens :: int
  en_TTFTMs :: int
  en_TotalDurationMs :: int
  en_WasStreamed :: bool
  en_WasModelSwapped :: bool
  en_StatusCode :: int
  en_CreatedAt :: time

text \<open>Go's zero time, what an entry carries before the database stamps it.\<close>

definition zero_time :: time where "zero_time = 0"

definition nullable :: "string \<Rightarrow> string option" where
  "nullable s = (if s = '''' then None else Some s)"

definition nullableInt :: "int \<Rightarrow> int option" where
  "nullableInt n = (if n = 0 then None else Some n)"

definition null_string :: "string option \<Rightarrow> string" where
  "null_string v = (case v of None \<Rightarrow> '''' | Some s \<Rightarrow> s)"

definition null_int :: "int option \<Rightarrow> int" where
  "null_int v = (case v of None \<Rightarrow> 0 | Some n \<Rightarrow> n)"

text \<open>The row an \<open>INSERT\<close> of an entry makes; the id is the table's, the time the database's.\<close>

definition entry_row :: "time \<Rightarrow> Entry \<Rightarrow> audit_row" where
  "entry_row now e =
     \<lparr>au_id = 0, au_api_key_id = nullable (en_APIKeyID e), au_node_id = nullable (en_NodeID e),
      au_model_requested = en_ModelRequested e, au_model_served = en_ModelServed e,
      au_prompt_tokens = en_PromptTokens e, au_completion_tokens = en_CompletionTokens e,
      au_ttft_ms = nullableInt (en_TTFTMs e), au_total_duration_ms = nullableInt (en_TotalDurationMs e),
      au_was_streamed = en_WasStreamed e, au_was_model_swapped = en_WasModelSwapped e,
      au_status_code = en_StatusCode e, au_created_at = now\<rparr>"

text \<open>What \<open>Recent\<close> scans back.\<close>

definition scan_entry :: "audit_row \<Rightarrow> Entry" where
  "scan_entry r =
     \<lparr>en_APIKeyID = null_string (au_api_key_id r), en_NodeID = null_string (au_node_id r),
      en_ModelRequested = au_model_requested r, en_ModelServed = au_model_served r,
      en_PromptTokens = au_prompt_tokens r, en_CompletionTokens = au_completion_tokens r,
      en_TTFTMs = null_int (au_ttft_ms r), en_TotalDurationMs = null_int (au_total_duration_ms r),
      en_WasStreamed = au_was_streamed r, en_WasModelSwapped = au_was_model_swapped r,
      en_StatusCode = au_status_code r, en_CreatedAt = au_created_at r\<rparr>"

datatype audit_err =
  BeginErr string | PrepareErr string | ExecErr sql_err | CommitErr string | QueryErr string | IterErr string

section \<open>The batch insert\<close>

record batch_faults =
  bf_begin :: "string option"
  bf_prepare :: "string option"
  bf_exec :: "nat \<Rightarrow> string option"
  bf_commit :: "string option"

definition no_batch_faults :: batch_faults where
  "no_batch_faults = \<lparr>bf_begin = None, bf_prepare = None, bf_exec = (\<lambda>_. None), bf_commit = None\<rparr>"

text \<open>
  One \<open>INSERT\<close> per entry, from the \<open>i\<close>-th on; \<open>f\<close> has the faults and \<open>nows\<close> the database's clock at
  each statement, which the \<open>created_at\<close> column defaults to.
\<close>

fun exec_entries :: "(nat \<Rightarrow> string option) \<Rightarrow> nat \<Rightarrow> (nat \<Rightarrow> time) \<Rightarrow> Entry list \<Rightarrow> db \<Rightarrow> sql_err + db" where
  "exec_entries f i nows [] d = Inr d"
| "exec_entries f i nows (e # es) d =
     (case insert_audit (f i) (entry_row (nows i) e) d of
        Inl err \<Rightarrow> Inl err
      | Inr d' \<Rightarrow> exec_entries f (Suc i) nows es d')"

definition insertBatch :: "batch_faults \<Rightarrow> (nat \<Rightarrow> time) \<Rightarrow> Entry list \<Rightarrow> db \<Rightarrow> audit_err option \<times> db" where
  "insertBatch bf nows batch d =
     (case bf_begin bf of
        Some m \<Rightarrow> (Some (BeginErr m), d)
      | None \<Rightarrow>
        (case bf_prepare bf of
           Some m \<Rightarrow> (Some (PrepareErr m), d)
         | None \<Rightarrow>
           (case exec_entries (bf_exec bf) 0 nows batch d of
              Inl err \<Rightarrow> (Some (ExecErr err), d)
            | Inr d' \<Rightarrow>
              (case bf_commit bf of
                 Some m \<Rightarrow> (Some (CommitErr m), d)
               | None \<Rightarrow> (None, d')))))"

section \<open>The writer\<close>

datatype phase = Running | Draining | Stopped

record repo =
  rp_ch :: "Entry chan"
  rp_batch :: "Entry list"
  rp_phase :: phase
  rp_db :: db

definition batchSize :: nat where "batchSize = 64"

definition NewRepo :: "db \<Rightarrow> nat \<Rightarrow> repo" where
  "NewRepo d buffer = \<lparr>rp_ch = make_chan buffer, rp_batch = [], rp_phase = Running, rp_db = d\<rparr>"

text \<open>What one step does to the outside: an entry accepted or dropped, a batch written or lost.\<close>

datatype repo_event =
  Accepted Entry | Dropped Entry | Quiet | Flushed "Entry list" | FlushFailed "Entry list"

definition Record_ch :: "Entry \<Rightarrow> Entry chan \<Rightarrow> repo_event \<times> Entry chan" where
  "Record_ch e ch =
     (case chan_try_send e ch of (ch', ok) \<Rightarrow> if ok then (Accepted e, ch') else (Dropped e, ch))"

definition Record :: "Entry \<Rightarrow> repo \<Rightarrow> repo_event \<times> repo" where
  "Record e r = (let (ev, ch) = Record_ch e (rp_ch r) in (ev, r\<lparr>rp_ch := ch\<rparr>))"

definition flush :: "batch_faults \<Rightarrow> (nat \<Rightarrow> time) \<Rightarrow> repo \<Rightarrow> repo_event \<times> repo" where
  "flush bf nows r =
     (if rp_batch r = [] then (Quiet, r)
      else
        let (err, d) = insertBatch bf nows (rp_batch r) (rp_db r)
        in (if err = None then Flushed (rp_batch r) else FlushFailed (rp_batch r),
            r\<lparr>rp_batch := [], rp_db := d\<rparr>))"

text \<open>The \<open>case e := <-r.ch\<close> of the main loop.\<close>

definition on_entry :: "batch_faults \<Rightarrow> (nat \<Rightarrow> time) \<Rightarrow> repo \<Rightarrow> (repo_event \<times> repo) option" where
  "on_entry bf nows r =
     (case chan_try_recv (rp_ch r) of
        None \<Rightarrow> None
      | Some (e, ch) \<Rightarrow>
          let r' = r\<lparr>rp_ch := ch, rp_batch := rp_batch r @ [e]\<rparr>
          in Some (if batchSize \<le> length (rp_batch r') then flush bf nows r' else (Quiet, r')))"

text \<open>One iteration of the drain loop after the context was cancelled.\<close>

definition on_drain :: "batch_faults \<Rightarrow> (nat \<Rightarrow> time) \<Rightarrow> repo \<Rightarrow> repo_event \<times> repo" where
  "on_drain bf nows r =
     (case chan_try_recv (rp_ch r) of
        Some (e, ch) \<Rightarrow> (Quiet, r\<lparr>rp_ch := ch, rp_batch := rp_batch r @ [e]\<rparr>)
      | None \<Rightarrow> let (ev, r') = flush bf nows r in (ev, r'\<lparr>rp_phase := Stopped\<rparr>))"

text \<open>
  The steps of the goroutine's \<open>select\<close>, interleaved with calls of \<open>Record\<close> from the request
  handlers at any point.
\<close>

inductive repo_step :: "repo \<Rightarrow> repo_event \<Rightarrow> repo \<Rightarrow> bool" where
  recorded: "Record e r = (ev, r') \<Longrightarrow> repo_step r ev r'"
| entry: "rp_phase r = Running \<Longrightarrow> on_entry bf nows r = Some (ev, r') \<Longrightarrow> repo_step r ev r'"
| tick: "rp_phase r = Running \<Longrightarrow> flush bf nows r = (ev, r') \<Longrightarrow> repo_step r ev r'"
| cancel: "rp_phase r = Running \<Longrightarrow> repo_step r Quiet (r\<lparr>rp_phase := Draining\<rparr>)"
| drain: "rp_phase r = Draining \<Longrightarrow> on_drain bf nows r = (ev, r') \<Longrightarrow> repo_step r ev r'"

inductive repo_run :: "repo \<Rightarrow> repo_event list \<Rightarrow> repo \<Rightarrow> bool" where
  nil: "repo_run r [] r"
| snoc: "repo_run r evs r' \<Longrightarrow> repo_step r' ev r'' \<Longrightarrow> repo_run r (evs @ [ev]) r''"

section \<open>Queries\<close>

definition effective_limit :: "int \<Rightarrow> nat" where
  "effective_limit limit = nat (if limit \<le> 0 then 50 else limit)"

text \<open>\<open>q_fault\<close> fails the query, \<open>it_fault\<close> its iteration.\<close>

definition Recent :: "string option \<Rightarrow> string option \<Rightarrow> int \<Rightarrow> string \<Rightarrow> db \<Rightarrow> audit_err + Entry list" where
  "Recent q_fault it_fault limit nodeID d =
     (case q_fault of
        Some m \<Rightarrow> Inl (QueryErr m)
      | None \<Rightarrow>
        (case it_fault of
           Some m \<Rightarrow> Inl (IterErr m)
         | None \<Rightarrow>
             let rows = (if nodeID = '''' then request_audit_logs d
                         else filter (\<lambda>r. au_node_id r = Some nodeID) (request_audit_logs d))
             in Inr (map scan_entry (take (effective_limit limit) (rev (sort_key au_id rows))))))"

record AdminEvent =
  ae_ID :: nat
  ae_Event :: string
  ae_APIKeyID :: string
  ae_RemoteIP :: string
  ae_StatusCode :: int
  ae_Detail :: string
  ae_CreatedAt :: time

definition RecordAdminEvent :: "string option \<Rightarrow> time \<Rightarrow> AdminEvent \<Rightarrow> db \<Rightarrow> sql_err + db" where
  "RecordAdminEvent fault now e d =
     insert_admin_event fault
       \<lparr>ad_id = 0, ad_event = ae_Event e, ad_api_key_id = nullable (ae_APIKeyID e),
        ad_remote_ip = nullable (ae_RemoteIP e), ad_status_code = ae_StatusCode e,
        ad_detail = nullable (ae_Detail e), ad_created_at = now\<rparr> d"

definition scan_admin :: "admin_row \<Rightarrow> AdminEvent" where
  "scan_admin r =
     \<lparr>ae_ID = ad_id r, ae_Event = ad_event r, ae_APIKeyID = null_string (ad_api_key_id r),
      ae_RemoteIP = null_string (ad_remote_ip r), ae_StatusCode = ad_status_code r,
      ae_Detail = null_string (ad_detail r), ae_CreatedAt = ad_created_at r\<rparr>"

definition RecentAdminEvents :: "string option \<Rightarrow> string option \<Rightarrow> int \<Rightarrow> db \<Rightarrow> audit_err + AdminEvent list" where
  "RecentAdminEvents q_fault it_fault limit d =
     (case q_fault of
        Some m \<Rightarrow> Inl (QueryErr m)
      | None \<Rightarrow>
        (case it_fault of
           Some m \<Rightarrow> Inl (IterErr m)
         | None \<Rightarrow>
             Inr (map scan_admin (take (effective_limit limit) (rev (sort_key ad_id (admin_audit_logs d)))))))"

section \<open>The table of request entries\<close>

text \<open>The ids a database has given out are increasing and below its counter.\<close>

definition audit_ids_ok :: "db \<Rightarrow> bool" where
  "audit_ids_ok d \<longleftrightarrow> sorted_wrt (<) (map au_id (request_audit_logs d)) \<and>
     (\<forall>r \<in> set (request_audit_logs d). au_id r \<le> audit_seq d)"

lemma nullable_null_string [simp]: "null_string (nullable s) = s"
  by (simp add: nullable_def null_string_def)

lemma nullableInt_null_int [simp]: "null_int (nullableInt n) = n"
  by (simp add: nullableInt_def null_int_def)

lemma scan_entry_row [simp]:
  "scan_entry ((entry_row now e)\<lparr>au_id := i\<rparr>) = e\<lparr>en_CreatedAt := now\<rparr>"
  by (simp add: scan_entry_def entry_row_def)

fun numbered :: "nat \<Rightarrow> audit_row list \<Rightarrow> audit_row list" where
  "numbered i [] = []"
| "numbered i (r # rs) = r\<lparr>au_id := i\<rparr> # numbered (Suc i) rs"

lemma length_numbered [simp]: "length (numbered i rs) = length rs"
  by (induction rs arbitrary: i) simp_all

text \<open>The rows of a batch whose first entry is the \<open>k\<close>-th statement.\<close>

definition entry_rows :: "(nat \<Rightarrow> time) \<Rightarrow> nat \<Rightarrow> Entry list \<Rightarrow> audit_row list" where
  "entry_rows nows k es = map (\<lambda>(j, e). entry_row (nows j) e) (enumerate k es)"

lemma length_entry_rows [simp]: "length (entry_rows nows k es) = length es"
  by (simp add: entry_rows_def)

lemma entry_rows_simps [simp]:
  "entry_rows nows k [] = []" "entry_rows nows k (e # es) = entry_row (nows k) e # entry_rows nows (Suc k) es"
  by (simp_all add: entry_rows_def)

lemma map_scan_numbered [simp]:
  "map scan_entry (numbered i (entry_rows nows k es)) = map (\<lambda>(j, e). e\<lparr>en_CreatedAt := nows j\<rparr>) (enumerate k es)"
  by (induction es arbitrary: i k) simp_all

lemma numbered_node [simp]:
  "map au_node_id (numbered i rs) = map au_node_id rs"
  by (induction rs arbitrary: i) simp_all

lemma numbered_ids: "map au_id (numbered i rs) = [i ..< i + length rs]"
  by (induction rs arbitrary: i) (simp_all add: upt_rec)

lemma insert_audit_InrD:
  assumes "insert_audit f r d = Inr d'"
  shows "d' = d\<lparr>request_audit_logs := request_audit_logs d @ [r\<lparr>au_id := Suc (audit_seq d)\<rparr>],
                audit_seq := Suc (audit_seq d)\<rparr>"
  using assms by (auto simp: insert_audit_def split: option.splits if_splits)

lemma exec_entries_InrD:
  "exec_entries f i nows es d = Inr d' \<Longrightarrow>
   d' = d\<lparr>request_audit_logs := request_audit_logs d @ numbered (Suc (audit_seq d)) (entry_rows nows i es),
          audit_seq := audit_seq d + length es\<rparr>"
  by (induction f i nows es d rule: exec_entries.induct) (auto split: sum.splits dest!: insert_audit_InrD)

text \<open>Whether an entry's references exist.\<close>

definition entry_refs_ok :: "db \<Rightarrow> Entry \<Rightarrow> bool" where
  "entry_refs_ok d e \<longleftrightarrow> fk_ok (nullable (en_APIKeyID e)) (ak_id ` set (api_keys d)) \<and>
     fk_ok (nullable (en_NodeID e)) (nd_id ` set (nodes d))"

lemma exec_entries_ok_iff:
  "\<forall>j. f j = None \<Longrightarrow> (\<exists>d'. exec_entries f i nows es d = Inr d') \<longleftrightarrow> (\<forall>e \<in> set es. entry_refs_ok d e)"
proof (induction es arbitrary: i d)
  case (Cons e es)
  show ?case
  proof (cases "entry_refs_ok d e")
    case True
    then obtain d1 where d1: "insert_audit None (entry_row (nows i) e) d = Inr d1"
      by (simp add: insert_audit_def entry_refs_ok_def entry_row_def)
    have "entry_refs_ok d1 = entry_refs_ok d"
      by (simp add: insert_audit_InrD [OF d1] entry_refs_ok_def fun_eq_iff)
    with Cons d1 True show ?thesis by simp
  next
    case False
    then have "insert_audit None (entry_row (nows i) e) d = Inl ErrForeignKey"
      by (simp add: insert_audit_def entry_refs_ok_def entry_row_def)
    with Cons.prems False show ?thesis by simp
  qed
qed simp

lemma insertBatch_cases:
  "insertBatch bf nows es d = (err, d') \<Longrightarrow>
   (err \<noteq> None \<and> d' = d) \<or>
   (err = None \<and>
    d' = d\<lparr>request_audit_logs := request_audit_logs d @ numbered (Suc (audit_seq d)) (entry_rows nows 0 es),
           audit_seq := audit_seq d + length es\<rparr>)"
  by (auto simp: insertBatch_def split: option.splits sum.splits dest!: exec_entries_InrD)

lemma sorted_wrt_numbered: "sorted_wrt (<) (map au_id (numbered i rs))"
  by (simp add: numbered_ids)

lemma audit_ids_ok_append:
  assumes "audit_ids_ok d"
  shows "audit_ids_ok (d\<lparr>request_audit_logs := request_audit_logs d @ numbered (Suc (audit_seq d)) rs,
           audit_seq := audit_seq d + length rs\<rparr>)"
proof -
  have new: "au_id r \<in> {Suc (audit_seq d) ..< Suc (audit_seq d) + length rs}"
    if "r \<in> set (numbered (Suc (audit_seq d)) rs)" for r
    using that numbered_ids [of "Suc (audit_seq d)" rs] by (metis atLeastLessThan_upt image_eqI set_map)
  then show ?thesis
    using assms sorted_wrt_numbered [of "Suc (audit_seq d)" rs]
    by (fastforce simp: audit_ids_ok_def sorted_wrt_append)
qed

lemma sort_key_increasing: "sorted_wrt (<) (map f rs) \<Longrightarrow> sort_key f rs = rs" for f :: "_ \<Rightarrow> nat"
  by (rule sort_key_id_if_sorted) (simp add: strict_sorted_imp_sorted)

lemma sort_key_audit: "audit_ids_ok d \<Longrightarrow> sort_key au_id (filter P (request_audit_logs d)) = filter P (request_audit_logs d)"
  by (rule sort_key_increasing) (simp add: audit_ids_ok_def sorted_wrt_map sorted_wrt_filter)

section \<open>Bookkeeping of a run\<close>

fun accepted :: "repo_event list \<Rightarrow> Entry list" where
  "accepted [] = []"
| "accepted (Accepted e # evs) = e # accepted evs"
| "accepted (_ # evs) = accepted evs"

fun attempted :: "repo_event list \<Rightarrow> Entry list" where
  "attempted [] = []"
| "attempted (Flushed es # evs) = es @ attempted evs"
| "attempted (FlushFailed es # evs) = es @ attempted evs"
| "attempted (_ # evs) = attempted evs"

fun written :: "repo_event list \<Rightarrow> Entry list" where
  "written [] = []"
| "written (Flushed es # evs) = es @ written evs"
| "written (_ # evs) = written evs"

lemma accepted_append [simp]: "accepted (xs @ ys) = accepted xs @ accepted ys"
  by (induction xs rule: accepted.induct) simp_all

lemma attempted_append [simp]: "attempted (xs @ ys) = attempted xs @ attempted ys"
  by (induction xs rule: attempted.induct) simp_all

lemma written_append [simp]: "written (xs @ ys) = written xs @ written ys"
  by (induction xs rule: written.induct) simp_all

text \<open>An entry as it was recorded, its creation time left out.\<close>

definition unstamped :: "Entry \<Rightarrow> Entry" where
  "unstamped e = e\<lparr>en_CreatedAt := zero_time\<rparr>"

lemma unstamped_stamped [simp]: "unstamped (e\<lparr>en_CreatedAt := t\<rparr>) = unstamped e"
  by (simp add: unstamped_def)

definition repo_inv :: "repo \<Rightarrow> repo_event list \<Rightarrow> repo \<Rightarrow> bool" where
  "repo_inv r0 evs r \<longleftrightarrow>
     accepted evs = attempted evs @ rp_batch r @ chan_buf (rp_ch r) \<and>
     map (unstamped \<circ> scan_entry) (request_audit_logs (rp_db r)) =
       map (unstamped \<circ> scan_entry) (request_audit_logs (rp_db r0)) @ map unstamped (written evs) \<and>
     audit_ids_ok (rp_db r) \<and>
     chan_ok (rp_ch r) \<and> chan_cap (rp_ch r) = chan_cap (rp_ch r0) \<and>
     (rp_phase r = Running \<longrightarrow> length (rp_batch r) < batchSize) \<and> (rp_phase r = Stopped \<longrightarrow> rp_batch r = [])"

definition repo_core :: "repo \<Rightarrow> repo_event list \<Rightarrow> repo \<Rightarrow> bool" where
  "repo_core r0 evs r \<longleftrightarrow>
     accepted evs = attempted evs @ rp_batch r @ chan_buf (rp_ch r) \<and>
     map (unstamped \<circ> scan_entry) (request_audit_logs (rp_db r)) =
       map (unstamped \<circ> scan_entry) (request_audit_logs (rp_db r0)) @ map unstamped (written evs) \<and>
     audit_ids_ok (rp_db r) \<and> chan_ok (rp_ch r) \<and> chan_cap (rp_ch r) = chan_cap (rp_ch r0)"

lemma repo_inv_core:
  "repo_inv r0 evs r \<longleftrightarrow> repo_core r0 evs r \<and>
     (rp_phase r = Running \<longrightarrow> length (rp_batch r) < batchSize) \<and> (rp_phase r = Stopped \<longrightarrow> rp_batch r = [])"
  by (simp add: repo_inv_def repo_core_def)

lemma map_unstamped_numbered [simp]:
  "map (unstamped \<circ> scan_entry) (numbered i (entry_rows nows k es)) = map unstamped es"
  by (induction es arbitrary: i k) simp_all

lemma flush_effect:
  assumes "flush bf nows r = (ev, r')"
  shows "rp_ch r' = rp_ch r \<and> rp_phase r' = rp_phase r \<and> rp_batch r' = [] \<and>
    accepted [ev] = [] \<and> attempted [ev] = rp_batch r \<and>
    (repo_core r0 evs r \<longrightarrow> repo_core r0 (evs @ [ev]) r')"
proof (cases "rp_batch r = []")
  case True
  then show ?thesis
    using assms by (auto simp: flush_def repo_core_def)
next
  case False
  obtain err d where ib: "insertBatch bf nows (rp_batch r) (rp_db r) = (err, d)"
    by fastforce
  from insertBatch_cases [OF ib] show ?thesis
  proof (elim disjE conjE)
    assume "err \<noteq> None" "d = rp_db r"
    then show ?thesis
      using assms False by (auto simp: flush_def repo_core_def ib)
  next
    assume none: "err = None" and d: "d = rp_db r\<lparr>request_audit_logs := request_audit_logs (rp_db r) @
        numbered (Suc (audit_seq (rp_db r))) (entry_rows nows 0 (rp_batch r)),
        audit_seq := audit_seq (rp_db r) + length (rp_batch r)\<rparr>"
    have ev: "ev = Flushed (rp_batch r)" "r' = r\<lparr>rp_batch := [], rp_db := d\<rparr>"
      using assms False none by (auto simp: flush_def ib)
    have "audit_ids_ok d" if "audit_ids_ok (rp_db r)"
      using audit_ids_ok_append [OF that, of "entry_rows nows 0 (rp_batch r)"] by (simp add: d)
    then show ?thesis
      by (simp add: ev repo_core_def) (simp add: d)
  qed
qed

lemma Record_effect:
  assumes "Record e r = (ev, r')"
  shows "rp_batch r' = rp_batch r \<and> rp_phase r' = rp_phase r \<and>
    (repo_core r0 evs r \<longrightarrow> repo_core r0 (evs @ [ev]) r')"
  using assms
  by (auto simp: Record_def Record_ch_def repo_core_def chan_try_send_def chan_ok_def Let_def split: if_splits)

text \<open>Moving one entry from the channel to the batch.\<close>

lemma receive_core:
  assumes "chan_try_recv (rp_ch r) = Some (e, ch)" "repo_core r0 evs r"
  shows "repo_core r0 (evs @ [Quiet]) (r\<lparr>rp_ch := ch, rp_batch := rp_batch r @ [e]\<rparr>)"
  using assms chan.recv_head [OF assms(1)] by (auto simp: repo_core_def chan_ok_def)

lemma core_Quiet: "repo_core r0 (evs @ [Quiet]) r = repo_core r0 evs r"
  by (simp add: repo_core_def)

lemma repo_inv_step:
  assumes "repo_step r ev r'" "repo_inv r0 evs r"
  shows "repo_inv r0 (evs @ [ev]) r'"
  using assms
proof (induction rule: repo_step.induct)
  case (recorded e r ev r')
  then show ?case
    using Record_effect [OF recorded(1), of r0 evs] by (simp add: repo_inv_core)
next
  case (entry r bf nows ev r')
  then obtain e ch where recv: "chan_try_recv (rp_ch r) = Some (e, ch)"
    by (auto simp: on_entry_def split: option.splits)
  define r1 where "r1 = r\<lparr>rp_ch := ch, rp_batch := rp_batch r @ [e]\<rparr>"
  have core: "repo_core r0 evs r1"
    using receive_core [OF recv, of r0 evs] entry.prems by (simp add: core_Quiet repo_inv_core r1_def)
  have phase: "rp_phase r1 = Running"
    using entry.hyps(1) by (simp add: r1_def)
  have res: "(if batchSize \<le> length (rp_batch r1) then flush bf nows r1 else (Quiet, r1)) = (ev, r')"
    using entry.hyps(2) unfolding on_entry_def recv r1_def by (simp only: option.case prod.case Let_def option.inject)
  show ?case
  proof (cases "batchSize \<le> length (rp_batch r1)")
    case True
    then have f: "flush bf nows r1 = (ev, r')" using res by simp
    show ?thesis
      using flush_effect [OF f, of r0 evs] core phase by (simp add: repo_inv_core batchSize_def)
  next
    case False
    then show ?thesis
      using res core phase by (auto simp: repo_inv_core core_Quiet)
  qed
next
  case (tick r bf nows ev r')
  then show ?case
    using flush_effect [OF tick.hyps(2), of r0 evs] by (simp add: repo_inv_core batchSize_def)
next
  case (cancel r)
  then show ?case
    by (simp add: repo_inv_core core_Quiet) (simp add: repo_core_def)
next
  case (drain r bf nows ev r')
  show ?case
  proof (cases "chan_try_recv (rp_ch r)")
    case None
    obtain r1 where f: "flush bf nows r = (ev, r1)" "r' = r1\<lparr>rp_phase := Stopped\<rparr>"
      using drain.hyps(2) None by (auto simp: on_drain_def Let_def split: prod.splits)
    show ?thesis
      using flush_effect [OF f(1), of r0 evs] drain.prems f(2) by (simp add: repo_inv_core) (simp add: repo_core_def)
  next
    case (Some p)
    obtain e ch where p: "p = (e, ch)" by (cases p)
    have "ev = Quiet" "r' = r\<lparr>rp_ch := ch, rp_batch := rp_batch r @ [e]\<rparr>"
      using drain.hyps(2) Some p by (auto simp: on_drain_def)
    then show ?thesis
      using receive_core [of r e ch r0 evs] Some p drain by (simp add: repo_inv_core)
  qed
qed

lemma repo_inv_run: "repo_run r0 evs r \<Longrightarrow> repo_inv r0 [] r0 \<Longrightarrow> repo_inv r0 evs r"
  by (induction rule: repo_run.induct) (simp_all add: repo_inv_step)

lemma repo_inv_NewRepo: "audit_ids_ok d \<Longrightarrow> repo_inv (NewRepo d n) [] (NewRepo d n)"
  by (simp add: repo_inv_def NewRepo_def batchSize_def chan_ok_def make_chan_def)

text \<open>
  The drain loop comes to an end: after a cancellation, as many iterations as the channel
  holds entries and one more reach the stopped state.
\<close>

lemma drain_run:
  assumes "rp_phase r = Draining" "repo_run r0 evs r"
  shows "\<exists>evs' r'. repo_run r0 (evs @ evs') r' \<and> length evs' = Suc (length (chan_buf (rp_ch r))) \<and>
    rp_phase r' = Stopped \<and> chan_buf (rp_ch r') = [] \<and> accepted evs' = []"
  using assms
proof (induction "chan_buf (rp_ch r)" arbitrary: r evs)
  case Nil
  then have "chan_try_recv (rp_ch r) = None"
    using chan.recv_empty [of "rp_ch r"] by simp
  then obtain ev r1 where f: "flush no_batch_faults (\<lambda>_. 0) r = (ev, r1)"
    and d: "on_drain no_batch_faults (\<lambda>_. 0) r = (ev, r1\<lparr>rp_phase := Stopped\<rparr>)"
    by (cases "flush no_batch_faults (\<lambda>_. 0) r") (simp add: on_drain_def)
  have "repo_run r0 (evs @ [ev]) (r1\<lparr>rp_phase := Stopped\<rparr>)"
    using Nil.prems d by (blast intro: repo_run.snoc repo_step.drain)
  moreover have "rp_ch r1 = rp_ch r" "accepted [ev] = []"
    using flush_effect [OF f] by simp_all
  ultimately show ?case
    using Nil.hyps by (intro exI [of _ "[ev]"] exI [of _ "r1\<lparr>rp_phase := Stopped\<rparr>"]) simp
next
  case (Cons e es)
  have recv: "chan_try_recv (rp_ch r) = Some (e, (rp_ch r)\<lparr>chan_buf := es\<rparr>)"
    by (simp add: chan_try_recv_def flip: Cons.hyps(2))
  define r1 where "r1 = r\<lparr>rp_ch := (rp_ch r)\<lparr>chan_buf := es\<rparr>, rp_batch := rp_batch r @ [e]\<rparr>"
  have es: "es = chan_buf (rp_ch r1)"
    by (simp add: r1_def)
  have "on_drain no_batch_faults (\<lambda>_. 0) r = (Quiet, r1)"
    by (simp add: on_drain_def recv r1_def)
  then have "repo_run r0 (evs @ [Quiet]) r1"
    using Cons.prems by (blast intro: repo_run.snoc repo_step.drain)
  then obtain evs' r' where run: "repo_run r0 ((evs @ [Quiet]) @ evs') r'"
    and rest: "length evs' = Suc (length (chan_buf (rp_ch r1)))" "rp_phase r' = Stopped"
      "chan_buf (rp_ch r') = []" "accepted evs' = []"
    using Cons.hyps(1) [OF es, of "evs @ [Quiet]"] Cons.prems(1) by (auto simp: r1_def)
  have "repo_run r0 (evs @ Quiet # evs') r'"
    using run by simp
  moreover have "length (Quiet # evs') = Suc (length (chan_buf (rp_ch r)))"
    using rest(1) by (simp flip: es Cons.hyps(2))
  ultimately show ?case
    using rest(2-4) by (intro exI [of _ "Quiet # evs'"] exI [of _ r'] conjI) simp_all
qed

lemma attempted_written: "(\<forall>es. FlushFailed es \<notin> set evs) \<Longrightarrow> attempted evs = written evs"
  by (induction evs rule: attempted.induct) auto

text \<open>An entry is dropped only at a moment when the channel is full.\<close>

lemma Record_cases:
  "chan_ok (rp_ch r) \<Longrightarrow> Record e r =
     (if length (chan_buf (rp_ch r)) < chan_cap (rp_ch r)
      then (Accepted e, r\<lparr>rp_ch := (rp_ch r)\<lparr>chan_buf := chan_buf (rp_ch r) @ [e]\<rparr>\<rparr>) else (Dropped e, r))"
  by (simp add: Record_def Record_ch_def chan_try_send_def)

lemma repo_step_Dropped:
  assumes "repo_step r (Dropped e) r'" "chan_ok (rp_ch r)"
  shows "length (chan_buf (rp_ch r)) = chan_cap (rp_ch r)"
  using assms
  by cases (auto simp: Record_cases on_entry_def on_drain_def flush_def chan_ok_def Let_def split: option.splits prod.splits if_splits)

lemma dropped_when_full:
  assumes "repo_run (NewRepo d n) evs r" "audit_ids_ok d" "evs = pre @ Dropped e # post"
  shows "\<exists>r'. repo_run (NewRepo d n) pre r' \<and> length (chan_buf (rp_ch r')) = n"
  using assms
proof (induction "NewRepo d n" evs r arbitrary: post rule: repo_run.induct)
  case (snoc evs r' ev r'')
  show ?case
  proof (cases post rule: rev_cases)
    case Nil
    then have "repo_run (NewRepo d n) pre r'" "repo_step r' (Dropped e) r''"
      using snoc by auto
    moreover have "repo_inv (NewRepo d n) pre r'"
      using repo_inv_run [OF calculation(1) repo_inv_NewRepo [OF snoc.prems(1)]] .
    ultimately show ?thesis
      using repo_step_Dropped by (fastforce simp: repo_inv_def NewRepo_def make_chan_def)
  qed (use snoc in auto)
qed simp

section \<open>Properties\<close>

definition sample_audit :: "string \<Rightarrow> Entry" where
  "sample_audit model =
     \<lparr>en_APIKeyID = '''', en_NodeID = '''', en_ModelRequested = model, en_ModelServed = model,
      en_PromptTokens = 0, en_CompletionTokens = 0, en_TTFTMs = 0, en_TotalDurationMs = 12,
      en_WasStreamed = True, en_WasModelSwapped = False, en_StatusCode = 200, en_CreatedAt = zero_time\<rparr>"

lemma audit_ids_ok_empty [simp]: "audit_ids_ok empty_db"
  by (simp add: audit_ids_ok_def empty_db_def)

lemma sample_record_run:
  "repo_run (NewRepo empty_db 2) [Accepted (sample_audit ''m'')]
     (NewRepo empty_db 2\<lparr>rp_ch := \<lparr>chan_cap = 2, chan_buf = [sample_audit ''m'']\<rparr>\<rparr>)"
proof -
  have "Record (sample_audit ''m'') (NewRepo empty_db 2) =
      (Accepted (sample_audit ''m''), NewRepo empty_db 2\<lparr>rp_ch := \<lparr>chan_cap = 2, chan_buf = [sample_audit ''m'']\<rparr>\<rparr>)"
    by (simp add: Record_def Record_ch_def NewRepo_def make_chan_def chan_try_send_def)
  from repo_run.snoc [OF repo_run.nil repo_step.recorded [OF this]] show ?thesis by simp
qed

text \<open>
  A run in which the channel of depth one is full when the second entry comes: the first entry is
  accepted, received and flushed by the tick, the second dropped.
\<close>

lemma sample_drop_run:
  "\<exists>r. repo_run (NewRepo empty_db 1)
     [Accepted (sample_audit ''a''), Dropped (sample_audit ''b''), Quiet, Flushed [sample_audit ''a'']] r"
proof -
  let ?a = "sample_audit ''a''" and ?b = "sample_audit ''b''" and ?r0 = "NewRepo empty_db 1"
  let ?r1 = "?r0\<lparr>rp_ch := \<lparr>chan_cap = 1, chan_buf = [?a]\<rparr>\<rparr>" and ?r2 = "?r0\<lparr>rp_batch := [?a]\<rparr>"
  have s1: "repo_step ?r0 (Accepted ?a) ?r1" and s2: "repo_step ?r1 (Dropped ?b) ?r1"
    by (rule repo_step.recorded, simp add: Record_def Record_ch_def NewRepo_def make_chan_def chan_try_send_def)+
  have s3: "repo_step ?r1 Quiet ?r2"
    by (rule repo_step.entry [where bf = no_batch_faults and nows = "\<lambda>_. 0"])
      (simp_all add: on_entry_def NewRepo_def make_chan_def chan_try_recv_def batchSize_def Let_def)
  have "fst (insertBatch no_batch_faults (\<lambda>_. 0) [?a] empty_db) = None"
    by (simp add: insertBatch_def no_batch_faults_def insert_audit_def entry_row_def sample_audit_def
        nullable_def fk_ok_def empty_db_def)
  then obtain d3 where "insertBatch no_batch_faults (\<lambda>_. 0) [?a] empty_db = (None, d3)"
    by (metis prod.collapse)
  then obtain r3 where "flush no_batch_faults (\<lambda>_. 0) ?r2 = (Flushed [?a], r3)"
    by (simp add: flush_def NewRepo_def)
  then have s4: "repo_step ?r2 (Flushed [?a]) r3"
    by (rule repo_step.tick [rotated]) (simp add: NewRepo_def)
  show ?thesis
    using repo_run.snoc [OF repo_run.snoc [OF repo_run.snoc [OF repo_run.snoc [OF repo_run.nil s1] s2] s3] s4] by auto
qed

text \<open>
  C18: the audit log is a bounded queue in front of the table. In every interleaving of the
  writer with the request handlers, the entries accepted so far are, in order, those whose batch
  was handed to the database, those in the current batch and those in the channel; the table
  holds exactly the successfully written ones after what it held before; while the writer runs
  the batch stays below its size and the channel within its depth; and when no batch failed
  the table has grown by a prefix of the accepted entries. An entry is lost before it reaches the
  writer only by \<open>Record\<close>'s backpressure: \<open>Record\<close> accepts exactly when fewer entries wait than the
  channel is deep and otherwise changes nothing, and whenever an entry was dropped in the run the
  channel was full at that moment.
\<close>
theorem audit_log_fifo:
  assumes "audit_ids_ok d" "repo_run (NewRepo d n) evs r"
  shows "accepted evs = attempted evs @ rp_batch r @ chan_buf (rp_ch r) \<and>
    map (unstamped \<circ> scan_entry) (request_audit_logs (rp_db r)) =
      map (unstamped \<circ> scan_entry) (request_audit_logs d) @ map unstamped (written evs) \<and>
    (rp_phase r = Running \<longrightarrow> length (rp_batch r) < 64) \<and> length (chan_buf (rp_ch r)) \<le> n \<and>
    ((\<forall>es. FlushFailed es \<notin> set evs) \<longrightarrow> accepted evs = written evs @ rp_batch r @ chan_buf (rp_ch r)) \<and>
    (\<forall>e. Record e r =
       (if length (chan_buf (rp_ch r)) < n
        then (Accepted e, r\<lparr>rp_ch := (rp_ch r)\<lparr>chan_buf := chan_buf (rp_ch r) @ [e]\<rparr>\<rparr>) else (Dropped e, r))) \<and>
    (\<forall>pre e post. evs = pre @ Dropped e # post \<longrightarrow>
       (\<exists>r'. repo_run (NewRepo d n) pre r' \<and> length (chan_buf (rp_ch r')) = n))"
proof -
  have inv: "repo_inv (NewRepo d n) evs r"
    using repo_inv_run [OF assms(2) repo_inv_NewRepo [OF assms(1)]] .
  then have cap: "chan_cap (rp_ch r) = n" "chan_ok (rp_ch r)"
    by (auto simp: repo_inv_def NewRepo_def make_chan_def)
  show ?thesis
  proof (intro conjI allI)
    show "Record e r = (if length (chan_buf (rp_ch r)) < n
        then (Accepted e, r\<lparr>rp_ch := (rp_ch r)\<lparr>chan_buf := chan_buf (rp_ch r) @ [e]\<rparr>\<rparr>) else (Dropped e, r))" for e
      using Record_cases [OF cap(2)] cap(1) by simp
    show "evs = pre @ Dropped e # post \<longrightarrow>
        (\<exists>r'. repo_run (NewRepo d n) pre r' \<and> length (chan_buf (rp_ch r')) = n)" for pre e post
      using dropped_when_full [OF assms(2,1)] by blast
  qed (use inv attempted_written [of evs] cap in
    \<open>auto simp: repo_inv_def NewRepo_def batchSize_def chan_ok_def\<close>)
qed

theorem audit_log_fifo_witness:
  "\<exists>r. repo_run (NewRepo empty_db 1)
       [Accepted (sample_audit ''a''), Dropped (sample_audit ''b''), Quiet, Flushed [sample_audit ''a'']] r \<and>
     map (unstamped \<circ> scan_entry) (request_audit_logs (rp_db r)) = [unstamped (sample_audit ''a'')] \<and>
     rp_batch r = [] \<and> fst (Record (sample_audit ''b'') r) = Accepted (sample_audit ''b'')"
proof -
  obtain r where run: "repo_run (NewRepo empty_db 1)
      [Accepted (sample_audit ''a''), Dropped (sample_audit ''b''), Quiet, Flushed [sample_audit ''a'']] r"
    using sample_drop_run by blast
  from audit_log_fifo [OF audit_ids_ok_empty run] run show ?thesis
    by (intro exI [of _ r]) (simp add: empty_db_def)
qed

text \<open>
  C19: closing flushes. From any reachable state of a running writer, a cancellation followed by
  one drain iteration per buffered entry and a last one reaches the stopped state, and then every
  entry that had been accepted has been handed to the database.
\<close>
theorem close_flushes:
  assumes "audit_ids_ok d" "repo_run (NewRepo d n) evs r" "rp_phase r = Running"
  shows "\<exists>evs' r'. repo_run (NewRepo d n) (evs @ evs') r' \<and> rp_phase r' = Stopped \<and>
    length evs' = length (chan_buf (rp_ch r)) + 2 \<and> attempted (evs @ evs') = accepted evs"
proof -
  define r1 where "r1 = r\<lparr>rp_phase := Draining\<rparr>"
  have run1: "repo_run (NewRepo d n) (evs @ [Quiet]) r1"
    unfolding r1_def using assms(2,3) by (blast intro: repo_run.snoc repo_step.cancel)
  obtain evs' r' where run: "repo_run (NewRepo d n) ((evs @ [Quiet]) @ evs') r'"
    and len: "length evs' = Suc (length (chan_buf (rp_ch r)))" and stop: "rp_phase r' = Stopped"
    and empty: "chan_buf (rp_ch r') = []" "accepted evs' = []"
    using drain_run [OF _ run1] by (auto simp: r1_def)
  have "repo_inv (NewRepo d n) ((evs @ [Quiet]) @ evs') r'"
    using repo_inv_run [OF run repo_inv_NewRepo [OF assms(1)]] .
  then have "attempted (evs @ Quiet # evs') = accepted evs"
    using stop empty by (auto simp: repo_inv_def)
  then show ?thesis
    using run len stop by (intro exI [of _ "Quiet # evs'"] exI [of _ r']) simp
qed

theorem close_flushes_witness:
  "\<exists>evs' r'. repo_run (NewRepo empty_db 2) (Accepted (sample_audit ''m'') # evs') r' \<and> rp_phase r' = Stopped \<and>
     length evs' = 3 \<and> attempted evs' = [sample_audit ''m'']"
  using close_flushes [OF audit_ids_ok_empty sample_record_run] by (simp add: NewRepo_def numeral_3_eq_3)

text \<open>
  A batch is written as a whole or not at all: on an error the database is as it was; on
  success its entries stand at the end of the table, in order, with fresh increasing ids; and
  with a healthy driver the batch is written exactly when every key and node it names exists.
\<close>
lemma insertBatch_atomic:
  "(case insertBatch bf nows es d of
      (Some _, d') \<Rightarrow> d' = d
    | (None, d') \<Rightarrow> d' = d\<lparr>request_audit_logs := request_audit_logs d @ numbered (Suc (audit_seq d)) (entry_rows nows 0 es),
                           audit_seq := audit_seq d + length es\<rparr>) \<and>
   (fst (insertBatch no_batch_faults nows es d) = None \<longleftrightarrow> (\<forall>e \<in> set es. entry_refs_ok d e))"
proof (rule conjI)
  show "fst (insertBatch no_batch_faults nows es d) = None \<longleftrightarrow> (\<forall>e \<in> set es. entry_refs_ok d e)"
    using exec_entries_ok_iff [of "\<lambda>_. None" 0 nows es d]
    by (auto simp: insertBatch_def no_batch_faults_def split: sum.splits)
qed (use insertBatch_cases [of bf nows es d] in \<open>auto split: prod.split option.split\<close>)

lemma insertBatch_atomic_instance:
  "fst (insertBatch no_batch_faults (\<lambda>_. 5) [sample_audit ''m''] empty_db) = None"
proof -
  have "\<forall>e \<in> set [sample_audit ''m'']. entry_refs_ok empty_db e"
    by (simp add: entry_refs_ok_def sample_audit_def nullable_def fk_ok_def)
  then show ?thesis
    using insertBatch_atomic [where bf = no_batch_faults and nows = "\<lambda>_. 5" and es = "[sample_audit ''m'']" and d = empty_db]
    by blast
qed

text \<open>
  C20: what was recorded is what the dashboard reads back: after a batch was written, \<open>Recent\<close>
  lists the newest entries first, beginning with the batch backwards, field for field as
  recorded and each stamped with the database's time at its own insert, at most the asked number (50 when none is
  asked for).
\<close>
theorem recent_reads_back:
  assumes "audit_ids_ok d" "insertBatch bf nows es d = (None, d')"
  shows "Recent None None limit '''' d' =
    Inr (take (nat (if limit \<le> 0 then 50 else limit))
      (rev (map (\<lambda>(k, e). e\<lparr>en_CreatedAt := nows k\<rparr>) (enumerate 0 es)) @ rev (map scan_entry (request_audit_logs d))))"
proof -
  have d': "d' = d\<lparr>request_audit_logs := request_audit_logs d @ numbered (Suc (audit_seq d)) (entry_rows nows 0 es),
      audit_seq := audit_seq d + length (entry_rows nows 0 es)\<rparr>"
    using insertBatch_cases [OF assms(2)] by simp
  have "sort_key au_id (request_audit_logs d') = request_audit_logs d'"
    using sort_key_audit [OF audit_ids_ok_append [OF assms(1)], of "\<lambda>_. True"] by (simp add: d')
  then have "Recent None None limit '''' d' =
      Inr (take (effective_limit limit) (map scan_entry (rev (request_audit_logs d'))))"
    by (simp add: Recent_def take_map)
  also have "map scan_entry (rev (request_audit_logs d')) =
      rev (map scan_entry (numbered (Suc (audit_seq d)) (entry_rows nows 0 es))) @ rev (map scan_entry (request_audit_logs d))"
    by (simp only: d' rev_map [symmetric]) simp
  finally show ?thesis
    by (simp only: map_scan_numbered effective_limit_def)
qed

theorem recent_reads_back_witness:
  "\<exists>d'. insertBatch no_batch_faults (\<lambda>k. 5 + int k) [sample_audit ''a'', sample_audit ''b''] empty_db = (None, d') \<and>
     Recent None None 1 '''' d' = Inr [(sample_audit ''b'')\<lparr>en_CreatedAt := 6\<rparr>]"
proof -
  obtain d' where d': "insertBatch no_batch_faults (\<lambda>k. 5 + int k) [sample_audit ''a'', sample_audit ''b''] empty_db = (None, d')"
    by (simp add: insertBatch_def no_batch_faults_def insert_audit_def entry_row_def sample_audit_def
        nullable_def fk_ok_def empty_db_def)
  then show ?thesis
    using recent_reads_back [OF audit_ids_ok_empty d', of 1] by (simp add: empty_db_def)
qed

section \<open>Behaviours worth knowing\<close>

text \<open>
  One entry that names a node the \<open>nodes\<close> table does not have makes the whole batch, up to 64
  requests, disappear from the log.
\<close>

lemma audit_batch_poisoned:
  "\<not> entry_refs_ok d e \<Longrightarrow> e \<in> set es \<Longrightarrow> snd (insertBatch bf nows es d) = d"
proof -
  assume bad: "\<not> entry_refs_ok d e" and e: "e \<in> set es"
  have "exec_entries f i nows es d \<noteq> Inr d'" for f i d'
    using bad e
  proof (induction es arbitrary: i d)
    case (Cons a es)
    have "entry_refs_ok d1 = entry_refs_ok d" if "insert_audit (f i) (entry_row (nows i) a) d = Inr d1" for d1
      by (simp add: insert_audit_InrD [OF that] entry_refs_ok_def fun_eq_iff)
    with Cons show ?case
      by (auto simp: insert_audit_def entry_refs_ok_def entry_row_def split: option.splits if_splits)
  qed simp
  then show ?thesis
    by (auto simp: insertBatch_def split: option.splits sum.splits)
qed

end
