(* ===== verification/Unicode.thy ===== *)
theory Unicode
  imports Encoding
begin

text \<open>
  UTF-8 as Go reads it (\<open>unicode/utf8\<close>): which bytes form a rune, its code point, and what a
  decoder that replaces invalid bytes by U+FFFD makes of a string; and \<open>strconv.Quote\<close>, the
  verb \<open>%q\<close> of \<open>fmt\<close>. Both are used by the JSON text of Json and by the error events of Router.
\<close>

section \<open>UTF-8\<close>

definition byte_val :: "char \<Rightarrow> nat" where "byte_val c = of_char c"

definition within :: "nat \<Rightarrow> nat \<Rightarrow> char \<Rightarrow> bool" where
  "within lo hi c \<longleftrightarrow> lo \<le> byte_val c \<and> byte_val c \<le> hi"

definition replacement :: string where "replacement = [CHR 0xEF, CHR 0xBF, CHR 0xBD]"

text \<open>
  The number of bytes of the rune a string starts with, \<open>None\<close> where \<open>DecodeRune\<close> answers
  \<open>(RuneError, 1)\<close>: overlong forms, surrogates, code points above U+10FFFF and truncated
  sequences are invalid.
\<close>

fun utf8_width :: "string \<Rightarrow> nat option" where
  "utf8_width [] = None"
| "utf8_width (c # s) =
     (if within 0x00 0x7F c then Some 1
      else if within 0xC2 0xDF c then
        (case s of c1 # _ \<Rightarrow> if within 0x80 0xBF c1 then Some 2 else None | _ \<Rightarrow> None)
      else if within 0xE0 0xEF c then
        (case s of
           c1 # c2 # _ \<Rightarrow>
             if within (if byte_val c = 0xE0 then 0xA0 else 0x80) (if byte_val c = 0xED then 0x9F else 0xBF) c1
                \<and> within 0x80 0xBF c2 then Some 3 else None
         | _ \<Rightarrow> None)
      else if within 0xF0 0xF4 c then
        (case s of
           c1 # c2 # c3 # _ \<Rightarrow>
             if within (if byte_val c = 0xF0 then 0x90 else 0x80) (if byte_val c = 0xF4 then 0x8F else 0xBF) c1
                \<and> within 0x80 0xBF c2 \<and> within 0x80 0xBF c3 then Some 4 else None
         | _ \<Rightarrow> None)
      else None)"

text \<open>The code point of the bytes of one rune, and \<open>utf8.AppendRune\<close> for a valid code point.\<close>

fun utf8_rune :: "string \<Rightarrow> nat" where
  "utf8_rune [c] = byte_val c"
| "utf8_rune [c, c1] = (byte_val c mod 32) * 64 + byte_val c1 mod 64"
| "utf8_rune [c, c1, c2] = (byte_val c mod 16) * 4096 + (byte_val c1 mod 64) * 64 + byte_val c2 mod 64"
| "utf8_rune [c, c1, c2, c3] =
     (byte_val c mod 8) * 262144 + (byte_val c1 mod 64) * 4096 + (byte_val c2 mod 64) * 64 + byte_val c3 mod 64"
| "utf8_rune _ = 0xFFFD"

definition utf8_encode :: "nat \<Rightarrow> string" where
  "utf8_encode r =
     (if r < 0x80 then [char_of r]
      else if r < 0x800 then [char_of (0xC0 + r div 64), char_of (0x80 + r mod 64)]
      else if r < 0x10000 then
        [char_of (0xE0 + r div 4096), char_of (0x80 + r div 64 mod 64), char_of (0x80 + r mod 64)]
      else
        [char_of (0xF0 + r div 262144), char_of (0x80 + r div 4096 mod 64),
         char_of (0x80 + r div 64 mod 64), char_of (0x80 + r mod 64)])"

text \<open>The runes of a string, each with whether its bytes were valid; an invalid one is one byte.\<close>

function runes :: "string \<Rightarrow> (bool \<times> string) list" where
  "runes s =
     (case s of
        [] \<Rightarrow> []
      | c # cs \<Rightarrow>
          (case utf8_width s of
             None \<Rightarrow> (False, [c]) # runes cs
           | Some w \<Rightarrow> (True, c # take (w - 1) cs) # runes (drop (w - 1) cs)))"
  by pat_completeness auto
termination by (relation "measure length") auto

declare runes.simps [simp del]

definition utf8_valid :: "string \<Rightarrow> bool" where
  "utf8_valid s \<longleftrightarrow> list_all fst (runes s)"

text \<open>\<open>strings.ToValidUTF8\<close> with one U+FFFD for each invalid byte.\<close>

definition to_valid :: "string \<Rightarrow> string" where
  "to_valid s = concat (map (\<lambda>(ok, r). if ok then r else replacement) (runes s))"

lemma within_bounds: "within lo hi c \<Longrightarrow> lo \<le> byte_val c" "within lo hi c \<Longrightarrow> byte_val c \<le> hi"
  by (simp_all add: within_def)

lemma utf8_width_bounds:
  assumes "utf8_width (c # s) = Some w"
  shows "1 \<le> w" "w \<le> 4" "w - 1 \<le> length s"
  using assms by (auto split: if_splits list.splits)

text \<open>Only the bytes of the rune matter.\<close>

lemma utf8_width_take:
  assumes "utf8_width (c # s) = Some w"
  shows "utf8_width (c # take (w - 1) s @ t) = Some w"
  using assms by (auto split: if_splits list.splits)

lemma runes_Nil [simp]: "runes [] = []"
  by (simp add: runes.simps)

lemma runes_ascii [simp]: "byte_val c < 0x80 \<Longrightarrow> runes (c # s) = (True, [c]) # runes s"
  by (simp add: runes.simps [of "c # s"] within_def)

lemma runes_invalid: "utf8_width (c # s) = None \<Longrightarrow> runes (c # s) = (False, [c]) # runes s"
  by (simp add: runes.simps [of "c # s"])

lemma runes_valid:
  "utf8_width (c # s) = Some w \<Longrightarrow> runes (c # s) = (True, c # take (w - 1) s) # runes (drop (w - 1) s)"
  by (simp add: runes.simps [of "c # s"])

text \<open>The bytes of the runes are the string.\<close>

lemma concat_runes: "concat (map snd (runes s)) = s"
proof (induction s rule: runes.induct)
  case (1 s)
  show ?case
  proof (cases s)
    case (Cons c cs)
    then show ?thesis
      using 1 by (cases "utf8_width (c # cs)") (auto simp: runes_invalid runes_valid)
  qed simp
qed

lemma to_valid_id: "utf8_valid s \<Longrightarrow> to_valid s = s"
proof -
  assume "utf8_valid s"
  then have "map (\<lambda>(ok, r). if ok then r else replacement) (runes s) = map snd (runes s)"
    by (auto simp: utf8_valid_def list_all_iff)
  then show ?thesis
    by (simp add: to_valid_def concat_runes del: map_eq_conv)
qed

section \<open>\<open>strconv.Quote\<close>\<close>

definition dquote :: char where "dquote = CHR 0x22"
definition backslash :: char where "backslash = CHR 0x5C"

text \<open>The last \<open>k\<close> hexadecimal digits of a number.\<close>

fun hex_digits :: "nat \<Rightarrow> nat \<Rightarrow> string" where
  "hex_digits 0 n = []"
| "hex_digits (Suc k) n = hex_digits k (n div 16) @ [hextable ! (n mod 16)]"

definition quote_escapes :: "(char \<times> char) list" where
  "quote_escapes =
     [(CHR 0x07, CHR ''a''), (CHR 0x08, CHR ''b''), (CHR 0x0C, CHR ''f''), (CHR 0x0A, CHR ''n''),
      (CHR 0x0D, CHR ''r''), (CHR 0x09, CHR ''t''), (CHR 0x0B, CHR ''v'')]"

text \<open>\<open>isPrint\<close> is \<open>strconv.IsPrint\<close> of a rune outside ASCII, given as its bytes.\<close>

definition quote_rune :: "(string \<Rightarrow> bool) \<Rightarrow> bool \<times> string \<Rightarrow> string" where
  "quote_rune isPrint x =
     (case x of
        (False, r) \<Rightarrow> backslash # CHR ''x'' # hex_digits 2 (byte_val (hd r))
      | (True, [c]) \<Rightarrow>
          if c = dquote \<or> c = backslash then [backslash, c]
          else if within 0x20 0x7E c then [c]
          else (case map_of quote_escapes c of
                  Some e \<Rightarrow> [backslash, e]
                | None \<Rightarrow> backslash # CHR ''x'' # hex_digits 2 (byte_val c))
      | (True, r) \<Rightarrow>
          if isPrint r then r
          else if utf8_rune r < 0x10000 then backslash # CHR ''u'' # hex_digits 4 (utf8_rune r)
          else backslash # CHR ''U'' # hex_digits 8 (utf8_rune r))"

definition Quote :: "(string \<Rightarrow> bool) \<Rightarrow> string \<Rightarrow> string" where
  "Quote isPrint s = dquote # concat (map (quote_rune isPrint) (runes s)) @ [dquote]"

end
