(* ===== verification/Json.thy ===== *)
theory Json
  imports Unicode Protocol
begin

text \<open>
  JSON as \<open>encoding/json\<close> of Go 1.25 reads and writes it, as far as the program uses it: the
  grammar with its nesting limit, strings with their escapes and the replacement of invalid UTF-8,
  the encoder with its HTML escaping, and the decoding of objects into structs.

  The parser reads one token at a time and keeps the enclosing arrays and objects on a stack, so it
  is a loop over the text and total. The main lemma is that parsing the encoding of a value gives
  the value back, up to bytes that are not UTF-8.
\<close>

datatype json =
    JNull
  | JBool bool
  | JNum string
  | JStr string
  | JArr "json list"
  | JObj "(string \<times> json) list"

section \<open>Tokens\<close>

datatype token = Null | Tru | Fls | Num string | Str string | LBrack | RBrack | LBrace | RBrace | Comma | Colon

definition json_space :: "char \<Rightarrow> bool" where
  "json_space c \<longleftrightarrow> c \<in> {CHR 0x20, CHR 0x09, CHR 0x0D, CHR 0x0A}"

definition json_digit :: "char \<Rightarrow> bool" where
  "json_digit c \<longleftrightarrow> within 48 57 c"

definition lex_int :: "string \<Rightarrow> (string \<times> string) option" where
  "lex_int s =
     (case s of
        [] \<Rightarrow> None
      | c # cs \<Rightarrow>
          if c = CHR ''0'' then Some ([c], cs)
          else if json_digit c then Some (takeWhile json_digit s, dropWhile json_digit s)
          else None)"

definition lex_digits :: "string \<Rightarrow> (string \<times> string) option" where
  "lex_digits s =
     (if takeWhile json_digit s = [] then None else Some (takeWhile json_digit s, dropWhile json_digit s))"

definition lex_frac :: "string \<Rightarrow> (string \<times> string) option" where
  "lex_frac s =
     (case s of
        c # cs \<Rightarrow> if c = CHR ''.'' then map_option (apfst ((#) c)) (lex_digits cs) else Some ([], s)
      | [] \<Rightarrow> Some ([], s))"

definition lex_exp :: "string \<Rightarrow> (string \<times> string) option" where
  "lex_exp s =
     (case s of
        c # cs \<Rightarrow>
          if c = CHR ''e'' \<or> c = CHR ''E'' then
            (case cs of
               d # ds \<Rightarrow>
                 if d = CHR ''+'' \<or> d = CHR ''-'' then map_option (apfst (\<lambda>n. c # d # n)) (lex_digits ds)
                 else map_option (apfst ((#) c)) (lex_digits cs)
             | [] \<Rightarrow> None)
          else Some ([], s)
      | [] \<Rightarrow> Some ([], s))"

definition lex_unsigned :: "string \<Rightarrow> (string \<times> string) option" where
  "lex_unsigned s =
     (case lex_int s of
        None \<Rightarrow> None
      | Some (a, s1) \<Rightarrow>
          (case lex_frac s1 of
             None \<Rightarrow> None
           | Some (b, s2) \<Rightarrow> map_option (apfst (\<lambda>e. a @ b @ e)) (lex_exp s2)))"

definition lex_num :: "string \<Rightarrow> (string \<times> string) option" where
  "lex_num s =
     (case s of
        c # cs \<Rightarrow> if c = CHR ''-'' then map_option (apfst ((#) c)) (lex_unsigned cs) else lex_unsigned s
      | [] \<Rightarrow> None)"

text \<open>Strings: four hexadecimal digits, surrogate pairs, and the escapes of one character.\<close>

fun hex4 :: "string \<Rightarrow> nat option" where
  "hex4 (a # b # c # d # _) =
     (case (fromHexChar a, fromHexChar b, fromHexChar c, fromHexChar d) of
        (Some w, Some x, Some y, Some z) \<Rightarrow> Some (((w * 16 + x) * 16 + y) * 16 + z)
      | _ \<Rightarrow> None)"
| "hex4 _ = None"

definition surrogate :: "nat \<Rightarrow> bool" where
  "surrogate r \<longleftrightarrow> 0xD800 \<le> r \<and> r < 0xE000"

definition surrogate_pair :: "nat \<Rightarrow> string \<Rightarrow> nat option" where
  "surrogate_pair r s =
     (if r < 0xDC00 \<and> take 2 s = [backslash, CHR ''u''] then
        (case hex4 (drop 2 s) of
           None \<Rightarrow> None
         | Some r1 \<Rightarrow>
             if 0xDC00 \<le> r1 \<and> r1 < 0xE000 then Some ((r - 0xD800) * 0x400 + (r1 - 0xDC00) + 0x10000) else None)
      else None)"

definition simple_escapes :: "(char \<times> char) list" where
  "simple_escapes =
     [(dquote, dquote), (backslash, backslash), (CHR ''/'', CHR ''/''), (CHR ''b'', CHR 0x08), (CHR ''f'', CHR 0x0C),
      (CHR ''n'', CHR 0x0A), (CHR ''r'', CHR 0x0D), (CHR ''t'', CHR 0x09)]"

text \<open>
  One step through the text of a string: its end, a piece of its value with the bytes left, or an
  error. Bytes that are not UTF-8 are replaced.
\<close>

datatype str_part = Ends string | Piece string string | Bad

fun escape_step :: "string \<Rightarrow> str_part" where
  "escape_step [] = Bad"
| "escape_step (e # es) =
     (if e = CHR ''u'' then
        (case hex4 es of
           None \<Rightarrow> Bad
         | Some r \<Rightarrow>
             if surrogate r then
               (case surrogate_pair r (drop 4 es) of
                  Some r' \<Rightarrow> Piece (utf8_encode r') (drop 10 es)
                | None \<Rightarrow> Piece replacement (drop 4 es))
             else Piece (utf8_encode r) (drop 4 es))
      else
        (case map_of simple_escapes e of
           None \<Rightarrow> Bad
         | Some d \<Rightarrow> Piece [d] es))"

fun str_step :: "string \<Rightarrow> str_part" where
  "str_step [] = Bad"
| "str_step (c # cs) =
     (if c = dquote then Ends cs
      else if byte_val c < 0x20 then Bad
      else if c = backslash then escape_step cs
      else
        (case utf8_width (c # cs) of
           None \<Rightarrow> Piece replacement cs
         | Some w \<Rightarrow> Piece (c # take (w - 1) cs) (drop (w - 1) cs)))"

lemma escape_step_shorter: "escape_step s = Piece p r \<Longrightarrow> length r \<le> length s"
  by (cases s) (auto split: if_splits option.splits)

lemma str_step_shorter:
  "str_step s = Piece p r \<Longrightarrow> length r < length s"
  "str_step s = Ends r \<Longrightarrow> length r < length s"
proof -
  have no_end: "escape_step s \<noteq> Ends r" for s
    by (cases s) (auto split: if_splits option.splits)
  show "str_step s = Piece p r \<Longrightarrow> length r < length s"
    by (cases s) (auto simp del: utf8_width.simps dest!: escape_step_shorter split: if_splits option.splits)
  show "str_step s = Ends r \<Longrightarrow> length r < length s"
    by (cases s) (auto simp del: utf8_width.simps simp: no_end split: if_splits option.splits)
qed

text \<open>The rest of a string after its opening quote: its value and what follows the closing quote.\<close>

function lex_str :: "string \<Rightarrow> (string \<times> string) option" where
  "lex_str s =
     (case str_step s of
        Ends r \<Rightarrow> Some ([], r)
      | Piece p r \<Rightarrow> map_option (apfst ((@) p)) (lex_str r)
      | Bad \<Rightarrow> None)"
  by pat_completeness auto
termination by (relation "measure length") (auto dest: str_step_shorter)

declare lex_str.simps [simp del]

definition keyword :: "string \<Rightarrow> token \<Rightarrow> string \<Rightarrow> (token \<times> string) option" where
  "keyword k t s = (if prefix k s then Some (t, drop (length k) s) else None)"

definition lex_token :: "string \<Rightarrow> (token \<times> string) option" where
  "lex_token s =
     (case s of
        [] \<Rightarrow> None
      | c # cs \<Rightarrow>
          if c = CHR ''['' then Some (LBrack, cs)
          else if c = CHR '']'' then Some (RBrack, cs)
          else if c = CHR ''{'' then Some (LBrace, cs)
          else if c = CHR ''}'' then Some (RBrace, cs)
          else if c = CHR '','' then Some (Comma, cs)
          else if c = CHR '':'' then Some (Colon, cs)
          else if c = dquote then map_option (apfst Str) (lex_str cs)
          else if c = CHR ''n'' then keyword ''ull'' Null cs
          else if c = CHR ''t'' then keyword ''rue'' Tru cs
          else if c = CHR ''f'' then keyword ''alse'' Fls cs
          else map_option (apfst Num) (lex_num s))"

definition next_token :: "string \<Rightarrow> (token \<times> string) option" where
  "next_token s = lex_token (dropWhile json_space s)"

text \<open>Every token takes at least one byte.\<close>

lemma lex_str_shorter: "lex_str s = Some (v, r) \<Longrightarrow> length r < length s"
proof (induction s arbitrary: v r rule: lex_str.induct)
  case (1 s)
  show ?case
  proof (cases "str_step s")
    case (Piece p r')
    with "1.prems" obtain v' where "lex_str r' = Some (v', r)"
      by (auto simp: lex_str.simps [of s])
    then show ?thesis
      using "1.IH" [OF Piece] str_step_shorter(1) [OF Piece] by fastforce
  qed (use "1.prems" in \<open>auto simp: lex_str.simps [of s] dest: str_step_shorter\<close>)
qed

lemma lex_digits_shorter: "lex_digits s = Some (a, r) \<Longrightarrow> length r < length s"
  by (cases s) (auto simp: lex_digits_def length_dropWhile_le less_Suc_eq_le split: if_splits)

lemma lex_int_shorter: "lex_int s = Some (a, r) \<Longrightarrow> length r < length s"
  by (auto simp: lex_int_def length_dropWhile_le less_Suc_eq_le split: list.splits if_splits)

lemma lex_frac_shorter: "lex_frac s = Some (a, r) \<Longrightarrow> length r \<le> length s"
  by (fastforce simp: lex_frac_def split: list.splits if_splits dest!: lex_digits_shorter)

lemma lex_exp_shorter: "lex_exp s = Some (a, r) \<Longrightarrow> length r \<le> length s"
  by (fastforce simp: lex_exp_def split: list.splits if_splits dest!: lex_digits_shorter)

lemma lex_unsigned_shorter: "lex_unsigned s = Some (a, r) \<Longrightarrow> length r < length s"
  by (fastforce simp: lex_unsigned_def split: option.splits
      dest!: lex_int_shorter lex_frac_shorter lex_exp_shorter)

lemma lex_num_shorter: "lex_num s = Some (a, r) \<Longrightarrow> length r < length s"
  by (fastforce simp: lex_num_def split: list.splits if_splits dest!: lex_unsigned_shorter)

lemma lex_token_shorter: "lex_token s = Some (t, r) \<Longrightarrow> length r < length s"
  by (cases s)
    (auto simp: lex_token_def keyword_def split: if_splits dest!: lex_str_shorter lex_num_shorter)

lemma next_token_shorter: "next_token s = Some (t, r) \<Longrightarrow> length r < length s"
  unfolding next_token_def by (meson lex_token_shorter length_dropWhile_le order_less_le_trans)

section \<open>The parser\<close>

text \<open>
  \<open>FArr vs\<close> is an array whose values so far are \<open>vs\<close>, last first; \<open>FObj kvs k\<close> is an object with the
  members \<open>kvs\<close>, last first, and \<open>k\<close> the key whose value is being read.
\<close>

datatype frame = FArr "json list" | FObj "(string \<times> json) list" string

text \<open>What may come next.\<close>

datatype mode = Value | ValueOrClose | Key | KeyOrClose | AfterKey | Done json

definition maxNestingDepth :: nat where "maxNestingDepth = 10000"

text \<open>One step of the parser on a token; \<open>None\<close> is a syntax error.\<close>

fun open_value :: "frame list \<Rightarrow> token \<Rightarrow> (mode \<times> frame list) option" where
  "open_value st Null = Some (Done JNull, st)"
| "open_value st Tru = Some (Done (JBool True), st)"
| "open_value st Fls = Some (Done (JBool False), st)"
| "open_value st (Num n) = Some (Done (JNum n), st)"
| "open_value st (Str s) = Some (Done (JStr s), st)"
| "open_value st LBrack = (if length st < maxNestingDepth then Some (ValueOrClose, FArr [] # st) else None)"
| "open_value st LBrace = (if length st < maxNestingDepth then Some (KeyOrClose, FObj [] '''' # st) else None)"
| "open_value st _ = None"

fun parse_step :: "mode \<Rightarrow> frame list \<Rightarrow> token \<Rightarrow> (mode \<times> frame list) option" where
  "parse_step Value st t = open_value st t"
| "parse_step ValueOrClose st t =
     (case (st, t) of (FArr vs # st', RBrack) \<Rightarrow> Some (Done (JArr (rev vs)), st') | _ \<Rightarrow> open_value st t)"
| "parse_step Key st t =
     (case (st, t) of (FObj kvs _ # st', Str k) \<Rightarrow> Some (AfterKey, FObj kvs k # st') | _ \<Rightarrow> None)"
| "parse_step KeyOrClose st t =
     (case (st, t) of
        (FObj kvs _ # st', Str k) \<Rightarrow> Some (AfterKey, FObj kvs k # st')
      | (FObj kvs _ # st', RBrace) \<Rightarrow> Some (Done (JObj (rev kvs)), st')
      | _ \<Rightarrow> None)"
| "parse_step AfterKey st t = (if t = Colon then Some (Value, st) else None)"
| "parse_step (Done v) st t =
     (case (st, t) of
        (FArr vs # st', Comma) \<Rightarrow> Some (Value, FArr (v # vs) # st')
      | (FArr vs # st', RBrack) \<Rightarrow> Some (Done (JArr (rev (v # vs))), st')
      | (FObj kvs k # st', Comma) \<Rightarrow> Some (Key, FObj ((k, v) # kvs) '''' # st')
      | (FObj kvs k # st', RBrace) \<Rightarrow> Some (Done (JObj (rev ((k, v) # kvs))), st')
      | _ \<Rightarrow> None)"

text \<open>The value a text starts with, and the text behind it.\<close>

function json_run :: "mode \<Rightarrow> frame list \<Rightarrow> string \<Rightarrow> (json \<times> string) option" where
  "json_run m st s =
     (case (m, st) of
        (Done v, []) \<Rightarrow> Some (v, s)
      | _ \<Rightarrow>
          (case next_token s of
             None \<Rightarrow> None
           | Some (t, r) \<Rightarrow>
               (case parse_step m st t of
                  None \<Rightarrow> None
                | Some (m', st') \<Rightarrow> json_run m' st' r)))"
  by pat_completeness auto
termination
  by (relation "measure (\<lambda>(m, st, s). length s)") (auto dest: next_token_shorter)

declare json_run.simps [simp del]

text \<open>
  \<open>json_first\<close> is what \<open>Decoder.Decode\<close> reads of a stream, \<open>json_parse\<close> what \<open>Unmarshal\<close> reads: one
  value and nothing behind it but white space.
\<close>

definition json_first :: "string \<Rightarrow> json option" where
  "json_first s = map_option fst (json_run Value [] s)"

definition json_parse :: "string \<Rightarrow> json option" where
  "json_parse s =
     (case json_run Value [] s of
        Some (v, r) \<Rightarrow> if list_all json_space r then Some v else None
      | None \<Rightarrow> None)"

section \<open>The encoder\<close>

text \<open>\<open>appendString\<close> with HTML escaping: what is copied, and how the rest is written.\<close>

definition json_safe :: "char \<Rightarrow> bool" where
  "json_safe c \<longleftrightarrow> 0x20 \<le> byte_val c \<and> c \<notin> {dquote, backslash, CHR ''<'', CHR ''>'', CHR ''&''}"

definition short_escapes :: "(char \<times> char) list" where
  "short_escapes =
     [(dquote, dquote), (backslash, backslash), (CHR 0x08, CHR ''b''), (CHR 0x0C, CHR ''f''), (CHR 0x0A, CHR ''n''),
      (CHR 0x0D, CHR ''r''), (CHR 0x09, CHR ''t'')]"

definition json_u :: "nat \<Rightarrow> string" where
  "json_u n = backslash # CHR ''u'' # hex_digits 4 n"

definition json_ascii :: "char \<Rightarrow> string" where
  "json_ascii c =
     (if json_safe c then [c]
      else case map_of short_escapes c of Some e \<Rightarrow> [backslash, e] | None \<Rightarrow> json_u (byte_val c))"

definition json_rune :: "bool \<times> string \<Rightarrow> string" where
  "json_rune x =
     (case x of
        (False, _) \<Rightarrow> json_u 0xFFFD
      | (True, [c]) \<Rightarrow> json_ascii c
      | (True, r) \<Rightarrow>
          if r = [CHR 0xE2, CHR 0x80, CHR 0xA8] then json_u 0x2028
          else if r = [CHR 0xE2, CHR 0x80, CHR 0xA9] then json_u 0x2029
          else r)"

definition json_string :: "string \<Rightarrow> string" where
  "json_string s = dquote # concat (map json_rune (runes s)) @ [dquote]"

fun commas :: "string list \<Rightarrow> string" where
  "commas [] = []"
| "commas [x] = x"
| "commas (x # xs) = x @ CHR '','' # commas xs"

fun json_print :: "json \<Rightarrow> string" where
  "json_print JNull = ''null''"
| "json_print (JBool b) = (if b then ''true'' else ''false'')"
| "json_print (JNum n) = n"
| "json_print (JStr s) = json_string s"
| "json_print (JArr vs) = CHR ''['' # commas (map json_print vs) @ '']''"
| "json_print (JObj kvs) =
     CHR ''{'' # commas (map (\<lambda>(k, v). json_string k @ CHR '':'' # json_print v) kvs) @ ''}''"

text \<open>
  What comes back: strings with U+FFFD for invalid bytes. A number has to be written as the grammar
  asks, and the value has to stay within the nesting limit.
\<close>

fun json_clean :: "json \<Rightarrow> json" where
  "json_clean (JStr s) = JStr (to_valid s)"
| "json_clean (JArr vs) = JArr (map json_clean vs)"
| "json_clean (JObj kvs) = JObj (map (\<lambda>(k, v). (to_valid k, json_clean v)) kvs)"
| "json_clean v = v"

definition num_ok :: "string \<Rightarrow> bool" where
  "num_ok n \<longleftrightarrow> lex_num n = Some (n, [])"

fun json_wf :: "json \<Rightarrow> bool" where
  "json_wf (JNum n) = num_ok n"
| "json_wf (JArr vs) = list_all json_wf vs"
| "json_wf (JObj kvs) = list_all (\<lambda>(k, v). json_wf v) kvs"
| "json_wf _ = True"

fun json_depth :: "json \<Rightarrow> nat" where
  "json_depth (JArr vs) = Suc (fold max (map json_depth vs) 0)"
| "json_depth (JObj kvs) = Suc (fold max (map (\<lambda>(k, v). json_depth v) kvs) 0)"
| "json_depth _ = 0"

section \<open>Parsing what was encoded\<close>

lemma hex_digits_4:
  "hex_digits 4 n =
     [hextable ! (n div 16 div 16 div 16 mod 16), hextable ! (n div 16 div 16 mod 16),
      hextable ! (n div 16 mod 16), hextable ! (n mod 16)]"
proof -
  have "(4 :: nat) = Suc (Suc (Suc (Suc 0)))"
    by simp
  then show ?thesis
    by (simp only: hex_digits.simps append.simps)
qed

lemma length_hex_digits [simp]: "length (hex_digits k n) = k"
  by (induction k arbitrary: n) simp_all

lemma hex4_digits:
  assumes "n < 65536"
  shows "hex4 (hex_digits 4 n @ t) = Some n"
proof -
  have *: "fromHexChar (hextable ! (k mod 16)) = Some (k mod 16)" for k
    by (rule hex_digit) simp
  have "n div 16 div 16 div 16 mod 16 = n div 16 div 16 div 16"
    using assms by (simp add: div_mult2_eq [symmetric])
  then have "(((n div 16 div 16 div 16 mod 16) * 16 + n div 16 div 16 mod 16) * 16 + n div 16 mod 16) * 16 + n mod 16 = n"
    by simp
  then show ?thesis
    by (simp add: hex_digits_4 *)
qed

lemma str_step_u:
  assumes "n < 65536" "\<not> surrogate n"
  shows "str_step (json_u n @ t) = Piece (utf8_encode n) t"
  using assms by (simp add: json_u_def hex4_digits backslash_def dquote_def byte_val_def)

lemma byte_val_lt [simp]: "byte_val c < 256"
  by (simp add: byte_val_def)

lemma char_of_byte_val [simp]: "char_of (byte_val c) = c"
  by (simp add: byte_val_def)

lemma byte_val_eq_iff [simp]: "byte_val c = byte_val d \<longleftrightarrow> c = d"
  by (simp add: byte_val_def)

lemma special_byte_vals [simp]: "byte_val dquote = 0x22" "byte_val backslash = 0x5C"
  by (simp_all add: byte_val_def dquote_def backslash_def)

lemma dquote_neq_backslash [simp]: "dquote \<noteq> backslash" "backslash \<noteq> dquote"
  by (simp_all add: dquote_def backslash_def)

lemma str_step_ascii:
  assumes "byte_val c < 0x80"
  shows "str_step (json_ascii c @ t) = Piece [c] t"
proof (cases "json_safe c")
  case True
  with assms show ?thesis
    by (auto simp: json_ascii_def json_safe_def within_def)
next
  case False
  show ?thesis
  proof (cases "map_of short_escapes c")
    case None
    moreover have "\<not> surrogate (byte_val c)" "utf8_encode (byte_val c) = [c]"
      using assms by (simp_all add: surrogate_def utf8_encode_def)
    ultimately show ?thesis
      using False str_step_u [of "byte_val c" t] assms by (simp add: json_ascii_def)
  next
    case (Some e)
    then have "map_of simple_escapes e = Some c" "e \<noteq> CHR ''u''"
      by (auto simp: short_escapes_def simple_escapes_def dquote_def backslash_def split: if_splits)
    with False Some show ?thesis
      by (simp add: json_ascii_def)
  qed
qed

lemma str_step_rune:
  assumes "utf8_width (c # s) = Some w"
  shows "str_step (json_rune (True, c # take (w - 1) s) @ t) = Piece (c # take (w - 1) s) t"
proof (cases "within 0x00 0x7F c")
  case True
  with assms show ?thesis
    by (simp add: json_rune_def str_step_ascii within_def)
next
  case False
  then have big: "0x80 \<le> byte_val c"
    by (simp add: within_def)
  then have c: "c \<noteq> dquote" "c \<noteq> backslash" "\<not> byte_val c < 0x20"
    by auto
  obtain d r where r: "take (w - 1) s = d # r"
    using assms False utf8_width_bounds [OF assms]
    by (cases "take (w - 1) s") (auto split: if_splits list.splits)
  have w: "utf8_width (c # d # r @ t) = Some w"
    using utf8_width_take [OF assms, of t] by (simp add: r del: utf8_width.simps One_nat_def)
  have "w - 1 = Suc (length r)"
    using utf8_width_bounds(3) [OF assms] arg_cong [OF r, of length] by simp
  have "str_step (c # d # r @ t) = Piece (c # d # r) t"
    using c \<open>w - 1 = Suc (length r)\<close> by (simp add: w del: utf8_width.simps)
  moreover have "str_step (json_u 0x2028 @ t) = Piece [CHR 0xE2, CHR 0x80, CHR 0xA8] t"
    "str_step (json_u 0x2029 @ t) = Piece [CHR 0xE2, CHR 0x80, CHR 0xA9] t"
    by (simp_all add: str_step_u surrogate_def utf8_encode_def char_of_eq_iff)
  ultimately show ?thesis
    by (simp add: r json_rune_def del: str_step.simps One_nat_def)
qed

lemma str_step_invalid: "str_step (json_rune (False, r) @ t) = Piece replacement t"
  by (simp add: json_rune_def str_step_u surrogate_def utf8_encode_def replacement_def char_of_eq_iff)

lemma lex_str_runes: "lex_str (concat (map json_rune (runes s)) @ dquote # rest) = Some (to_valid s, rest)"
proof (induction s rule: runes.induct)
  case (1 s)
  show ?case
  proof (cases s)
    case Nil
    then show ?thesis
      by (simp add: lex_str.simps to_valid_def)
  next
    case (Cons c cs)
    show ?thesis
    proof (cases "utf8_width (c # cs)")
      case None
      with 1 Cons show ?thesis
        by (simp add: runes_invalid to_valid_def lex_str.simps [of "json_rune _ @ _"] str_step_invalid
            del: utf8_width.simps One_nat_def)
    next
      case (Some w)
      with 1 Cons show ?thesis
        by (simp add: runes_valid to_valid_def lex_str.simps [of "json_rune _ @ _"] str_step_rune
            del: utf8_width.simps One_nat_def)
    qed
  qed
qed

text \<open>What may stand behind a value.\<close>

definition delim :: "string \<Rightarrow> bool" where
  "delim rest \<longleftrightarrow> rest = [] \<or> hd rest \<in> {CHR '','', CHR '']'', CHR ''}''}"

lemma delim_simps [simp]:
  "delim []" "delim (CHR '','' # s)" "delim (CHR '']'' # s)" "delim (CHR ''}'' # s)"
  by (simp_all add: delim_def)

lemma delimD:
  assumes "delim (c # s)"
  shows "\<not> json_digit c" "c \<noteq> CHR ''.''" "c \<noteq> CHR ''e''" "c \<noteq> CHR ''E''"
  using assms by (auto simp: delim_def json_digit_def within_def byte_val_def)

lemma digits_delim [simp]:
  assumes "delim rest"
  shows "takeWhile json_digit (s @ rest) = takeWhile json_digit s"
    "dropWhile json_digit (s @ rest) = dropWhile json_digit s @ rest"
proof -
  have "takeWhile json_digit rest = []" "dropWhile json_digit rest = rest"
    using assms delimD(1) by (cases rest; auto)+
  then show "takeWhile json_digit (s @ rest) = takeWhile json_digit s"
    "dropWhile json_digit (s @ rest) = dropWhile json_digit s @ rest"
    by (induction s) auto
qed

lemma lex_int_delim: "lex_int s = Some (a, b) \<Longrightarrow> delim rest \<Longrightarrow> lex_int (s @ rest) = Some (a, b @ rest)"
  by (cases s) (auto simp: lex_int_def split: if_splits)

lemma lex_digits_delim: "lex_digits s = Some (a, b) \<Longrightarrow> delim rest \<Longrightarrow> lex_digits (s @ rest) = Some (a, b @ rest)"
  by (auto simp: lex_digits_def split: if_splits)

lemma lex_frac_delim: "lex_frac s = Some (a, b) \<Longrightarrow> delim rest \<Longrightarrow> lex_frac (s @ rest) = Some (a, b @ rest)"
  by (cases s) (auto simp: lex_frac_def lex_digits_delim dest: delimD split: list.splits if_splits)

lemma lex_exp_delim: "lex_exp s = Some (a, b) \<Longrightarrow> delim rest \<Longrightarrow> lex_exp (s @ rest) = Some (a, b @ rest)"
  by (cases s)
    (auto simp: lex_exp_def lex_digits_delim lex_digits_delim [of "_ # _", simplified]
      dest: delimD split: list.splits if_splits)

lemma lex_unsigned_delim:
  "lex_unsigned s = Some (a, b) \<Longrightarrow> delim rest \<Longrightarrow> lex_unsigned (s @ rest) = Some (a, b @ rest)"
  by (fastforce simp: lex_unsigned_def lex_int_delim lex_frac_delim lex_exp_delim split: option.splits)

lemma lex_num_delim: "lex_num s = Some (a, b) \<Longrightarrow> delim rest \<Longrightarrow> lex_num (s @ rest) = Some (a, b @ rest)"
  by (cases s)
    (auto simp: lex_num_def lex_unsigned_delim lex_unsigned_delim [of "_ # _", simplified] split: if_splits)

text \<open>The tokens of encoded values.\<close>

lemma next_token_simps [simp]:
  "next_token (CHR ''['' # s) = Some (LBrack, s)"
  "next_token (CHR '']'' # s) = Some (RBrack, s)"
  "next_token (CHR ''{'' # s) = Some (LBrace, s)"
  "next_token (CHR ''}'' # s) = Some (RBrace, s)"
  "next_token (CHR '','' # s) = Some (Comma, s)"
  "next_token (CHR '':'' # s) = Some (Colon, s)"
  "next_token (CHR ''n'' # CHR ''u'' # CHR ''l'' # CHR ''l'' # s) = Some (Null, s)"
  "next_token (CHR ''t'' # CHR ''r'' # CHR ''u'' # CHR ''e'' # s) = Some (Tru, s)"
  "next_token (CHR ''f'' # CHR ''a'' # CHR ''l'' # CHR ''s'' # CHR ''e'' # s) = Some (Fls, s)"
  by (simp_all add: next_token_def json_space_def lex_token_def keyword_def dquote_def)

lemma next_token_string [simp]: "next_token (json_string s @ rest) = Some (Str (to_valid s), rest)"
  by (simp add: json_string_def next_token_def json_space_def lex_token_def lex_str_runes dquote_def [symmetric])
    (simp add: dquote_def)

lemma lex_num_head: "lex_num (c # s) = Some x \<Longrightarrow> c = CHR ''-'' \<or> json_digit c"
  by (auto simp: lex_num_def lex_unsigned_def lex_int_def json_digit_def within_def byte_val_def split: if_splits option.splits)

lemma next_token_num [simp]:
  assumes "num_ok n" "delim rest"
  shows "next_token (n @ rest) = Some (Num n, rest)"
proof -
  have l: "lex_num (n @ rest) = Some (n, rest)"
    using lex_num_delim [of n n "[]" rest] assms by (simp add: num_ok_def)
  obtain c m where n: "n = c # m"
    using assms(1) by (cases n) (auto simp: num_ok_def lex_num_def)
  have "c = CHR ''-'' \<or> json_digit c"
    using lex_num_head assms(1) n by (auto simp: num_ok_def)
  then have "c \<notin> set (''[]{},:ntf'' @ [dquote, CHR 0x20, CHR 0x09, CHR 0x0D, CHR 0x0A])"
    by (auto simp: json_digit_def within_def byte_val_def dquote_def)
  with l n show ?thesis
    by (simp add: next_token_def json_space_def lex_token_def)
qed

section \<open>Encoded values are read back\<close>

lemma json_run_step:
  "next_token s = Some (t, r) \<Longrightarrow> parse_step m st t = Some (m', st') \<Longrightarrow> (st = [] \<Longrightarrow> \<forall>v. m \<noteq> Done v) \<Longrightarrow>
     json_run m st s = json_run m' st' r"
  by (subst json_run.simps) (auto split: mode.splits list.splits)

lemma json_run_punct [simp]:
  "json_run (Done v) (FArr vs # st) (CHR '','' # s) = json_run Value (FArr (v # vs) # st) s"
  "json_run (Done v) (FArr vs # st) (CHR '']'' # s) = json_run (Done (JArr (rev vs @ [v]))) st s"
  "json_run (Done v) (FObj kvs k # st) (CHR '','' # s) = json_run Key (FObj ((k, v) # kvs) [] # st) s"
  "json_run (Done v) (FObj kvs k # st) (CHR ''}'' # s) = json_run (Done (JObj (rev kvs @ [(k, v)]))) st s"
  "json_run ValueOrClose (FArr vs # st) (CHR '']'' # s) = json_run (Done (JArr (rev vs))) st s"
  "json_run KeyOrClose (FObj kvs k # st) (CHR ''}'' # s) = json_run (Done (JObj (rev kvs))) st s"
  "json_run AfterKey st (CHR '':'' # s) = json_run Value st s"
  "json_run (Done v) [] s = Some (v, s)"
  by (subst json_run.simps, simp)+

lemma json_run_key [simp]:
  "json_run Key (FObj kvs k0 # st) (json_string k @ s) = json_run AfterKey (FObj kvs (to_valid k) # st) s"
  "json_run KeyOrClose (FObj kvs k0 # st) (json_string k @ s) = json_run AfterKey (FObj kvs (to_valid k) # st) s"
  by (subst json_run.simps, simp)+

lemma json_run_open:
  "next_token s = Some (t, r) \<Longrightarrow> t \<noteq> RBrack \<Longrightarrow> json_run ValueOrClose st s = json_run Value st s"
  by (subst (1 2) json_run.simps) (auto split: list.splits frame.splits token.splits)

lemma print_token: "json_wf v \<Longrightarrow> delim rest \<Longrightarrow> \<exists>t r. next_token (json_print v @ rest) = Some (t, r) \<and> t \<noteq> RBrack"
  by (cases v) auto

text \<open>The parser, in the middle of any enclosing values, reads an encoded value.\<close>

definition reads_back :: "json \<Rightarrow> bool" where
  "reads_back v \<longleftrightarrow> (\<forall>st rest. length st + json_depth v \<le> maxNestingDepth \<longrightarrow> delim rest \<longrightarrow>
     json_run Value st (json_print v @ rest) = json_run (Done (json_clean v)) st rest)"

lemma reads_backD:
  "reads_back v \<Longrightarrow> length st + json_depth v \<le> maxNestingDepth \<Longrightarrow> delim rest \<Longrightarrow>
     json_run Value st (json_print v @ rest) = json_run (Done (json_clean v)) st rest"
  by (simp add: reads_back_def)

lemma read_elements:
  assumes "vs \<noteq> []" "\<forall>v\<in>set vs. reads_back v \<and> Suc (length st) + json_depth v \<le> maxNestingDepth"
  shows "json_run Value (FArr acc # st) (commas (map json_print vs) @ CHR '']'' # rest) =
    json_run (Done (JArr (rev acc @ map json_clean vs))) st rest"
  using assms
proof (induction vs arbitrary: acc)
  case (Cons v vs)
  show ?case
  proof (cases vs)
    case Nil
    with Cons.prems show ?thesis
      by (simp add: reads_backD)
  next
    case (Cons v' vs')
    with Cons.prems Cons.IH [of "json_clean v # acc"] show ?thesis
      by (simp add: reads_backD)
  qed
qed simp

lemma read_members:
  assumes "kvs \<noteq> []" "\<forall>(k, v)\<in>set kvs. reads_back v \<and> Suc (length st) + json_depth v \<le> maxNestingDepth"
    and "m = Key \<or> m = KeyOrClose"
  shows "json_run m (FObj acc k0 # st)
      (commas (map (\<lambda>(k, v). json_string k @ CHR '':'' # json_print v) kvs) @ CHR ''}'' # rest) =
    json_run (Done (JObj (rev acc @ map (\<lambda>(k, v). (to_valid k, json_clean v)) kvs))) st rest"
  using assms
proof (induction kvs arbitrary: acc m k0)
  case (Cons kv kvs)
  obtain k v where kv: "kv = (k, v)" by (cases kv)
  have key: "json_run m (FObj acc k0 # st) (json_string k @ CHR '':'' # s) =
      json_run Value (FObj acc (to_valid k) # st) s" for s
    using Cons.prems(3)
    by auto
  show ?case
  proof (cases kvs)
    case Nil
    with Cons.prems kv show ?thesis
      by (simp add: key reads_backD)
  next
    case (Cons kv' kvs')
    with Cons.prems Cons.IH [of Key "(to_valid k, json_clean v) # acc" "''''"] kv show ?thesis
      by (simp add: key reads_backD)
  qed
qed simp

lemma fold_max_ge: "x \<in> set xs \<Longrightarrow> x \<le> fold max xs (a :: nat)" "a \<le> fold max xs (a :: nat)"
proof (induction xs arbitrary: a)
  case (Cons y ys)
  case 1
  then show ?case
    using Cons(1) [of "max y a"] Cons(2) [of "max y a"] by auto
next
  case (Cons y ys)
  case 2
  show ?case
    using Cons(2) [of "max y a"] by simp
qed simp_all

lemma read_array:
  assumes "\<forall>v\<in>set vs. reads_back v \<and> json_wf v"
  shows "reads_back (JArr vs)"
  unfolding reads_back_def
proof (intro allI impI)
  fix st :: "frame list" and rest :: string
  assume d: "length st + json_depth (JArr vs) \<le> maxNestingDepth" and "delim rest"
  have el: "\<forall>v\<in>set vs. reads_back v \<and> Suc (length st) + json_depth v \<le> maxNestingDepth"
    using assms d fold_max_ge(1) [of _ "map json_depth vs" 0] by fastforce
  have "json_run Value st (json_print (JArr vs) @ rest) =
      json_run ValueOrClose (FArr [] # st) (commas (map json_print vs) @ CHR '']'' # rest)"
    using d by (subst json_run.simps) simp
  also have "\<dots> = json_run (Done (json_clean (JArr vs))) st rest"
  proof (cases vs)
    case (Cons v vs')
    have "\<exists>t r. next_token (commas (map json_print vs) @ CHR '']'' # rest) = Some (t, r) \<and> t \<noteq> RBrack"
      using Cons assms print_token [of v "CHR '']'' # rest"]
        print_token [of v "CHR '','' # commas (map json_print vs') @ CHR '']'' # rest"]
      by (cases vs') auto
    then show ?thesis
      using read_elements [OF _ el, of "[]" rest] Cons json_run_open by fastforce
  qed simp
  finally show "json_run Value st (json_print (JArr vs) @ rest) = json_run (Done (json_clean (JArr vs))) st rest" .
qed

lemma read_object:
  assumes "\<forall>(k, v)\<in>set kvs. reads_back v"
  shows "reads_back (JObj kvs)"
  unfolding reads_back_def
proof (intro allI impI)
  fix st :: "frame list" and rest :: string
  assume d: "length st + json_depth (JObj kvs) \<le> maxNestingDepth" and "delim rest"
  have el: "\<forall>(k, v)\<in>set kvs. reads_back v \<and> Suc (length st) + json_depth v \<le> maxNestingDepth"
    using assms d fold_max_ge(1) [of _ "map (\<lambda>(k, v). json_depth v) kvs" 0] by fastforce
  have "json_run Value st (json_print (JObj kvs) @ rest) =
      json_run KeyOrClose (FObj [] [] # st)
        (commas (map (\<lambda>(k, v). json_string k @ CHR '':'' # json_print v) kvs) @ CHR ''}'' # rest)"
    using d by (subst json_run.simps) simp
  also have "\<dots> = json_run (Done (json_clean (JObj kvs))) st rest"
    using read_members [OF _ el, of KeyOrClose "[]" "[]" rest] by (cases kvs) auto
  finally show "json_run Value st (json_print (JObj kvs) @ rest) = json_run (Done (json_clean (JObj kvs))) st rest" .
qed

lemma all_read_back: "json_wf v \<Longrightarrow> reads_back v"
proof (induction v)
  case (JArr vs)
  then show ?case
    by (auto simp: list_all_iff intro!: read_array)
next
  case (JObj kvs)
  then show ?case
    by (fastforce simp: list_all_iff intro!: read_object)
qed (auto simp: reads_back_def json_run_step [where m = Value])

theorem json_roundtrip:
  assumes "json_wf v" "json_depth v \<le> maxNestingDepth"
  shows "json_parse (json_print v) = Some (json_clean v)"
    and "json_first (json_print v) = Some (json_clean v)"
  using reads_backD [OF all_read_back [OF assms(1)], of "[]" "[]"] assms(2)
  by (simp_all add: json_parse_def json_first_def)

section \<open>Decoding into structs\<close>

text \<open>
  Member names are matched exactly or else after case folding. For the ASCII names of the program's
  structs that is upper case, with the two other letters that fold into ASCII: the Kelvin sign and
  the long s.
\<close>

definition ascii_upper :: "char \<Rightarrow> char" where
  "ascii_upper c = (if within 97 122 c then char_of (byte_val c - 32) else c)"

fun foldName :: "string \<Rightarrow> string" where
  "foldName [] = []"
| "foldName (c # s) =
     (if c = CHR 0xC5 \<and> take 1 s = [CHR 0xBF] then CHR ''S'' # foldName (drop 1 s)
      else if c = CHR 0xE2 \<and> take 2 s = [CHR 0x84, CHR 0xAA] then CHR ''K'' # foldName (drop 2 s)
      else ascii_upper c # foldName s)"

text \<open>A field decoder takes the value and the struct; \<open>None\<close> is an \<open>UnmarshalTypeError\<close>.\<close>

type_synonym 'a decoder = "json \<Rightarrow> 'a \<Rightarrow> 'a option"

definition match_field :: "(string \<times> 'a decoder) list \<Rightarrow> string \<Rightarrow> 'a decoder option" where
  "match_field fs k =
     (case map_of fs k of
        Some f \<Rightarrow> Some f
      | None \<Rightarrow> map_of (map (apfst foldName) fs) (foldName k))"

fun decode_members :: "(string \<times> 'a decoder) list \<Rightarrow> (string \<times> json) list \<Rightarrow> 'a \<Rightarrow> 'a option" where
  "decode_members fs [] x = Some x"
| "decode_members fs ((k, v) # kvs) x =
     (case (case match_field fs k of None \<Rightarrow> Some x | Some f \<Rightarrow> f v x) of
        None \<Rightarrow> None
      | Some x' \<Rightarrow> decode_members fs kvs x')"

fun decode_struct :: "(string \<times> 'a decoder) list \<Rightarrow> 'a decoder" where
  "decode_struct fs JNull x = Some x"
| "decode_struct fs (JObj kvs) x = decode_members fs kvs x"
| "decode_struct fs _ x = None"

fun decode_string :: "string decoder" where
  "decode_string JNull x = Some x"
| "decode_string (JStr s) x = Some s"
| "decode_string _ x = None"

fun decode_bool :: "bool decoder" where
  "decode_bool JNull x = Some x"
| "decode_bool (JBool b) x = Some b"
| "decode_bool _ x = None"

fun decode_int :: "int decoder" where
  "decode_int JNull x = Some x"
| "decode_int (JNum n) x = (case ParseInt64 n of Inl _ \<Rightarrow> None | Inr i \<Rightarrow> Some i)"
| "decode_int _ x = None"

fun decode_uint64 :: "64 word decoder" where
  "decode_uint64 JNull x = Some x"
| "decode_uint64 (JNum n) x = (case ParseUint n 64 of (u, None) \<Rightarrow> Some (word_of_nat u) | _ \<Rightarrow> None)"
| "decode_uint64 _ x = None"

text \<open>\<open>parse\<close> is \<open>strconv.ParseFloat(n, 64)\<close>, \<open>None\<close> when it is out of range.\<close>

fun decode_float :: "(string \<Rightarrow> float64 option) \<Rightarrow> float64 decoder" where
  "decode_float parse JNull x = Some x"
| "decode_float parse (JNum n) x = parse n"
| "decode_float parse _ x = None"

text \<open>
  A slice: the elements of a slice the field already has are decoded into, as the decoder reuses it;
  \<open>null\<close> makes the slice nil.
\<close>

fun decode_elements :: "'a decoder \<Rightarrow> 'a \<Rightarrow> json list \<Rightarrow> 'a list \<Rightarrow> 'a list option" where
  "decode_elements f z [] old = Some []"
| "decode_elements f z (v # vs) old =
     (case f v (case old of [] \<Rightarrow> z | y # _ \<Rightarrow> y) of
        None \<Rightarrow> None
      | Some x \<Rightarrow> map_option ((#) x) (decode_elements f z vs (tl old)))"

fun decode_slice :: "'a decoder \<Rightarrow> 'a \<Rightarrow> 'a list decoder" where
  "decode_slice f z JNull old = Some []"
| "decode_slice f z (JArr vs) old = decode_elements f z vs old"
| "decode_slice f z _ old = None"

definition field :: "('r \<Rightarrow> 'a) \<Rightarrow> ('a \<Rightarrow> 'r \<Rightarrow> 'r) \<Rightarrow> 'a decoder \<Rightarrow> 'r decoder" where
  "field get set_field dec v r = map_option (\<lambda>x. set_field x r) (dec v (get r))"

definition Unmarshal :: "'a decoder \<Rightarrow> bytes \<Rightarrow> 'a \<Rightarrow> 'a option" where
  "Unmarshal dec b x = (case json_parse (string_of_bytes b) of None \<Rightarrow> None | Some v \<Rightarrow> dec v x)"

definition Marshal :: "json \<Rightarrow> bytes" where
  "Marshal v = bytes_of_string (json_print v)"

text \<open>A member that is left out when it is empty.\<close>

definition omitempty :: "bool \<Rightarrow> string \<Rightarrow> json \<Rightarrow> (string \<times> json) list" where
  "omitempty is_empty k v = (if is_empty then [] else [(k, v)])"

lemma Unmarshal_Marshal:
  "json_wf v \<Longrightarrow> json_depth v \<le> maxNestingDepth \<Longrightarrow> Unmarshal dec (Marshal v) x = dec (json_clean v) x"
  by (simp add: Unmarshal_def Marshal_def json_roundtrip)

lemma to_valid_Nil [simp]: "to_valid [] = []"
  by (simp add: to_valid_def)

lemma to_valid_ascii [simp]: "byte_val c < 0x80 \<Longrightarrow> to_valid (c # s) = c # to_valid s"
  by (simp add: to_valid_def)

lemma format_nat_json_digits: "list_all json_digit (format_nat n)"
  using format_nat_digits [of _ n]
  by (fastforce simp: list_all_iff json_digit_def within_def byte_val_def digit_char_def)

lemma format_nat_leading: "hd (format_nat n) = CHR ''0'' \<Longrightarrow> format_nat n = ''0''"
proof (induction n rule: format_nat.induct)
  case (1 n)
  show ?case
  proof (cases "n < 10")
    case True
    then show ?thesis
      using "1.prems" by (simp add: format_nat.simps [of n])
  next
    case False
    then have d: "format_nat (n div 10) = ''0''" "n div 10 \<noteq> 0"
      using 1 by (simp_all add: format_nat.simps [of n])
    have "format_nat m = ''0'' \<Longrightarrow> m = 0" for m
      using parse_uint_format [of m m] by (simp add: char_digit_def split: if_splits)
    from this [OF d(1)] d(2) show ?thesis
      by simp
  qed
qed

lemma lex_unsigned_format_nat: "lex_unsigned (format_nat n) = Some (format_nat n, [])"
proof -
  obtain c s where f: "format_nat n = c # s"
    by (cases "format_nat n") auto
  have d: "takeWhile json_digit (format_nat n) = format_nat n" "dropWhile json_digit (format_nat n) = []"
    using format_nat_json_digits [of n] by (simp_all add: list_all_iff)
  have "c = CHR ''0'' \<Longrightarrow> s = []"
    using format_nat_leading [of n] f by simp
  then have "lex_int (format_nat n) = Some (format_nat n, [])"
    using d format_nat_json_digits [of n] by (auto simp: lex_int_def f)
  then show ?thesis
    by (simp add: lex_unsigned_def lex_frac_def lex_exp_def)
qed

lemma num_ok_FormatInt [simp]: "num_ok (FormatInt i)"
proof -
  have "lex_num (format_nat n) = Some (format_nat n, [])" for n
    using lex_unsigned_format_nat [of n] hd_format_nat(1) [of n]
    by (cases "format_nat n") (auto simp: lex_num_def)
  then show ?thesis
    by (auto simp: num_ok_def FormatInt_def lex_num_def lex_unsigned_format_nat)
qed

lemma decode_strings: "decode_elements decode_string z (map JStr ss) old = Some ss"
  by (induction ss arbitrary: old) auto

end
