(* ===== verification/Messages.thy ===== *)
theory Messages
  imports Json
begin

text \<open>
  The JSON messages of the program: heartbeats and their acknowledgements
  (\<open>protocol/heartbeat.go\<close>, whose tags say which members are left out when empty), the two members
  the router reads of a completion request (\<open>router/server.go\<close>), the error object it answers with,
  and the engine's model list (\<open>catalog/probe.go\<close>). Each is a list of fields with their decoders.
  The two conversions of \<open>float64\<close> are parameters.
\<close>

section \<open>Floats\<close>

definition float_zero :: "float64 \<Rightarrow> bool" where
  "float_zero x \<longleftrightarrow> x = 0 \<or> x = 0x8000000000000000"

definition float_finite :: "float64 \<Rightarrow> bool" where
  "float_finite x \<longleftrightarrow> drop_bit 52 x AND 0x7FF \<noteq> 0x7FF"

text \<open>What \<open>strconv\<close> promises: the shortest text of a finite float is a number and reads back.\<close>

definition float_text :: "(float64 \<Rightarrow> string) \<Rightarrow> (string \<Rightarrow> float64 option) \<Rightarrow> bool" where
  "float_text fmt parse \<longleftrightarrow> (\<forall>x. float_finite x \<longrightarrow> num_ok (fmt x) \<and> parse (fmt x) = Some x)"

section \<open>Heartbeats\<close>

definition Heartbeat_fields :: "(string \<Rightarrow> float64 option) \<Rightarrow> (string \<times> Heartbeat decoder) list" where
  "Heartbeat_fields parse =
     [(''node_id'', field hb_NodeID (\<lambda>x. hb_NodeID_update (\<lambda>_. x)) decode_string),
      (''enrollment_token'', field hb_EnrollmentToken (\<lambda>x. hb_EnrollmentToken_update (\<lambda>_. x)) decode_string),
      (''connection_state'', field hb_ConnectionState (\<lambda>x. hb_ConnectionState_update (\<lambda>_. x)) decode_string),
      (''active_model'', field hb_ActiveModel (\<lambda>x. hb_ActiveModel_update (\<lambda>_. x)) decode_string),
      (''catalog'', field hb_Catalog (\<lambda>x. hb_Catalog_update (\<lambda>_. x)) (decode_slice decode_string '''')),
      (''vram_total_mb'', field hb_VRAMTotalMB (\<lambda>x. hb_VRAMTotalMB_update (\<lambda>_. x)) decode_uint64),
      (''vram_free_mb'', field hb_VRAMFreeMB (\<lambda>x. hb_VRAMFreeMB_update (\<lambda>_. x)) decode_uint64),
      (''active_requests'', field hb_ActiveRequests (\<lambda>x. hb_ActiveRequests_update (\<lambda>_. x)) decode_int),
      (''estimated_tps'', field hb_EstimatedTPS (\<lambda>x. hb_EstimatedTPS_update (\<lambda>_. x)) (decode_float parse)),
      (''active_conversations'', field hb_ActiveConversations (\<lambda>x. hb_ActiveConversations_update (\<lambda>_. x)) decode_int),
      (''cached_tokens'', field hb_CachedTokens (\<lambda>x. hb_CachedTokens_update (\<lambda>_. x)) decode_int),
      (''pinned_sessions'', field hb_PinnedSessions (\<lambda>x. hb_PinnedSessions_update (\<lambda>_. x)) (decode_slice decode_string ''''))]"

definition unmarshal_Heartbeat :: "(string \<Rightarrow> float64 option) \<Rightarrow> bytes \<Rightarrow> Heartbeat option" where
  "unmarshal_Heartbeat parse b = Unmarshal (decode_struct (Heartbeat_fields parse)) b zeroHeartbeat"

definition Heartbeat_json :: "(float64 \<Rightarrow> string) \<Rightarrow> Heartbeat \<Rightarrow> json" where
  "Heartbeat_json fmt h =
     JObj
       ([(''node_id'', JStr (hb_NodeID h)), (''enrollment_token'', JStr (hb_EnrollmentToken h))]
        @ omitempty (hb_ConnectionState h = '''') ''connection_state'' (JStr (hb_ConnectionState h))
        @ omitempty (hb_ActiveModel h = '''') ''active_model'' (JStr (hb_ActiveModel h))
        @ omitempty (hb_Catalog h = []) ''catalog'' (JArr (map JStr (hb_Catalog h)))
        @ omitempty (hb_VRAMTotalMB h = 0) ''vram_total_mb'' (JNum (FormatInt (uint (hb_VRAMTotalMB h))))
        @ omitempty (hb_VRAMFreeMB h = 0) ''vram_free_mb'' (JNum (FormatInt (uint (hb_VRAMFreeMB h))))
        @ omitempty (hb_ActiveRequests h = 0) ''active_requests'' (JNum (FormatInt (hb_ActiveRequests h)))
        @ omitempty (float_zero (hb_EstimatedTPS h)) ''estimated_tps'' (JNum (fmt (hb_EstimatedTPS h)))
        @ omitempty (hb_ActiveConversations h = 0) ''active_conversations'' (JNum (FormatInt (hb_ActiveConversations h)))
        @ omitempty (hb_CachedTokens h = 0) ''cached_tokens'' (JNum (FormatInt (hb_CachedTokens h)))
        @ omitempty (hb_PinnedSessions h = []) ''pinned_sessions'' (JArr (map JStr (hb_PinnedSessions h))))"

text \<open>The encoder refuses a float that is not a number or infinite.\<close>

definition marshal_Heartbeat :: "(float64 \<Rightarrow> string) \<Rightarrow> Heartbeat \<Rightarrow> bytes option" where
  "marshal_Heartbeat fmt h =
     (if float_finite (hb_EstimatedTPS h) then Some (Marshal (Heartbeat_json fmt h)) else None)"

definition HeartbeatAck_fields :: "(string \<times> HeartbeatAck decoder) list" where
  "HeartbeatAck_fields =
     [(''ok'', field ack_OK (\<lambda>x. ack_OK_update (\<lambda>_. x)) decode_bool),
      (''reason'', field ack_Reason (\<lambda>x. ack_Reason_update (\<lambda>_. x)) decode_string),
      (''detail'', field ack_Detail (\<lambda>x. ack_Detail_update (\<lambda>_. x)) decode_string),
      (''node_id'', field ack_NodeID (\<lambda>x. ack_NodeID_update (\<lambda>_. x)) decode_string)]"

definition unmarshal_HeartbeatAck :: "bytes \<Rightarrow> HeartbeatAck option" where
  "unmarshal_HeartbeatAck b = Unmarshal (decode_struct HeartbeatAck_fields) b zeroHeartbeatAck"

definition HeartbeatAck_json :: "HeartbeatAck \<Rightarrow> json" where
  "HeartbeatAck_json a =
     JObj
       ([(''ok'', JBool (ack_OK a))]
        @ omitempty (ack_Reason a = '''') ''reason'' (JStr (ack_Reason a))
        @ omitempty (ack_Detail a = '''') ''detail'' (JStr (ack_Detail a))
        @ omitempty (ack_NodeID a = '''') ''node_id'' (JStr (ack_NodeID a)))"

definition marshal_HeartbeatAck :: "HeartbeatAck \<Rightarrow> bytes" where
  "marshal_HeartbeatAck a = Marshal (HeartbeatAck_json a)"

section \<open>Requests, errors and model lists\<close>

definition stream_fields :: "(string \<times> bool decoder) list" where
  "stream_fields = [(''stream'', field id (\<lambda>x _. x) decode_bool)]"

definition model_fields :: "(string \<times> string decoder) list" where
  "model_fields = [(''model'', field id (\<lambda>x _. x) decode_string)]"

definition error_json :: "string \<Rightarrow> json" where
  "error_json m = JObj [(''error'', JObj [(''message'', JStr m)])]"

text \<open>The same object as the streamed response writes it, with the verb \<open>%q\<close> for the message.\<close>

definition error_event :: "(string \<Rightarrow> bool) \<Rightarrow> string \<Rightarrow> string" where
  "error_event isPrint m =
     CHR ''{'' # json_string ''error'' @ '':{'' @ json_string ''message'' @ '':'' @ Quote isPrint m @ ''}}''"

text \<open>\<open>modelsResponse\<close>: the ids of its \<open>data\<close>; an entry is the struct with the one field \<open>ID\<close>.\<close>

definition modelsResponse_fields :: "(string \<times> string list decoder) list" where
  "modelsResponse_fields =
     [(''data'', field id (\<lambda>x _. x)
        (decode_slice (decode_struct [(''id'', field id (\<lambda>x _. x) decode_string)]) ''''))]"

definition decode_models :: "bytes \<Rightarrow> string list option" where
  "decode_models b =
     (case json_first (string_of_bytes b) of
        None \<Rightarrow> None
      | Some v \<Rightarrow> decode_struct modelsResponse_fields v [])"

section \<open>Round trips\<close>

definition int64 :: "int \<Rightarrow> bool" where
  "int64 i \<longleftrightarrow> - (2 ^ 63) \<le> i \<and> i < 2 ^ 63"

text \<open>What arrives of a heartbeat: strings with invalid bytes replaced, and no negative zero.\<close>

definition clean_Heartbeat :: "Heartbeat \<Rightarrow> Heartbeat" where
  "clean_Heartbeat h =
     h\<lparr>hb_NodeID := to_valid (hb_NodeID h), hb_EnrollmentToken := to_valid (hb_EnrollmentToken h),
       hb_ConnectionState := to_valid (hb_ConnectionState h), hb_ActiveModel := to_valid (hb_ActiveModel h),
       hb_Catalog := map to_valid (hb_Catalog h),
       hb_EstimatedTPS := (if float_zero (hb_EstimatedTPS h) then 0 else hb_EstimatedTPS h),
       hb_PinnedSessions := map to_valid (hb_PinnedSessions h)\<rparr>"

definition clean_HeartbeatAck :: "HeartbeatAck \<Rightarrow> HeartbeatAck" where
  "clean_HeartbeatAck a =
     a\<lparr>ack_Reason := to_valid (ack_Reason a), ack_Detail := to_valid (ack_Detail a),
       ack_NodeID := to_valid (ack_NodeID a)\<rparr>"

lemma clean_omitempty [simp]:
  "map (\<lambda>(k, v). (to_valid k, json_clean v)) (omitempty b k v) = omitempty b (to_valid k) (json_clean v)"
  by (simp add: omitempty_def)

lemma decode_omitempty:
  assumes "b \<Longrightarrow> x' = x" "\<not> b \<Longrightarrow> decode_members fs [(k, v)] x = Some x'"
  shows "decode_members fs (omitempty b k v @ kvs) x = decode_members fs kvs x'"
  using assms by (cases b) (auto simp: omitempty_def split: option.splits)

lemma decode_omitempty_last:
  assumes "b \<Longrightarrow> x' = x" "\<not> b \<Longrightarrow> decode_members fs [(k, v)] x = Some x'"
  shows "decode_members fs (omitempty b k v) x = Some x'"
  using decode_omitempty [of b x' x fs k v "[]"] assms by simp

lemma wf_omitempty [simp]: "list_all P (omitempty b k v) \<longleftrightarrow> b \<or> P (k, v)"
  by (simp add: omitempty_def)

lemma decode_int_FormatInt [simp]: "int64 i \<Longrightarrow> decode_int (JNum (FormatInt i)) x = Some i"
  by (simp add: int64_def)

lemma decode_uint64_FormatInt [simp]: "decode_uint64 (JNum (FormatInt (uint w))) x = Some w"
proof -
  have "unat w < 2 ^ 64"
    using unsigned_less [of w] by simp
  then show ?thesis
    by (simp add: FormatInt_def unat_eq_nat_uint [symmetric])
qed

text \<open>What one member does to the struct.\<close>

lemma Heartbeat_members:
  "decode_members (Heartbeat_fields parse) [(''node_id'', JStr s)] h = Some (h\<lparr>hb_NodeID := s\<rparr>)"
  "decode_members (Heartbeat_fields parse) [(''enrollment_token'', JStr s)] h = Some (h\<lparr>hb_EnrollmentToken := s\<rparr>)"
  "decode_members (Heartbeat_fields parse) [(''connection_state'', JStr s)] h = Some (h\<lparr>hb_ConnectionState := s\<rparr>)"
  "decode_members (Heartbeat_fields parse) [(''active_model'', JStr s)] h = Some (h\<lparr>hb_ActiveModel := s\<rparr>)"
  "decode_members (Heartbeat_fields parse) [(''catalog'', JArr (map JStr ss))] h = Some (h\<lparr>hb_Catalog := ss\<rparr>)"
  "decode_members (Heartbeat_fields parse) [(''vram_total_mb'', JNum (FormatInt (uint w)))] h = Some (h\<lparr>hb_VRAMTotalMB := w\<rparr>)"
  "decode_members (Heartbeat_fields parse) [(''vram_free_mb'', JNum (FormatInt (uint w)))] h = Some (h\<lparr>hb_VRAMFreeMB := w\<rparr>)"
  "int64 i \<Longrightarrow> decode_members (Heartbeat_fields parse) [(''active_requests'', JNum (FormatInt i))] h = Some (h\<lparr>hb_ActiveRequests := i\<rparr>)"
  "parse n = Some f \<Longrightarrow> decode_members (Heartbeat_fields parse) [(''estimated_tps'', JNum n)] h = Some (h\<lparr>hb_EstimatedTPS := f\<rparr>)"
  "int64 i \<Longrightarrow> decode_members (Heartbeat_fields parse) [(''active_conversations'', JNum (FormatInt i))] h = Some (h\<lparr>hb_ActiveConversations := i\<rparr>)"
  "int64 i \<Longrightarrow> decode_members (Heartbeat_fields parse) [(''cached_tokens'', JNum (FormatInt i))] h = Some (h\<lparr>hb_CachedTokens := i\<rparr>)"
  "decode_members (Heartbeat_fields parse) [(''pinned_sessions'', JArr (map JStr ss))] h = Some (h\<lparr>hb_PinnedSessions := ss\<rparr>)"
  by (simp_all add: Heartbeat_fields_def match_field_def field_def decode_strings del: decode_int.simps decode_uint64.simps)

lemma HeartbeatAck_members:
  "decode_members HeartbeatAck_fields [(''ok'', JBool b)] a = Some (a\<lparr>ack_OK := b\<rparr>)"
  "decode_members HeartbeatAck_fields [(''reason'', JStr s)] a = Some (a\<lparr>ack_Reason := s\<rparr>)"
  "decode_members HeartbeatAck_fields [(''detail'', JStr s)] a = Some (a\<lparr>ack_Detail := s\<rparr>)"
  "decode_members HeartbeatAck_fields [(''node_id'', JStr s)] a = Some (a\<lparr>ack_NodeID := s\<rparr>)"
  by (simp_all add: HeartbeatAck_fields_def match_field_def field_def)

text \<open>A member that was left out leaves the zero value, which is the value it was left out for.\<close>

lemma Heartbeat_optional:
  "hb_ConnectionState h = '''' \<Longrightarrow>
     decode_members (Heartbeat_fields parse) (omitempty (s = '''') ''connection_state'' (JStr (to_valid s)) @ kvs) h =
     decode_members (Heartbeat_fields parse) kvs (h\<lparr>hb_ConnectionState := to_valid s\<rparr>)"
  "hb_ActiveModel h = '''' \<Longrightarrow>
     decode_members (Heartbeat_fields parse) (omitempty (s = '''') ''active_model'' (JStr (to_valid s)) @ kvs) h =
     decode_members (Heartbeat_fields parse) kvs (h\<lparr>hb_ActiveModel := to_valid s\<rparr>)"
  "hb_Catalog h = [] \<Longrightarrow>
     decode_members (Heartbeat_fields parse) (omitempty (ss = []) ''catalog'' (JArr (map JStr (map to_valid ss))) @ kvs) h =
     decode_members (Heartbeat_fields parse) kvs (h\<lparr>hb_Catalog := map to_valid ss\<rparr>)"
  "hb_VRAMTotalMB h = 0 \<Longrightarrow>
     decode_members (Heartbeat_fields parse) (omitempty (w = 0) ''vram_total_mb'' (JNum (FormatInt (uint w))) @ kvs) h =
     decode_members (Heartbeat_fields parse) kvs (h\<lparr>hb_VRAMTotalMB := w\<rparr>)"
  "hb_VRAMFreeMB h = 0 \<Longrightarrow>
     decode_members (Heartbeat_fields parse) (omitempty (w = 0) ''vram_free_mb'' (JNum (FormatInt (uint w))) @ kvs) h =
     decode_members (Heartbeat_fields parse) kvs (h\<lparr>hb_VRAMFreeMB := w\<rparr>)"
  "int64 i \<Longrightarrow> hb_ActiveRequests h = 0 \<Longrightarrow>
     decode_members (Heartbeat_fields parse) (omitempty (i = 0) ''active_requests'' (JNum (FormatInt i)) @ kvs) h =
     decode_members (Heartbeat_fields parse) kvs (h\<lparr>hb_ActiveRequests := i\<rparr>)"
  "(\<not> float_zero f \<Longrightarrow> parse (fmt f) = Some f) \<Longrightarrow> hb_EstimatedTPS h = 0 \<Longrightarrow>
     decode_members (Heartbeat_fields parse) (omitempty (float_zero f) ''estimated_tps'' (JNum (fmt f)) @ kvs) h =
     decode_members (Heartbeat_fields parse) kvs (h\<lparr>hb_EstimatedTPS := (if float_zero f then 0 else f)\<rparr>)"
  "int64 i \<Longrightarrow> hb_ActiveConversations h = 0 \<Longrightarrow>
     decode_members (Heartbeat_fields parse) (omitempty (i = 0) ''active_conversations'' (JNum (FormatInt i)) @ kvs) h =
     decode_members (Heartbeat_fields parse) kvs (h\<lparr>hb_ActiveConversations := i\<rparr>)"
  "int64 i \<Longrightarrow> hb_CachedTokens h = 0 \<Longrightarrow>
     decode_members (Heartbeat_fields parse) (omitempty (i = 0) ''cached_tokens'' (JNum (FormatInt i)) @ kvs) h =
     decode_members (Heartbeat_fields parse) kvs (h\<lparr>hb_CachedTokens := i\<rparr>)"
  "hb_PinnedSessions h = [] \<Longrightarrow>
     decode_members (Heartbeat_fields parse) (omitempty (ss = []) ''pinned_sessions'' (JArr (map JStr (map to_valid ss))) @ kvs) h =
     decode_members (Heartbeat_fields parse) kvs (h\<lparr>hb_PinnedSessions := map to_valid ss\<rparr>)"
  by (rule decode_omitempty; cases h; simp add: Heartbeat_members del: decode_members.simps map_map)+

lemma HeartbeatAck_optional:
  "ack_Reason a = '''' \<Longrightarrow>
     decode_members HeartbeatAck_fields (omitempty (s = '''') ''reason'' (JStr (to_valid s)) @ kvs) a =
     decode_members HeartbeatAck_fields kvs (a\<lparr>ack_Reason := to_valid s\<rparr>)"
  "ack_Detail a = '''' \<Longrightarrow>
     decode_members HeartbeatAck_fields (omitempty (s = '''') ''detail'' (JStr (to_valid s)) @ kvs) a =
     decode_members HeartbeatAck_fields kvs (a\<lparr>ack_Detail := to_valid s\<rparr>)"
  "ack_NodeID a = '''' \<Longrightarrow>
     decode_members HeartbeatAck_fields (omitempty (s = '''') ''node_id'' (JStr (to_valid s)) @ kvs) a =
     decode_members HeartbeatAck_fields kvs (a\<lparr>ack_NodeID := to_valid s\<rparr>)"
  by (rule decode_omitempty; cases a; simp add: HeartbeatAck_members del: decode_members.simps)+

lemma decode_Cons:
  "decode_members fs [(k, v)] x = Some x' \<Longrightarrow> decode_members fs ((k, v) # kvs) x = decode_members fs kvs x'"
  by (auto split: option.splits)

lemmas HeartbeatAck_decode = decode_members.simps(1) decode_Cons [OF HeartbeatAck_members(1)] HeartbeatAck_optional
  HeartbeatAck_optional [where kvs = "[]", unfolded append_Nil2]

lemmas Heartbeat_decode = decode_members.simps(1) decode_Cons [OF Heartbeat_members(1)] decode_Cons [OF Heartbeat_members(2)]
  Heartbeat_optional Heartbeat_optional [where kvs = "[]", unfolded append_Nil2]

lemma HeartbeatAck_roundtrip: "unmarshal_HeartbeatAck (marshal_HeartbeatAck a) = Some (clean_HeartbeatAck a)"
proof -
  have wf: "json_wf (HeartbeatAck_json a)" "json_depth (HeartbeatAck_json a) \<le> maxNestingDepth"
    by (simp_all add: HeartbeatAck_json_def omitempty_def maxNestingDepth_def)
  have "json_clean (HeartbeatAck_json a) =
      JObj ([(''ok'', JBool (ack_OK a))]
        @ omitempty (ack_Reason a = '''') ''reason'' (JStr (to_valid (ack_Reason a)))
        @ omitempty (ack_Detail a = '''') ''detail'' (JStr (to_valid (ack_Detail a)))
        @ omitempty (ack_NodeID a = '''') ''node_id'' (JStr (to_valid (ack_NodeID a))))"
    by (simp add: HeartbeatAck_json_def byte_val_def)
  then show ?thesis
    unfolding unmarshal_HeartbeatAck_def marshal_HeartbeatAck_def Unmarshal_Marshal [OF wf]
    by (cases a) (simp add: clean_HeartbeatAck_def HeartbeatAck_decode zeroHeartbeatAck_def del: decode_members.simps(2))
qed

text \<open>A heartbeat arrives as it was sent.\<close>

definition Heartbeat_sendable :: "Heartbeat \<Rightarrow> bool" where
  "Heartbeat_sendable h \<longleftrightarrow>
     float_finite (hb_EstimatedTPS h) \<and> int64 (hb_ActiveRequests h) \<and> int64 (hb_ActiveConversations h) \<and>
     int64 (hb_CachedTokens h)"

lemma Heartbeat_json_clean:
  "json_clean (Heartbeat_json fmt h) =
     JObj
       ([(''node_id'', JStr (to_valid (hb_NodeID h))), (''enrollment_token'', JStr (to_valid (hb_EnrollmentToken h)))]
        @ omitempty (hb_ConnectionState h = '''') ''connection_state'' (JStr (to_valid (hb_ConnectionState h)))
        @ omitempty (hb_ActiveModel h = '''') ''active_model'' (JStr (to_valid (hb_ActiveModel h)))
        @ omitempty (hb_Catalog h = []) ''catalog'' (JArr (map JStr (map to_valid (hb_Catalog h))))
        @ omitempty (hb_VRAMTotalMB h = 0) ''vram_total_mb'' (JNum (FormatInt (uint (hb_VRAMTotalMB h))))
        @ omitempty (hb_VRAMFreeMB h = 0) ''vram_free_mb'' (JNum (FormatInt (uint (hb_VRAMFreeMB h))))
        @ omitempty (hb_ActiveRequests h = 0) ''active_requests'' (JNum (FormatInt (hb_ActiveRequests h)))
        @ omitempty (float_zero (hb_EstimatedTPS h)) ''estimated_tps'' (JNum (fmt (hb_EstimatedTPS h)))
        @ omitempty (hb_ActiveConversations h = 0) ''active_conversations'' (JNum (FormatInt (hb_ActiveConversations h)))
        @ omitempty (hb_CachedTokens h = 0) ''cached_tokens'' (JNum (FormatInt (hb_CachedTokens h)))
        @ omitempty (hb_PinnedSessions h = []) ''pinned_sessions'' (JArr (map JStr (map to_valid (hb_PinnedSessions h)))))"
  by (simp add: Heartbeat_json_def byte_val_def comp_def)

lemma fold_max_zeros: "\<forall>x\<in>set xs. x \<le> (b :: nat) \<Longrightarrow> a \<le> b \<Longrightarrow> fold max xs a \<le> b"
  by (induction xs arbitrary: a) auto

lemma Heartbeat_json_depth: "json_depth (Heartbeat_json fmt h) \<le> maxNestingDepth"
proof -
  have "json_depth (JArr (map JStr ss)) \<le> 1" for ss
    using fold_max_zeros [of "map json_depth (map JStr ss)" 0 0] by auto
  then have "fold max (map (\<lambda>(k, v). json_depth v) kvs) 0 \<le> 1" if "JObj kvs = Heartbeat_json fmt h" for kvs
    using that by (intro fold_max_zeros) (auto simp: Heartbeat_json_def omitempty_def)
  then have "json_depth (Heartbeat_json fmt h) \<le> 2"
    by (auto simp: Heartbeat_json_def)
  then show ?thesis
    by (simp add: maxNestingDepth_def)
qed

text \<open>A heartbeat that reports no estimate, as the worker's do, needs nothing of the float conversion.\<close>

lemma Heartbeat_arrives:
  assumes "Heartbeat_sendable h"
    and "\<not> float_zero (hb_EstimatedTPS h) \<Longrightarrow>
      num_ok (fmt (hb_EstimatedTPS h)) \<and> parse (fmt (hb_EstimatedTPS h)) = Some (hb_EstimatedTPS h)"
  shows "marshal_Heartbeat fmt h = Some (Marshal (Heartbeat_json fmt h))"
    and "unmarshal_Heartbeat parse (Marshal (Heartbeat_json fmt h)) = Some (clean_Heartbeat h)"
proof -
  show "marshal_Heartbeat fmt h = Some (Marshal (Heartbeat_json fmt h))"
    using assms(1) by (simp add: marshal_Heartbeat_def Heartbeat_sendable_def)
  have "json_wf (Heartbeat_json fmt h)"
    using assms(2) by (auto simp: Heartbeat_json_def list_all_iff omitempty_def)
  then show "unmarshal_Heartbeat parse (Marshal (Heartbeat_json fmt h)) = Some (clean_Heartbeat h)"
    using assms unfolding unmarshal_Heartbeat_def
    by (cases h) (simp add: Unmarshal_Marshal Heartbeat_json_depth Heartbeat_json_clean clean_Heartbeat_def
        Heartbeat_decode Heartbeat_sendable_def zeroHeartbeat_def del: decode_members.simps(2) map_map)
qed

lemma Heartbeat_roundtrip:
  assumes "float_text fmt parse" "Heartbeat_sendable h"
  shows "\<exists>b. marshal_Heartbeat fmt h = Some b \<and> unmarshal_Heartbeat parse b = Some (clean_Heartbeat h)"
  using Heartbeat_arrives [OF assms(2), of fmt parse] assms by (auto simp: float_text_def Heartbeat_sendable_def)

section \<open>The messages round trip\<close>

definition Heartbeat_strings :: "Heartbeat \<Rightarrow> string list" where
  "Heartbeat_strings h =
     [hb_NodeID h, hb_EnrollmentToken h, hb_ConnectionState h, hb_ActiveModel h] @ hb_Catalog h @ hb_PinnedSessions h"

lemma clean_Heartbeat_id:
  assumes "list_all utf8_valid (Heartbeat_strings h)" "hb_EstimatedTPS h \<noteq> 0x8000000000000000"
  shows "clean_Heartbeat h = h"
proof -
  have "map to_valid ss = ss" if "list_all utf8_valid ss" for ss
    using that by (induction ss) (simp_all add: to_valid_id)
  with assms show ?thesis
    by (cases h) (auto simp: clean_Heartbeat_def Heartbeat_strings_def to_valid_id float_zero_def)
qed

text \<open>Acknowledgements are a wire format in the sense of Protocol, so different ones are different on the wire.\<close>

definition ack_utf8 :: "HeartbeatAck \<Rightarrow> bool" where
  "ack_utf8 a \<longleftrightarrow> utf8_valid (ack_Reason a) \<and> utf8_valid (ack_Detail a) \<and> utf8_valid (ack_NodeID a)"

definition ack_dec :: "bytes \<Rightarrow> unit + HeartbeatAck" where
  "ack_dec b = (case unmarshal_HeartbeatAck b of None \<Rightarrow> Inl () | Some a \<Rightarrow> Inr a)"

interpretation ack_codec: wire_codec marshal_HeartbeatAck ack_dec ack_utf8
proof unfold_locales
  fix a assume "ack_utf8 a"
  then have "clean_HeartbeatAck a = a"
    by (cases a) (simp add: ack_utf8_def clean_HeartbeatAck_def to_valid_id)
  then show "ack_dec (marshal_HeartbeatAck a) = Inr a"
    by (simp add: ack_dec_def HeartbeatAck_roundtrip)
qed

text \<open>
  The engine's answer to the model list: the ids in their order, whatever else an entry has.
\<close>

definition models_json :: "string list \<Rightarrow> json" where
  "models_json ids =
     JObj [(''object'', JStr ''list''), (''data'', JArr (map (\<lambda>i. JObj [(''id'', JStr i), (''object'', JStr ''model'')]) ids))]"

lemma decode_model_ids:
  "decode_elements (decode_struct [(''id'', field id (\<lambda>x _. x) decode_string)]) ''''
     (map (\<lambda>i. JObj [(''id'', JStr i), (''object'', JStr ''model'')]) ids) old = Some ids"
  by (induction ids arbitrary: old) (simp_all add: match_field_def field_def)

lemma decode_models_list: "decode_models (Marshal (models_json ids)) = Some (map to_valid ids)"
proof -
  have wf: "json_wf (models_json ids)"
    by (simp add: models_json_def list_all_iff)
  have "json_depth (JArr (map (\<lambda>i. JObj [(''id'', JStr i), (''object'', JStr ''model'')]) ids)) \<le> 2"
    using fold_max_zeros [of "map json_depth (map (\<lambda>i. JObj [(''id'', JStr i), (''object'', JStr ''model'')]) ids)" 1 0] by auto
  then have "json_depth (models_json ids) \<le> maxNestingDepth"
    by (simp add: models_json_def maxNestingDepth_def)
  then have "json_first (json_print (models_json ids)) = Some (json_clean (models_json ids))"
    using json_roundtrip(2) [OF wf] by blast
  moreover have "json_clean (models_json ids) = models_json (map to_valid ids)"
    by (simp add: models_json_def byte_val_def comp_def)
  moreover have "decode_struct modelsResponse_fields (models_json xs) [] = Some xs" for xs
    by (simp add: models_json_def modelsResponse_fields_def match_field_def field_def decode_model_ids)
  ultimately show ?thesis
    by (simp add: decode_models_def Marshal_def)
qed

text \<open>
  C23: heartbeats and their acknowledgements survive the wire. A heartbeat whose counters are
  64-bit and whose estimate is a finite float is always encoded, and the router reads back the
  heartbeat that was sent, whatever members were left out because they were empty; only bytes that
  are not UTF-8 are replaced and a negative zero becomes zero. The worker reads back every
  acknowledgement in the same way, and no two of them with valid text look the same.
\<close>
theorem heartbeat_messages_roundtrip:
  assumes "float_text fmt parse" "Heartbeat_sendable h"
  shows "(\<exists>b. marshal_Heartbeat fmt h = Some b \<and> unmarshal_Heartbeat parse b = Some (clean_Heartbeat h)) \<and>
    unmarshal_HeartbeatAck (marshal_HeartbeatAck a) = Some (clean_HeartbeatAck a) \<and>
    (list_all utf8_valid (Heartbeat_strings h) \<and> hb_EstimatedTPS h \<noteq> 0x8000000000000000 \<longrightarrow> clean_Heartbeat h = h) \<and>
    (ack_utf8 a \<and> ack_utf8 a' \<longrightarrow> (marshal_HeartbeatAck a = marshal_HeartbeatAck a' \<longleftrightarrow> a = a'))"
  using Heartbeat_roundtrip [OF assms] HeartbeatAck_roundtrip clean_Heartbeat_id ack_codec.enc_inject by blast

definition sample_full_heartbeat :: Heartbeat where
  "sample_full_heartbeat =
     zeroHeartbeat\<lparr>hb_NodeID := ''n1'', hb_Catalog := [''llama'', ''qwen''], hb_VRAMTotalMB := 24576,
       hb_ActiveRequests := 3, hb_EstimatedTPS := 0x4045000000000000\<rparr>"

theorem heartbeat_messages_roundtrip_witness:
  "\<exists>b. marshal_Heartbeat (\<lambda>x. FormatInt (uint x)) sample_full_heartbeat = Some b \<and>
    unmarshal_Heartbeat (\<lambda>s. decode_uint64 (JNum s) 0) b = Some sample_full_heartbeat"
proof -
  have "float_text (\<lambda>x. FormatInt (uint x)) (\<lambda>s. decode_uint64 (JNum s) 0)"
    by (simp add: float_text_def num_ok_FormatInt del: decode_uint64.simps)
  moreover have "Heartbeat_sendable sample_full_heartbeat"
    by (simp add: Heartbeat_sendable_def sample_full_heartbeat_def zeroHeartbeat_def float_finite_def int64_def)
  moreover have "list_all utf8_valid (Heartbeat_strings sample_full_heartbeat) \<and> hb_EstimatedTPS sample_full_heartbeat \<noteq> 0x8000000000000000"
    by (simp add: Heartbeat_strings_def sample_full_heartbeat_def zeroHeartbeat_def utf8_valid_def byte_val_def)
  ultimately show ?thesis
    using heartbeat_messages_roundtrip [of "\<lambda>x. FormatInt (uint x)" "\<lambda>s. decode_uint64 (JNum s) 0" sample_full_heartbeat]
    by metis
qed

end
