(* ===== verification/ErrorEvents.thy ===== *)
theory ErrorEvents
  imports Messages
begin

text \<open>
  The error object of a response as the two ways of writing it leave it on the wire. A buffered
  response encodes it as JSON. A streamed response writes it with the verb \<open>%q\<close> of \<open>fmt\<close>, whose
  escapes are those of Go: the lemmas say for which messages the event is JSON, what it then reads
  as, and that it is one line in any case.
\<close>

section \<open>Which quoted strings are JSON\<close>

text \<open>
  A rune whose quoted form is its JSON form too: no byte that is not UTF-8, no control character
  but those JSON has an escape for, and beyond U+FFFF printable ones only.
\<close>

definition quote_is_json :: "(string \<Rightarrow> bool) \<Rightarrow> bool \<times> string \<Rightarrow> bool" where
  "quote_is_json isPrint x =
     (case x of
        (False, _) \<Rightarrow> False
      | (True, [c]) \<Rightarrow> within 0x20 0x7E c \<or> c \<in> {CHR 0x08, CHR 0x09, CHR 0x0A, CHR 0x0C, CHR 0x0D}
      | (True, r) \<Rightarrow> isPrint r \<or> utf8_rune r < 0x10000)"

section \<open>Code points and their bytes\<close>

lemma digit_mod: "k < m \<Longrightarrow> (m * q + k) mod m = k" and digit_div: "k < m \<Longrightarrow> (m * q + k) div m = q"
  for k m q :: nat
  by simp_all

text \<open>The code point of a rune of two or three bytes is encoded as those bytes.\<close>

lemma utf8_encode_2:
  assumes "within 0xC2 0xDF c" "within 0x80 0xBF c1"
  shows "utf8_encode (utf8_rune [c, c1]) = [c, c1]" "\<not> surrogate (utf8_rune [c, c1])"
proof -
  obtain a where a: "byte_val c = 0xC0 + a" "2 \<le> a" "a < 32"
    using assms(1) by (auto simp: within_def dest!: le_Suc_ex)
  obtain b where b: "byte_val c1 = 0x80 + b" "b < 64"
    using assms(2) by (auto simp: within_def dest!: le_Suc_ex)
  have m: "(0xC0 + a) mod 32 = a" "(0x80 + b) mod 64 = b"
    using digit_mod [OF a(3), of 6] digit_mod [OF b(2), of 2] by simp_all
  have "char_of (0xC0 + a) = c" "char_of (0x80 + b) = c1"
    using a(1) b(1) by (metis char_of_byte_val)+
  moreover have "\<not> a * 64 + b < 0x80" "a * 64 + b < 0x800"
    using a b by linarith+
  ultimately show "utf8_encode (utf8_rune [c, c1]) = [c, c1]" "\<not> surrogate (utf8_rune [c, c1])"
    using digit_mod [OF b(2), of a] digit_div [OF b(2), of a]
    by (simp_all add: a b m utf8_encode_def surrogate_def mult.commute)
qed

lemma utf8_encode_3:
  assumes "within 0xE0 0xEF c" "within (if byte_val c = 0xE0 then 0xA0 else 0x80) (if byte_val c = 0xED then 0x9F else 0xBF) c1"
    "within 0x80 0xBF c2"
  shows "utf8_encode (utf8_rune [c, c1, c2]) = [c, c1, c2]" "utf8_rune [c, c1, c2] < 0x10000"
    "\<not> surrogate (utf8_rune [c, c1, c2])"
proof -
  obtain a where a: "byte_val c = 0xE0 + a" "a < 16"
    using assms(1) by (auto simp: within_def dest!: le_Suc_ex)
  obtain b where b: "byte_val c1 = 0x80 + b" "b < 64" "a = 0 \<longrightarrow> 32 \<le> b" "a = 13 \<longrightarrow> b < 32"
    using assms(2) a(1) by (auto simp: within_def dest!: le_Suc_ex split: if_splits)
  obtain d where d: "byte_val c2 = 0x80 + d" "d < 64"
    using assms(3) by (auto simp: within_def dest!: le_Suc_ex)
  have m: "(0xE0 + a) mod 16 = a" "(0x80 + b) mod 64 = b" "(0x80 + d) mod 64 = d"
    using digit_mod [OF a(2), of 14] digit_mod [OF b(2), of 2] digit_mod [OF d(2), of 2] by simp_all
  let ?r = "a * 4096 + b * 64 + d"
  have r: "?r div 4096 = a" "?r div 64 mod 64 = b" "?r mod 64 = d" "0x800 \<le> ?r" "?r < 0x10000"
  proof -
    have bd: "b * 64 + d < 4096"
      using b d by linarith
    show "?r div 4096 = a"
      using digit_div [OF bd, of a] by (simp add: mult.commute add.assoc)
    have e: "?r = 64 * (a * 64 + b) + d"
      by simp
    show "?r div 64 mod 64 = b" "?r mod 64 = d"
      using digit_mod [OF d(2), of "a * 64 + b"] digit_div [OF d(2), of "a * 64 + b"] digit_mod [OF b(2), of a]
      by (simp_all only: e mult.commute)
    show "0x800 \<le> ?r" "?r < 0x10000"
      using a b d by (cases "a = 0", linarith, linarith)+
  qed
  have s: "?r < 0xD800 \<or> 0xE000 \<le> ?r"
  proof (cases a "13 :: nat" rule: linorder_cases)
    case less
    then show ?thesis using b(2) d(2) by linarith
  next
    case equal
    then show ?thesis using b(4) d(2) by simp
  next
    case greater
    then show ?thesis by linarith
  qed
  have "char_of (0xE0 + a) = c" "char_of (0x80 + b) = c1" "char_of (0x80 + d) = c2"
    using a(1) b(1) d(1) by (metis char_of_byte_val)+
  then show "utf8_encode (utf8_rune [c, c1, c2]) = [c, c1, c2]" "utf8_rune [c, c1, c2] < 0x10000"
    "\<not> surrogate (utf8_rune [c, c1, c2])"
    using r s by (auto simp: a b d m utf8_encode_def surrogate_def)
qed

lemma utf8_rune_4:
  assumes "within 0xF0 0xF4 c" "within (if byte_val c = 0xF0 then 0x90 else 0x80) (if byte_val c = 0xF4 then 0x8F else 0xBF) c1"
  shows "\<not> utf8_rune [c, c1, c2, c3] < 0x10000"
proof -
  obtain a where a: "byte_val c = 0xF0 + a" "a < 5"
    using assms(1) by (auto simp: within_def dest!: le_Suc_ex)
  obtain b where b: "byte_val c1 = 0x80 + b" "b < 64" "a = 0 \<longrightarrow> 16 \<le> b"
    using assms(2) a(1) by (auto simp: within_def dest!: le_Suc_ex split: if_splits)
  have m: "(0xF0 + a) mod 8 = a" "(0x80 + b) mod 64 = b"
    using digit_mod [of a 8 30] digit_mod [OF b(2), of 2] a(2) by simp_all
  have "0x10000 \<le> a * 262144 + b * 4096"
    using b by (cases "a = 0") linarith+
  then show ?thesis
    by (simp add: a b m)
qed


lemma utf8_multi:
  assumes "utf8_width (c # s) = Some w" "\<not> within 0x00 0x7F c"
  obtains d r where "take (w - 1) s = d # r"
    "\<And>t. str_step (c # d # r @ t) = Piece (c # d # r) t"
    "utf8_rune (c # d # r) < 0x10000 \<Longrightarrow>
       utf8_encode (utf8_rune (c # d # r)) = c # d # r \<and> \<not> surrogate (utf8_rune (c # d # r))"
proof -
  have big: "0x80 \<le> byte_val c"
    using assms(2) by (simp add: within_def)
  then have c: "c \<noteq> dquote" "c \<noteq> backslash" "\<not> byte_val c < 0x20"
    by auto
  obtain d r where r: "take (w - 1) s = d # r"
    using assms utf8_width_bounds [OF assms(1)]
    by (cases "take (w - 1) s") (auto split: if_splits list.splits)
  have "utf8_width (c # d # r @ t) = Some w" for t
    using utf8_width_take [OF assms(1), of t] by (simp add: r del: utf8_width.simps One_nat_def)
  moreover have "w - 1 = Suc (length r)"
    using utf8_width_bounds(3) [OF assms(1)] arg_cong [OF r, of length] by simp
  ultimately have step: "str_step (c # d # r @ t) = Piece (c # d # r) t" for t
    using c by (simp del: utf8_width.simps)
  have "utf8_encode (utf8_rune (c # d # r)) = c # d # r \<and> \<not> surrogate (utf8_rune (c # d # r))"
    if "utf8_rune (c # d # r) < 0x10000"
    using assms r that
    by (auto simp: utf8_encode_2 utf8_encode_3 utf8_rune_4 simp del: utf8_rune.simps split: if_splits list.splits)
  with r step that show ?thesis by blast
qed

section \<open>Reading a quoted string\<close>

lemma str_step_quoted_ascii:
  assumes "byte_val c < 0x80"
  shows "str_step (quote_rune P (True, [c]) @ t) = (if quote_is_json P (True, [c]) then Piece [c] t else Bad)"
proof (cases "within 0x20 0x7E c")
  case True
  have "c = dquote \<or> c = backslash \<Longrightarrow> str_step (backslash # c # t) = Piece [c] t"
    by (auto simp: simple_escapes_def dquote_def backslash_def byte_val_def)
  moreover have "c \<noteq> dquote \<Longrightarrow> c \<noteq> backslash \<Longrightarrow> str_step (c # t) = Piece [c] t"
    using True by (simp add: within_def)
  ultimately show ?thesis
    using True by (simp add: quote_rune_def quote_is_json_def del: str_step.simps)
next
  case False
  then have "c \<noteq> dquote" "c \<noteq> backslash"
    by (auto simp: within_def)
  moreover have "str_step (backslash # e # u) = (case map_of simple_escapes e of None \<Rightarrow> Bad | Some d \<Rightarrow> Piece [d] u)"
    if "e \<noteq> CHR ''u''" for e u
    using that by simp
  ultimately show ?thesis
    using False
    by (auto simp: quote_rune_def quote_is_json_def quote_escapes_def simple_escapes_def dquote_def backslash_def
        simp del: str_step.simps)
qed

lemma str_step_quoted:
  assumes "utf8_width (c # s) = Some w"
  shows "str_step (quote_rune P (True, c # take (w - 1) s) @ t) =
    (if quote_is_json P (True, c # take (w - 1) s) then Piece (c # take (w - 1) s) t else Bad)"
proof (cases "within 0x00 0x7F c")
  case True
  then have w: "w = 1"
    using assms by simp
  then show ?thesis
    using str_step_quoted_ascii [of c P t] True by (simp add: within_def del: str_step.simps)
next
  case False
  then obtain d r where r: "take (w - 1) s = d # r" and step: "\<And>t. str_step (c # d # r @ t) = Piece (c # d # r) t"
    and enc: "utf8_rune (c # d # r) < 0x10000 \<Longrightarrow>
       utf8_encode (utf8_rune (c # d # r)) = c # d # r \<and> \<not> surrogate (utf8_rune (c # d # r))"
    using utf8_multi [OF assms] by metis
  have "str_step (backslash # CHR ''U'' # u) = Bad" for u
    by (simp add: simple_escapes_def backslash_def dquote_def byte_val_def)
  moreover have "str_step (backslash # CHR ''u'' # hex_digits 4 n @ t) = Piece (utf8_encode n) t"
    if "n < 0x10000" "\<not> surrogate n" for n
    using str_step_u [OF that, of t] by (simp add: json_u_def del: str_step.simps)
  ultimately show ?thesis
    unfolding r using enc by (simp add: step quote_rune_def quote_is_json_def del: str_step.simps utf8_rune.simps)
qed

lemma str_step_quoted_invalid: "str_step (quote_rune P (False, r) @ t) = Bad"
  by (simp add: quote_rune_def simple_escapes_def backslash_def dquote_def byte_val_def)

lemma lex_str_quoted:
  "lex_str (concat (map (quote_rune P) (runes s)) @ dquote # rest) =
     (if list_all (quote_is_json P) (runes s) then Some (s, rest) else None)"
proof (induction s rule: runes.induct)
  case (1 s)
  show ?case
  proof (cases s)
    case Nil
    then show ?thesis
      by (simp add: lex_str.simps)
  next
    case (Cons c cs)
    show ?thesis
    proof (cases "utf8_width (c # cs)")
      case None
      with Cons show ?thesis
        by (simp add: runes_invalid lex_str.simps [of "quote_rune _ _ @ _"] str_step_quoted_invalid quote_is_json_def
            del: utf8_width.simps One_nat_def)
    next
      case (Some w)
      with 1 Cons show ?thesis
        by (simp add: runes_valid lex_str.simps [of "quote_rune _ _ @ _"] str_step_quoted
            del: utf8_width.simps One_nat_def)
    qed
  qed
qed

lemma next_token_quoted:
  "next_token (Quote P s @ rest) = (if list_all (quote_is_json P) (runes s) then Some (Str s, rest) else None)"
  by (simp add: Quote_def next_token_def json_space_def lex_token_def lex_str_quoted dquote_def [symmetric])
    (simp add: dquote_def)

lemma json_run_bad: "next_token s = None \<Longrightarrow> json_run Value st s = None"
  by (simp add: json_run.simps)

lemma error_event_parse:
  "json_parse (error_event P m) = (if list_all (quote_is_json P) (runes m) then Some (error_json m) else None)"
proof -
  have v: "to_valid ''error'' = ''error''" "to_valid ''message'' = ''message''"
    by (simp_all add: to_valid_def byte_val_def)
  have "json_run Value [] (error_event P m) = json_run Value [FObj [] ''message'', FObj [] ''error''] (Quote P m @ ''}}'')"
    by (simp add: error_event_def json_run_step [where m = Value] json_run_step [where m = Value and t = LBrace] maxNestingDepth_def v)
  then show ?thesis
    by (simp add: json_parse_def error_json_def json_run_step [where m = Value] next_token_quoted json_run_bad)
qed

section \<open>The event is one line\<close>

lemma rune_bytes:
  assumes "utf8_width (c # s) = Some w" "\<not> within 0x00 0x7F c"
  shows "\<forall>b \<in> set (c # take (w - 1) s). 0x80 \<le> byte_val b"
  using assms by (auto simp: within_def split: if_splits list.splits)

lemma hex_digits_printable: "x \<in> set (hex_digits k n) \<Longrightarrow> within 0x20 0x7E x"
proof (induction k arbitrary: n)
  case (Suc k)
  have "\<forall>d\<in>set hextable. within 0x20 0x7E d" "length hextable = 16"
    by (simp_all add: hextable_def within_def byte_val_def)
  then have "within 0x20 0x7E (hextable ! (n mod 16))"
    by (metis mod_less_divisor nth_mem zero_less_numeral)
  with Suc show ?case by auto
qed simp

definition graphic :: "string \<Rightarrow> bool" where
  "graphic s \<longleftrightarrow> list_all (\<lambda>c. 0x20 \<le> byte_val c) s"

lemma graphic_simps [simp]:
  "graphic []" "graphic (c # s) \<longleftrightarrow> 0x20 \<le> byte_val c \<and> graphic s" "graphic (s @ t) \<longleftrightarrow> graphic s \<and> graphic t"
  by (simp_all add: graphic_def)

lemma escape_letters: "0x20 \<le> byte_val (CHR ''x'')" "0x20 \<le> byte_val (CHR ''u'')" "0x20 \<le> byte_val (CHR ''U'')"
  by (simp_all add: byte_val_def)

lemma hex_digits_graphic [simp]: "graphic (hex_digits k n)"
  using hex_digits_printable by (fastforce simp: graphic_def list_all_iff within_def)

lemma quote_rune_graphic:
  assumes "utf8_width (c # s) = Some w"
  shows "graphic (quote_rune P (True, c # take (w - 1) s))"
proof (cases "within 0x00 0x7F c")
  case True
  then have "w = 1"
    using assms by simp
  have "map_of quote_escapes c = Some e \<Longrightarrow> 0x20 \<le> byte_val e" for e
    by (auto simp: quote_escapes_def byte_val_def split: if_splits)
  then have "graphic (quote_rune P (True, [c]))"
    by (auto simp: quote_rune_def within_def escape_letters split: option.split)
  then show ?thesis
    by (simp add: \<open>w = 1\<close>)
next
  case False
  then have "graphic (c # take (w - 1) s)"
    using rune_bytes [OF assms] by (fastforce simp: graphic_def list_all_iff)
  moreover obtain d r where "take (w - 1) s = d # r"
    using utf8_multi [OF assms False] by metis
  ultimately show ?thesis
    by (simp add: quote_rune_def escape_letters del: One_nat_def)
qed

lemma quote_rune_invalid_graphic: "graphic (quote_rune P (False, r))"
  by (simp add: quote_rune_def escape_letters)

lemma Quote_graphic: "graphic (Quote P s)"
proof -
  have "graphic (concat (map (quote_rune P) (runes s)))"
  proof (induction s rule: runes.induct)
    case (1 s)
    show ?case
    proof (cases s)
      case (Cons c cs)
      then show ?thesis
        using 1 by (cases "utf8_width (c # cs)")
          (simp_all add: runes_invalid runes_valid quote_rune_graphic quote_rune_invalid_graphic
            del: utf8_width.simps One_nat_def)
    qed simp
  qed
  then show ?thesis
    by (simp add: Quote_def)
qed

lemma error_event_graphic: "graphic (error_event P m)"
  using Quote_graphic
  by (simp add: error_event_def json_string_def json_rune_def json_ascii_def json_safe_def dquote_def backslash_def byte_val_def)

lemma error_event_one_line: "CHR 0x0A \<notin> set (error_event P m)"
  using error_event_graphic [of P m] by (auto simp: graphic_def list_all_iff byte_val_def)

end
