(* ===== verification/Router.thy ===== *)
theory Router
  imports ErrorEvents Nodes Auth AuditLog
begin

text \<open>
  The router of \<open>src/internal/router/server.go\<close>: the mesh receive loop with its heartbeat and
  frame handlers, and the chat-completions endpoint with its buffered and streamed responses.
  The answers of the world to one event (the clock, failures of the database and of the socket,
  the verdict of the PASETO library, the reading of a float, the order of map iterations)
  are the fields of an environment record.
\<close>

section \<open>State\<close>

record Server =
  srv_nodes :: nodeRegistry
  srv_sessions :: "(string, Frame chan) gomap"
  srv_sock :: sock
  srv_db :: db
  srv_persist :: bool
  srv_audit :: "Entry chan option"

record rt_env =
  w_now :: time
  w_parse_float :: "string \<Rightarrow> float64 option"
  w_parseV4 :: "string \<Rightarrow> time \<Rightarrow> string \<Rightarrow> string + claims"
  w_errText :: "auth_err \<Rightarrow> string"
  w_enroll_fault :: "string option"
  w_ord :: "(string, claimEntry) gomap \<Rightarrow> (string, claimEntry) gomap"
  w_ord' :: "(string, claimEntry) gomap \<Rightarrow> (string, claimEntry) gomap"
  w_pf :: persist_faults
  w_send_fault :: "string option"

definition sessionBufferSize :: nat where "sessionBufferSize = 256"
definition nodeStaleAfter :: duration where "nodeStaleAfter = 15 * Second"

text \<open>\<open>New\<close>: \<open>has_db\<close> says whether the registry got a database handle.\<close>

definition New :: "duration \<Rightarrow> db \<Rightarrow> bool \<Rightarrow> Entry chan option \<Rightarrow> Server" where
  "New stale d has_db audit =
     \<lparr>srv_nodes = newNodeRegistry (if stale = 0 then nodeStaleAfter else stale), srv_sessions = [],
      srv_sock = [], srv_db = d, srv_persist = has_db, srv_audit = audit\<rparr>"

section \<open>The mesh side\<close>

text \<open>The encoding of an acknowledgement, a boolean and strings, cannot fail.\<close>

definition sendAck :: "rt_env \<Rightarrow> PipeID \<Rightarrow> HeartbeatAck \<Rightarrow> Server \<Rightarrow> Server" where
  "sendAck env pipe ack s =
     s\<lparr>srv_sock := snd (SendTo (w_send_fault env) pipe
         (Envelope_Encode \<lparr>env_ReqID = HeartbeatAckReqID, env_Payload = marshal_HeartbeatAck ack\<rparr>) (srv_sock s))\<rparr>"

definition claim :: "rt_env \<Rightarrow> string \<Rightarrow> string \<Rightarrow> string \<Rightarrow> PipeID \<Rightarrow> Server \<Rightarrow> Server" where
  "claim env nodeID reason detail pipe s =
     s\<lparr>srv_nodes := recordClaim (w_ord env) (w_ord' env) (w_now env) nodeID reason detail pipe (srv_nodes s)\<rparr>"

definition hb_entry :: "rt_env \<Rightarrow> Enrollment \<Rightarrow> PipeID \<Rightarrow> Heartbeat \<Rightarrow> nodeEntry" where
  "hb_entry env enr pipe hb =
     \<lparr>ne_id = enr_NodeName enr, ne_tokenID = enr_ID enr, ne_pipe = pipe,
      ne_connectionState = hb_ConnectionState hb, ne_activeModel = hb_ActiveModel hb,
      ne_catalog = hb_Catalog hb, ne_vramTotalMB = hb_VRAMTotalMB hb, ne_vramFreeMB = hb_VRAMFreeMB hb,
      ne_activeRequests = hb_ActiveRequests hb, ne_estimatedTPS = hb_EstimatedTPS hb,
      ne_activeConversations = hb_ActiveConversations hb, ne_cachedTokens = hb_CachedTokens hb,
      ne_pinnedSessions = hb_PinnedSessions hb, ne_lastSeen = w_now env, ne_syncedCatalog = []\<rparr>"

definition registry_upsert :: "rt_env \<Rightarrow> nodeEntry \<Rightarrow> Server \<Rightarrow> Server" where
  "registry_upsert env e s =
     (case upsert (w_pf env) (w_now env) e (srv_nodes s) (if srv_persist s then Some (srv_db s) else None) of
        (r, None) \<Rightarrow> s\<lparr>srv_nodes := r\<rparr>
      | (r, Some d) \<Rightarrow> s\<lparr>srv_nodes := r, srv_db := d\<rparr>)"

definition handleHeartbeat :: "rt_env \<Rightarrow> PipeID \<Rightarrow> Envelope \<Rightarrow> Server \<Rightarrow> Server" where
  "handleHeartbeat env pipe e s =
     (case unmarshal_Heartbeat (w_parse_float env) (env_Payload e) of
        None \<Rightarrow>
          sendAck env pipe (zeroHeartbeatAck\<lparr>ack_Reason := AckReasonAuthFailed, ack_Detail := ''malformed heartbeat''\<rparr>) s
      | Some hb \<Rightarrow>
        (case Signer_Parse (w_parseV4 env) (w_now env) (hb_EnrollmentToken hb) of
           Inl err \<Rightarrow>
             sendAck env pipe (zeroHeartbeatAck\<lparr>ack_Reason := AckReasonAuthFailed, ack_Detail := w_errText env err\<rparr>)
               (claim env (hb_NodeID hb) AckReasonAuthFailed (w_errText env err) pipe s)
         | Inr enr \<Rightarrow>
           (case Enrollment_IsActive (w_now env) (w_enroll_fault env) (enr_ID enr) (srv_db s) of
              Inl err \<Rightarrow>
                sendAck env pipe (zeroHeartbeatAck\<lparr>ack_Reason := AckReasonInternal, ack_Detail := ''enrollment lookup failed''\<rparr>)
                  (claim env (enr_NodeName enr) AckReasonInternal (w_errText env err) pipe s)
            | Inr False \<Rightarrow>
                sendAck env pipe (zeroHeartbeatAck\<lparr>ack_Reason := AckReasonInactive, ack_Detail := ''enrollment revoked or expired''\<rparr>)
                  (claim env (enr_NodeName enr) AckReasonInactive ''enrollment revoked or expired'' pipe s)
            | Inr True \<Rightarrow>
                sendAck env pipe (zeroHeartbeatAck\<lparr>ack_OK := True, ack_NodeID := enr_NodeName enr\<rparr>)
                  (registry_upsert env (hb_entry env enr pipe hb) s))))"

definition handleMeshMessage :: "rt_env \<Rightarrow> message \<Rightarrow> Server \<Rightarrow> Server" where
  "handleMeshMessage env msg s =
     (case DecodeEnvelope (msg_Body msg) of
        Inl _ \<Rightarrow> s
      | Inr e \<Rightarrow>
        (case PipeFromHeader (msg_Header msg) of
           Inl _ \<Rightarrow> s
         | Inr pipe \<Rightarrow>
             if env_ReqID e = HeartbeatReqID then handleHeartbeat env pipe e s
             else
               (case DecodeFrame (env_Payload e) of
                  Inl _ \<Rightarrow> s
                | Inr f \<Rightarrow>
                  (case map_of (srv_sessions s) (env_ReqID e) of
                     None \<Rightarrow> s
                   | Some ch \<Rightarrow>
                       s\<lparr>srv_sessions := AList.update (env_ReqID e) (fst (chan_try_send f ch)) (srv_sessions s)\<rparr>))))"

text \<open>
  The receive loop over what the successive iterations see: whether the context is done, the
  result of \<open>Recv\<close>, and the environment of the handler.
\<close>

datatype recv_result = Received message | RecvClosed | RecvTimeout | RecvError string

fun recvLoop :: "(bool \<times> recv_result \<times> rt_env) list \<Rightarrow> Server \<Rightarrow> Server" where
  "recvLoop [] s = s"
| "recvLoop ((ctx_done, res, env) # evs) s =
     (if ctx_done then s
      else case res of
             Received msg \<Rightarrow> recvLoop evs (handleMeshMessage env msg s)
           | RecvClosed \<Rightarrow> s
           | RecvTimeout \<Rightarrow> recvLoop evs s
           | RecvError _ \<Rightarrow> recvLoop evs s)"

section \<open>The HTTP side\<close>

text \<open>
  A response: its status, its content type and its body, either raw bytes or the JSON error object
  \<open>{"error":{"message":m}}\<close>. The handlers set a type by name for what they relay; for an error they
  leave it to \<open>c.JSON\<close>, whose JSON type (and spelling of it) is the web framework's.
\<close>

datatype http_body = ErrorBody string | RawBody bytes

datatype content_type = TypeSet string | TypeOfJSON

record http_response =
  rs_status :: int
  rs_type :: content_type
  rs_body :: http_body

definition json_error :: "int \<Rightarrow> string \<Rightarrow> http_response" where
  "json_error st m = \<lparr>rs_status = st, rs_type = TypeOfJSON, rs_body = ErrorBody m\<rparr>"

definition extractBearer :: "string \<Rightarrow> string" where
  "extractBearer authz =
     (let prefix = ''Bearer ''
      in if length authz > length prefix \<and> map ascii_lower (take (length prefix) authz) = map ascii_lower prefix
         then drop (length prefix) authz else '''')"

text \<open>The environment of one request, as above.\<close>

record http_env =
  h_now :: time
  h_uuid :: string
  h_argon :: argon2
  h_ord :: "api_key_row list \<Rightarrow> api_key_row list"
  h_qfault :: "string option"
  h_ifault :: "string option"
  h_errText :: "auth_err \<Rightarrow> string"
  h_send_fault :: "string option"

record http_request =
  rq_authorization :: string
  rq_body :: bytes

definition isStream :: "bytes \<Rightarrow> bool" where
  "isStream body = (case Unmarshal (decode_struct stream_fields) body False of None \<Rightarrow> False | Some b \<Rightarrow> b)"

definition modelRequested :: "bytes \<Rightarrow> string" where
  "modelRequested body = (case Unmarshal (decode_struct model_fields) body '''' of None \<Rightarrow> '''' | Some m \<Rightarrow> m)"

definition authenticate :: "http_env \<Rightarrow> http_request \<Rightarrow> Server \<Rightarrow> string + APIKey" where
  "authenticate env rq s =
     (let token = extractBearer (rq_authorization rq)
      in if token = '''' then Inl ''missing api key''
         else case APIKey_Verify (h_argon env) (h_ord env) (h_now env) (h_qfault env) (h_ifault env) token (srv_db s) of
                Inl err \<Rightarrow> Inl (h_errText env err)
              | Inr ak \<Rightarrow> Inr ak)"

record auditContext =
  ac_apiKeyID :: string
  ac_nodeID :: string
  ac_modelReq :: string
  ac_modelServed :: string
  ac_start :: time
  ac_streamed :: bool

definition milliseconds :: "duration \<Rightarrow> int" where
  "milliseconds d = (if 0 \<le> d then d div Millisecond else - ((- d) div Millisecond))"

definition audit_entry :: "time \<Rightarrow> auditContext \<Rightarrow> int \<Rightarrow> Entry" where
  "audit_entry now ac status =
     \<lparr>en_APIKeyID = ac_apiKeyID ac, en_NodeID = ac_nodeID ac, en_ModelRequested = ac_modelReq ac,
      en_ModelServed = (if ac_modelServed ac = '''' then ac_modelReq ac else ac_modelServed ac),
      en_PromptTokens = 0, en_CompletionTokens = 0, en_TTFTMs = 0,
      en_TotalDurationMs = milliseconds (time_sub now (ac_start ac)),
      en_WasStreamed = ac_streamed ac, en_WasModelSwapped = False, en_StatusCode = status,
      en_CreatedAt = zero_time\<rparr>"

definition recordAudit :: "time \<Rightarrow> auditContext \<Rightarrow> int \<Rightarrow> Server \<Rightarrow> Server" where
  "recordAudit now ac status s =
     (case srv_audit s of
        None \<Rightarrow> s
      | Some ch \<Rightarrow> s\<lparr>srv_audit := Some (snd (Record_ch (audit_entry now ac status) ch))\<rparr>)"

text \<open>
  \<open>handleChatCompletions\<close> up to the wait for frames: an immediate response, or the session that
  was opened. A nil dereference of the selection is the value \<open>Crash\<close>.
\<close>

datatype chat_start = Crash | Respond http_response | Opened string auditContext

definition handleChatCompletions :: "http_env \<Rightarrow> http_request \<Rightarrow> Server \<Rightarrow> chat_start \<times> Server" where
  "handleChatCompletions env rq s =
     (case authenticate env rq s of
        Inl m \<Rightarrow> (Respond (json_error 401 m), s)
      | Inr ak \<Rightarrow>
        (case selectLeastConnections (h_now env) (srv_nodes s) of
           Inl _ \<Rightarrow> (Crash, s)
         | Inr None \<Rightarrow> (Respond (json_error 503 ''no worker available''), s)
         | Inr (Some node) \<Rightarrow>
             let reqID = h_uuid env;
                 s1 = s\<lparr>srv_sessions := AList.update reqID (make_chan sessionBufferSize) (srv_sessions s)\<rparr>;
                 (err, sock) = SendTo (h_send_fault env) (ne_pipe node)
                   (Envelope_Encode \<lparr>env_ReqID = reqID, env_Payload = rq_body rq\<rparr>) (srv_sock s1)
             in if err \<noteq> None
                then (Respond (json_error 502 ''dispatch failed''),
                      s1\<lparr>srv_sock := sock, srv_sessions := AList.delete reqID (srv_sessions s1)\<rparr>)
                else (Opened reqID
                        \<lparr>ac_apiKeyID = key_ID ak, ac_nodeID = ne_id node,
                         ac_modelReq = modelRequested (rq_body rq), ac_modelServed = ne_activeModel node,
                         ac_start = h_now env, ac_streamed = isStream (rq_body rq)\<rparr>,
                      s1\<lparr>srv_sock := sock\<rparr>)))"

text \<open>
  The two response loops over the frames received so far from the session's channel, which
  nobody ever closes: either the loop has returned, with the status it audits, or it waits for
  the next frame. \<open>flush_ok\<close> answers for the flush after each chunk; the error event is written with the verb \<open>%q\<close> of \<open>fmt\<close>,
  for which \<open>isPrint\<close> says which characters outside ASCII are printable.
\<close>

datatype 'a loop_result = Waiting 'a | Returned int 'a

fun buffered_loop :: "Frame list \<Rightarrow> bytes \<Rightarrow> http_body loop_result" where
  "buffered_loop [] buf = Waiting (RawBody buf)"
| "buffered_loop (f # fs) buf =
     (if frame_Type f = FrameTypeChunk then buffered_loop fs (buf @ frame_Payload f)
      else if frame_Type f = FrameTypeEOF then Returned 200 (RawBody buf)
      else if frame_Type f = FrameTypeError then Returned 502 (ErrorBody (string_of_bytes (frame_Payload f)))
      else buffered_loop fs buf)"

definition sse_error :: "(string \<Rightarrow> bool) \<Rightarrow> bytes \<Rightarrow> bytes" where
  "sse_error isPrint payload =
     bytes_of_string (''data: '' @ error_event isPrint (string_of_bytes payload) @ [CHR 0x0A, CHR 0x0A])"

fun stream_loop :: "(nat \<Rightarrow> bool) \<Rightarrow> (string \<Rightarrow> bool) \<Rightarrow> nat \<Rightarrow> Frame list \<Rightarrow> bytes \<Rightarrow> bytes loop_result" where
  "stream_loop flush_ok isPrint i [] out = Waiting out"
| "stream_loop flush_ok isPrint i (f # fs) out =
     (if frame_Type f = FrameTypeChunk then
        (if flush_ok i then stream_loop flush_ok isPrint (Suc i) fs (out @ frame_Payload f)
         else Returned 502 (out @ frame_Payload f))
      else if frame_Type f = FrameTypeEOF then Returned 200 out
      else if frame_Type f = FrameTypeError then Returned 502 (out @ sse_error isPrint (frame_Payload f))
      else stream_loop flush_ok isPrint i fs out)"

text \<open>The response of a buffered request whose loop has returned.\<close>

fun buffered_reply :: "http_body loop_result \<Rightarrow> http_response option" where
  "buffered_reply (Waiting _) = None"
| "buffered_reply (Returned st b) =
     Some \<lparr>rs_status = st, rs_type = (if st = 200 then TypeSet ''application/json'' else TypeOfJSON), rs_body = b\<rparr>"

text \<open>What a client gets as the body: \<open>c.JSON\<close> encodes the error object.\<close>

definition http_body_bytes :: "http_body \<Rightarrow> bytes" where
  "http_body_bytes b = (case b of ErrorBody m \<Rightarrow> Marshal (error_json m) | RawBody bs \<Rightarrow> bs)"

text \<open>The deferred cleanup and the audit call that end a response loop.\<close>

definition finish :: "time \<Rightarrow> string \<Rightarrow> auditContext \<Rightarrow> int \<Rightarrow> Server \<Rightarrow> Server" where
  "finish now reqID ac status s =
     (recordAudit now ac status s)\<lparr>srv_sessions := AList.delete reqID (srv_sessions s)\<rparr>"

text \<open>A streamed response is already under way when its loop ends: its status is 200 in any case.\<close>

fun stream_reply :: "bytes loop_result \<Rightarrow> http_response option" where
  "stream_reply (Waiting _) = None"
| "stream_reply (Returned _ out) =
     Some \<lparr>rs_status = 200, rs_type = TypeSet ''text/event-stream'', rs_body = RawBody out\<rparr>"

section \<open>The router as a transition system\<close>

text \<open>
  The server together with the handlers that wait on a session's channel. A handler remembers
  the frames it has received; its loop is then a function of them.
\<close>

record handler =
  hd_ac :: auditContext
  hd_flush_ok :: "nat \<Rightarrow> bool"
  hd_isPrint :: "string \<Rightarrow> bool"
  hd_seen :: "Frame list"

record rt_sys =
  sys_srv :: Server
  sys_handlers :: "(string, handler) gomap"

definition loop_status :: "'a loop_result \<Rightarrow> int option" where
  "loop_status r = (case r of Waiting _ \<Rightarrow> None | Returned st _ \<Rightarrow> Some st)"

definition handler_status :: "handler \<Rightarrow> int option" where
  "handler_status h =
     (if ac_streamed (hd_ac h) then loop_status (stream_loop (hd_flush_ok h) (hd_isPrint h) 0 (hd_seen h) [])
      else loop_status (buffered_loop (hd_seen h) []))"

definition handler_reply :: "handler \<Rightarrow> http_response option" where
  "handler_reply h =
     (if ac_streamed (hd_ac h) then stream_reply (stream_loop (hd_flush_ok h) (hd_isPrint h) 0 (hd_seen h) [])
      else buffered_reply (buffered_loop (hd_seen h) []))"

text \<open>
  The events of a run: a frame queued for a session or dropped, a session opened, a handler
  that took a frame and goes on, a handler that returned.
\<close>

datatype rt_event =
  Queued string Frame | Lost string Frame | Open string | Took string | Ended string http_response | Other

definition mesh_event :: "message \<Rightarrow> Server \<Rightarrow> rt_event" where
  "mesh_event msg s =
     (case (DecodeEnvelope (msg_Body msg), PipeFromHeader (msg_Header msg)) of
        (Inr e, Inr pipe) \<Rightarrow>
          (case DecodeFrame (env_Payload e) of
             Inr f \<Rightarrow>
               (case map_of (srv_sessions s) (env_ReqID e) of
                  Some ch \<Rightarrow>
                    if env_ReqID e = HeartbeatReqID then Other
                    else if snd (chan_try_send f ch) then Queued (env_ReqID e) f else Lost (env_ReqID e) f
                | None \<Rightarrow> Other)
           | Inl _ \<Rightarrow> Other)
      | _ \<Rightarrow> Other)"

inductive rt_step :: "rt_sys \<Rightarrow> rt_event \<Rightarrow> rt_sys \<Rightarrow> bool" where
  mesh: "range_order (w_ord env) \<Longrightarrow> range_order (w_ord' env) \<Longrightarrow>
    rt_step S (mesh_event msg (sys_srv S)) (S\<lparr>sys_srv := handleMeshMessage env msg (sys_srv S)\<rparr>)"
| refused: "handleChatCompletions env rq (sys_srv S) = (Respond rsp, s') \<Longrightarrow>
    map_of (srv_sessions (sys_srv S)) (h_uuid env) = None \<Longrightarrow> rt_step S Other (S\<lparr>sys_srv := s'\<rparr>)"
| opened: "handleChatCompletions env rq (sys_srv S) = (Opened reqID ac, s') \<Longrightarrow>
    map_of (srv_sessions (sys_srv S)) (h_uuid env) = None \<Longrightarrow>
    rt_step S (Open reqID)
      (S\<lparr>sys_srv := s', sys_handlers := AList.update reqID
           \<lparr>hd_ac = ac, hd_flush_ok = fl, hd_isPrint = q, hd_seen = []\<rparr> (sys_handlers S)\<rparr>)"
| frame: "map_of (sys_handlers S) reqID = Some h \<Longrightarrow> map_of (srv_sessions (sys_srv S)) reqID = Some ch \<Longrightarrow>
    chan_try_recv ch = Some (f, ch') \<Longrightarrow> h' = h\<lparr>hd_seen := hd_seen h @ [f]\<rparr> \<Longrightarrow> handler_status h' = None \<Longrightarrow>
    s' = (sys_srv S)\<lparr>srv_sessions := AList.update reqID ch' (srv_sessions (sys_srv S))\<rparr> \<Longrightarrow>
    rt_step S (Took reqID) (S\<lparr>sys_srv := s', sys_handlers := AList.update reqID h' (sys_handlers S)\<rparr>)"
| last: "map_of (sys_handlers S) reqID = Some h \<Longrightarrow> map_of (srv_sessions (sys_srv S)) reqID = Some ch \<Longrightarrow>
    chan_try_recv ch = Some (f, ch') \<Longrightarrow> h' = h\<lparr>hd_seen := hd_seen h @ [f]\<rparr> \<Longrightarrow> handler_status h' = Some st \<Longrightarrow>
    handler_reply h' = Some rsp \<Longrightarrow>
    rt_step S (Ended reqID rsp)
      (S\<lparr>sys_srv := finish now reqID (hd_ac h) st (sys_srv S), sys_handlers := AList.delete reqID (sys_handlers S)\<rparr>)"
| audit: "srv_audit (sys_srv S) = Some ch \<Longrightarrow> chan_try_recv ch = Some (e, ch') \<Longrightarrow>
    rt_step S Other (S\<lparr>sys_srv := (sys_srv S)\<lparr>srv_audit := Some ch'\<rparr>\<rparr>)"
| store: "rt_step S Other (S\<lparr>sys_srv := (sys_srv S)\<lparr>srv_db := d\<rparr>\<rparr>)"

inductive rt_run :: "rt_sys \<Rightarrow> rt_event list \<Rightarrow> rt_sys \<Rightarrow> bool" where
  nil: "rt_run S [] S"
| snoc: "rt_run S evs S' \<Longrightarrow> rt_step S' ev S'' \<Longrightarrow> rt_run S (evs @ [ev]) S''"

definition rt_init :: "duration \<Rightarrow> db \<Rightarrow> bool \<Rightarrow> Entry chan option \<Rightarrow> rt_sys" where
  "rt_init stale d has_db audit = \<lparr>sys_srv = New stale d has_db audit, sys_handlers = []\<rparr>"

text \<open>The frames queued for a session since it was last opened.\<close>

fun queued_step :: "string \<Rightarrow> rt_event \<Rightarrow> Frame list \<Rightarrow> Frame list" where
  "queued_step i (Queued j f) acc = (if i = j then acc @ [f] else acc)"
| "queued_step i (Open j) acc = (if i = j then [] else acc)"
| "queued_step i _ acc = acc"

definition queued_since :: "string \<Rightarrow> rt_event list \<Rightarrow> Frame list" where
  "queued_since i evs = fold (queued_step i) evs []"

section \<open>Effects of the handlers\<close>

lemma sendAck_simps [simp]:
  "srv_nodes (sendAck env pipe ack s) = srv_nodes s" "srv_sessions (sendAck env pipe ack s) = srv_sessions s"
  "srv_db (sendAck env pipe ack s) = srv_db s" "srv_audit (sendAck env pipe ack s) = srv_audit s"
  "srv_persist (sendAck env pipe ack s) = srv_persist s"
  by (simp_all add: sendAck_def split: option.splits)

lemma claim_simps [simp]:
  "srv_sessions (claim env i reason detail pipe s) = srv_sessions s" "srv_db (claim env i reason detail pipe s) = srv_db s"
  "srv_audit (claim env i reason detail pipe s) = srv_audit s" "srv_sock (claim env i reason detail pipe s) = srv_sock s"
  "srv_persist (claim env i reason detail pipe s) = srv_persist s"
  "byID (srv_nodes (claim env i reason detail pipe s)) = byID (srv_nodes s)"
  "byPipe (srv_nodes (claim env i reason detail pipe s)) = byPipe (srv_nodes s)"
  "order (srv_nodes (claim env i reason detail pipe s)) = order (srv_nodes s)"
  by (simp_all add: claim_def)

lemma registry_upsert_simps [simp]:
  "srv_sessions (registry_upsert env e s) = srv_sessions s" "srv_audit (registry_upsert env e s) = srv_audit s"
  "srv_sock (registry_upsert env e s) = srv_sock s" "srv_persist (registry_upsert env e s) = srv_persist s"
  by (simp_all add: registry_upsert_def split: prod.splits option.splits)

lemma registry_upsert_nodes:
  "srv_nodes (registry_upsert env e s) =
    fst (upsert (w_pf env) (w_now env) e (srv_nodes s) (if srv_persist s then Some (srv_db s) else None))"
  by (simp add: registry_upsert_def split: prod.splits option.splits)

lemma handleHeartbeat_simps [simp]:
  "srv_sessions (handleHeartbeat env pipe e s) = srv_sessions s"
  "srv_audit (handleHeartbeat env pipe e s) = srv_audit s"
  by (simp_all add: handleHeartbeat_def split: option.splits sum.splits bool.splits)

lemma handleHeartbeat_reachable:
  assumes "reg_reachable stale (srv_nodes s)" "range_order (w_ord env)" "range_order (w_ord' env)"
  shows "reg_reachable stale (srv_nodes (handleHeartbeat env pipe e s))"
  using assms reg_reachable.intros(2,3)
  by (auto simp: handleHeartbeat_def claim_def registry_upsert_nodes split: option.splits sum.splits bool.splits)

lemma handleMeshMessage_reachable:
  assumes "reg_reachable stale (srv_nodes s)" "range_order (w_ord env)" "range_order (w_ord' env)"
  shows "reg_reachable stale (srv_nodes (handleMeshMessage env msg s))"
  using assms handleHeartbeat_reachable [OF assms]
  by (auto simp: handleMeshMessage_def split: sum.splits option.splits)

lemma handleMeshMessage_sessions:
  "srv_sessions (handleMeshMessage env msg s) =
    (case mesh_event msg s of
       Queued i f \<Rightarrow> AList.update i (fst (chan_try_send f (the (map_of (srv_sessions s) i)))) (srv_sessions s)
     | Lost i f \<Rightarrow> AList.update i (the (map_of (srv_sessions s) i)) (srv_sessions s)
     | _ \<Rightarrow> srv_sessions s)"
  by (auto simp: handleMeshMessage_def mesh_event_def chan_try_send_def split: sum.splits option.splits)

lemma mesh_event_cases:
  "mesh_event msg s = Other \<or>
   (\<exists>i f ch. map_of (srv_sessions s) i = Some ch \<and>
      (mesh_event msg s = Queued i f \<and> length (chan_buf ch) < chan_cap ch \<or>
       mesh_event msg s = Lost i f \<and> \<not> length (chan_buf ch) < chan_cap ch))"
  unfolding mesh_event_def
  by (auto simp: chan_try_send_def split: sum.split option.split if_split)

text \<open>The branches of the chat handler, one equation each.\<close>

definition dispatch_message :: "http_env \<Rightarrow> http_request \<Rightarrow> nodeEntry \<Rightarrow> message" where
  "dispatch_message env rq node =
     \<lparr>msg_Header = PutUint32 (ne_pipe node) @ backtraceToken,
      msg_Body = Envelope_Encode \<lparr>env_ReqID = h_uuid env, env_Payload = rq_body rq\<rparr>\<rparr>"

definition chat_context :: "http_env \<Rightarrow> http_request \<Rightarrow> APIKey \<Rightarrow> nodeEntry \<Rightarrow> auditContext" where
  "chat_context env rq ak node =
     \<lparr>ac_apiKeyID = key_ID ak, ac_nodeID = ne_id node,
      ac_modelReq = modelRequested (rq_body rq), ac_modelServed = ne_activeModel node,
      ac_start = h_now env, ac_streamed = isStream (rq_body rq)\<rparr>"

lemma chat_unauthorized:
  "authenticate env rq s = Inl m \<Longrightarrow> handleChatCompletions env rq s = (Respond (json_error 401 m), s)"
  by (simp add: handleChatCompletions_def)

lemma chat_no_worker:
  "authenticate env rq s = Inr ak \<Longrightarrow> selectLeastConnections (h_now env) (srv_nodes s) = Inr None \<Longrightarrow>
   handleChatCompletions env rq s = (Respond (json_error 503 ''no worker available''), s)"
  by (simp add: handleChatCompletions_def)

lemma chat_dispatch_failed:
  "authenticate env rq s = Inr ak \<Longrightarrow> selectLeastConnections (h_now env) (srv_nodes s) = Inr (Some node) \<Longrightarrow>
   h_send_fault env = Some e \<Longrightarrow>
   handleChatCompletions env rq s = (Respond (json_error 502 ''dispatch failed''),
     s\<lparr>srv_sessions := AList.delete (h_uuid env) (AList.update (h_uuid env) (make_chan 256) (srv_sessions s))\<rparr>)"
  by (simp add: handleChatCompletions_def SendTo_cases sessionBufferSize_def Let_def)

lemma chat_opened:
  "authenticate env rq s = Inr ak \<Longrightarrow> selectLeastConnections (h_now env) (srv_nodes s) = Inr (Some node) \<Longrightarrow>
   h_send_fault env = None \<Longrightarrow>
   handleChatCompletions env rq s = (Opened (h_uuid env) (chat_context env rq ak node),
     s\<lparr>srv_sessions := AList.update (h_uuid env) (make_chan 256) (srv_sessions s),
       srv_sock := srv_sock s @ [dispatch_message env rq node]\<rparr>)"
  by (simp add: handleChatCompletions_def SendTo_cases sessionBufferSize_def chat_context_def dispatch_message_def Let_def)

lemmas chat_branches = chat_unauthorized chat_no_worker chat_dispatch_failed chat_opened

lemma handleChat_cases:
  assumes inv: "nodes_inv (srv_nodes s)"
  shows "(\<exists>rsp. handleChatCompletions env rq s = (Respond rsp, s)) \<or>
    (\<exists>rsp. handleChatCompletions env rq s = (Respond rsp,
       s\<lparr>srv_sessions := AList.delete (h_uuid env) (AList.update (h_uuid env) (make_chan 256) (srv_sessions s))\<rparr>)) \<or>
    (\<exists>ak node. handleChatCompletions env rq s = (Opened (h_uuid env) (chat_context env rq ak node),
       s\<lparr>srv_sessions := AList.update (h_uuid env) (make_chan 256) (srv_sessions s),
         srv_sock := srv_sock s @ [dispatch_message env rq node]\<rparr>))"
proof (cases "authenticate env rq s")
  case (Inl m)
  then show ?thesis by (simp add: chat_unauthorized)
next
  case (Inr ak)
  show ?thesis
  proof (cases "first_least None (fresh_nodes (h_now env) (srv_nodes s))")
    case None
    then show ?thesis
      using chat_no_worker [OF Inr] by (simp add: selectLeastConnections_eq [OF inv])
  next
    case (Some node)
    then have sel: "selectLeastConnections (h_now env) (srv_nodes s) = Inr (Some node)"
      by (simp add: selectLeastConnections_eq [OF inv])
    show ?thesis
      using chat_dispatch_failed [OF Inr sel] chat_opened [OF Inr sel] by (cases "h_send_fault env") blast+
  qed
qed

section \<open>The invariant of the transition system\<close>

definition rt_inv :: "rt_event list \<Rightarrow> rt_sys \<Rightarrow> bool" where
  "rt_inv evs S \<longleftrightarrow>
     map_wf (srv_sessions (sys_srv S)) \<and> map_wf (sys_handlers S) \<and>
     (\<exists>stale. reg_reachable stale (srv_nodes (sys_srv S))) \<and>
     dom (map_of (srv_sessions (sys_srv S))) = dom (map_of (sys_handlers S)) \<and>
     (\<forall>i h ch. map_of (sys_handlers S) i = Some h \<longrightarrow> map_of (srv_sessions (sys_srv S)) i = Some ch \<longrightarrow>
        handler_status h = None \<and> chan_ok ch \<and> chan_cap ch = 256 \<and> queued_since i evs = hd_seen h @ chan_buf ch)"

lemma rt_invI:
  assumes "map_wf (srv_sessions (sys_srv S))" "map_wf (sys_handlers S)" "reg_reachable stale (srv_nodes (sys_srv S))"
    "dom (map_of (srv_sessions (sys_srv S))) = dom (map_of (sys_handlers S))"
    "\<And>i h ch. map_of (sys_handlers S) i = Some h \<Longrightarrow> map_of (srv_sessions (sys_srv S)) i = Some ch \<Longrightarrow>
      handler_status h = None \<and> chan_ok ch \<and> chan_cap ch = 256 \<and> queued_since i evs = hd_seen h @ chan_buf ch"
  shows "rt_inv evs S"
  using assms unfolding rt_inv_def by blast

lemma queued_since_snoc: "queued_since i (evs @ [ev]) = queued_step i ev (queued_since i evs)"
  by (simp add: queued_since_def)

lemma handler_status_new [simp]:
  "handler_status \<lparr>hd_ac = ac, hd_flush_ok = fl, hd_isPrint = q, hd_seen = []\<rparr> = None"
  by (simp add: handler_status_def loop_status_def)

lemma rt_inv_nodes: "rt_inv evs S \<Longrightarrow> nodes_inv (srv_nodes (sys_srv S))"
  by (auto simp: rt_inv_def dest: reachable_inv)

text \<open>Steps that leave the sessions and the handlers alone.\<close>

lemma rt_inv_frame:
  assumes "rt_inv evs S" "map_wf (srv_sessions s')"
    "map_of (srv_sessions s') = map_of (srv_sessions (sys_srv S))"
    "\<And>stale. reg_reachable stale (srv_nodes (sys_srv S)) \<Longrightarrow> reg_reachable stale (srv_nodes s')"
    "\<And>i acc. queued_step i ev acc = acc"
  shows "rt_inv (evs @ [ev]) (S\<lparr>sys_srv := s'\<rparr>)"
  using assms unfolding rt_inv_def by (simp add: queued_since_snoc) blast

text \<open>Steps that change one session's channel and its handler.\<close>

lemma rt_inv_update:
  assumes inv: "rt_inv evs S" and h': "handler_status h' = None"
    and ch': "chan_ok ch'" "chan_cap ch' = 256"
    and queued: "queued_since i (evs @ [ev]) = hd_seen h' @ chan_buf ch'"
    and others: "\<And>j acc. j \<noteq> i \<Longrightarrow> queued_step j ev acc = acc"
    and s': "srv_sessions s' = AList.update i ch' (srv_sessions (sys_srv S))" "srv_nodes s' = srv_nodes (sys_srv S)"
  shows "rt_inv (evs @ [ev]) (S\<lparr>sys_srv := s', sys_handlers := AList.update i h' (sys_handlers S)\<rparr>)"
proof -
  obtain stale where "reg_reachable stale (srv_nodes (sys_srv S))" and
    wf: "map_wf (srv_sessions (sys_srv S))" "map_wf (sys_handlers S)"
    "dom (map_of (srv_sessions (sys_srv S))) = dom (map_of (sys_handlers S))"
    using inv unfolding rt_inv_def by blast
  moreover have "handler_status h = None \<and> chan_ok ch \<and> chan_cap ch = 256 \<and> queued_since j (evs @ [ev]) = hd_seen h @ chan_buf ch"
    if "map_of (AList.update i h' (sys_handlers S)) j = Some h"
      "map_of (AList.update i ch' (srv_sessions (sys_srv S))) j = Some ch" for j h ch
  proof (cases "j = i")
    case True
    with that h' ch' queued show ?thesis by simp
  next
    case False
    with that inv others [OF False] show ?thesis
      by (simp add: rt_inv_def queued_since_snoc)
  qed
  ultimately show ?thesis
    by (intro rt_invI [where stale = stale]) (simp_all add: s')
qed

lemma rt_inv_mesh:
  assumes inv: "rt_inv evs S" and ord: "range_order (w_ord env)" "range_order (w_ord' env)"
  shows "rt_inv (evs @ [mesh_event msg (sys_srv S)]) (S\<lparr>sys_srv := handleMeshMessage env msg (sys_srv S)\<rparr>)"
proof -
  let ?s = "sys_srv S" and ?s' = "handleMeshMessage env msg (sys_srv S)"
  have wf: "map_wf (srv_sessions ?s)"
    using inv by (simp add: rt_inv_def)
  have reach: "reg_reachable stale (srv_nodes ?s) \<Longrightarrow> reg_reachable stale (srv_nodes ?s')" for stale
    using handleMeshMessage_reachable [OF _ ord] .
  from mesh_event_cases [of msg ?s] show ?thesis
  proof (elim disjE exE conjE)
    assume ev: "mesh_event msg ?s = Other"
    then have "srv_sessions ?s' = srv_sessions ?s"
      by (simp add: handleMeshMessage_sessions)
    then show ?thesis
      using rt_inv_frame [OF inv, of ?s' Other] reach wf by (simp add: ev)
  next
    fix i f ch
    assume ch: "map_of (srv_sessions ?s) i = Some ch" and ev: "mesh_event msg ?s = Lost i f"
    have "map_of (srv_sessions ?s') = map_of (srv_sessions ?s)"
      using ch by (simp add: handleMeshMessage_sessions ev fun_upd_idem)
    moreover have "map_wf (srv_sessions ?s')"
      using wf by (simp add: handleMeshMessage_sessions ev)
    ultimately show ?thesis
      using rt_inv_frame [OF inv, of ?s' "Lost i f"] reach by (simp add: ev)
  next
    fix i f ch
    assume ch: "map_of (srv_sessions ?s) i = Some ch" and ev: "mesh_event msg ?s = Queued i f"
      and room: "length (chan_buf ch) < chan_cap ch"
    obtain h where h: "map_of (sys_handlers S) i = Some h"
      using inv ch unfolding rt_inv_def by (metis domD domI)
    have facts: "handler_status h = None" "chan_cap ch = 256" "queued_since i evs = hd_seen h @ chan_buf ch"
      using inv ch h by (simp_all add: rt_inv_def)
    have sess: "srv_sessions ?s' = AList.update i (ch\<lparr>chan_buf := chan_buf ch @ [f]\<rparr>) (srv_sessions ?s)"
      using ch room by (simp add: handleMeshMessage_sessions ev chan_try_send_def)
    have nodes: "srv_nodes ?s' = srv_nodes ?s"
      using ev by (auto simp: handleMeshMessage_def mesh_event_def split: sum.splits option.splits if_splits)
    have "rt_inv (evs @ [Queued i f]) (S\<lparr>sys_srv := ?s', sys_handlers := AList.update i h (sys_handlers S)\<rparr>)"
      using facts room
      by (intro rt_inv_update [OF inv, where ch' = "ch\<lparr>chan_buf := chan_buf ch @ [f]\<rparr>"])
        (simp_all add: queued_since_snoc chan_ok_def sess nodes)
    then show ?thesis
      using h ev by (simp add: update_triv)
  qed
qed

lemma finish_simps [simp]:
  "srv_sessions (finish now i ac st s) = AList.delete i (srv_sessions s)"
  "srv_nodes (finish now i ac st s) = srv_nodes s" "srv_db (finish now i ac st s) = srv_db s"
  by (simp_all add: finish_def recordAudit_def split: option.splits)

lemma rt_inv_close:
  assumes "rt_inv evs S"
  shows "rt_inv (evs @ [Ended i rsp])
    (S\<lparr>sys_srv := finish now i ac st (sys_srv S), sys_handlers := AList.delete i (sys_handlers S)\<rparr>)"
proof -
  obtain stale where "reg_reachable stale (srv_nodes (sys_srv S))"
    using assms unfolding rt_inv_def by blast
  moreover have "handler_status h = None \<and> chan_ok ch \<and> chan_cap ch = 256 \<and>
      queued_since j (evs @ [Ended i rsp]) = hd_seen h @ chan_buf ch"
    if "map_of (AList.delete i (sys_handlers S)) j = Some h"
      "map_of (AList.delete i (srv_sessions (sys_srv S))) j = Some ch" for j h ch
    using that assms by (auto simp: rt_inv_def queued_since_snoc split: if_splits)
  ultimately show ?thesis
    using assms by (intro rt_invI [where stale = stale]) (auto simp: rt_inv_def)
qed

lemma rt_inv_opened:
  assumes inv: "rt_inv evs S" and chat: "handleChatCompletions env rq (sys_srv S) = (Opened i ac, s')"
  shows "rt_inv (evs @ [Open i]) (S\<lparr>sys_srv := s', sys_handlers := AList.update i
      \<lparr>hd_ac = ac, hd_flush_ok = fl, hd_isPrint = q, hd_seen = []\<rparr> (sys_handlers S)\<rparr>)"
proof -
  have "srv_sessions s' = AList.update i (make_chan 256) (srv_sessions (sys_srv S))" "srv_nodes s' = srv_nodes (sys_srv S)"
    using handleChat_cases [OF rt_inv_nodes [OF inv], of env rq] chat by auto
  then show ?thesis
    by (intro rt_inv_update [OF inv, where ch' = "make_chan 256"])
      (simp_all add: queued_since_snoc chan_ok_def make_chan_def)
qed

lemma rt_inv_refused:
  assumes inv: "rt_inv evs S" and chat: "handleChatCompletions env rq (sys_srv S) = (Respond rsp, s')"
    and fresh: "map_of (srv_sessions (sys_srv S)) (h_uuid env) = None"
  shows "rt_inv (evs @ [Other]) (S\<lparr>sys_srv := s'\<rparr>)"
proof (rule rt_inv_frame [OF inv])
  have wf: "map_wf (srv_sessions (sys_srv S))"
    using inv by (simp add: rt_inv_def)
  note cases = handleChat_cases [OF rt_inv_nodes [OF inv], of env rq, unfolded chat]
  show "map_wf (srv_sessions s')"
    using cases wf by auto
  show "map_of (srv_sessions s') = map_of (srv_sessions (sys_srv S))"
    using cases fresh by (auto simp: fun_upd_idem)
  show "reg_reachable stale (srv_nodes (sys_srv S)) \<Longrightarrow> reg_reachable stale (srv_nodes s')" for stale
    using cases by auto
qed simp

lemma rt_inv_took:
  assumes inv: "rt_inv evs S" and h: "map_of (sys_handlers S) i = Some h"
    and ch: "map_of (srv_sessions (sys_srv S)) i = Some ch" and recv: "chan_try_recv ch = Some (f, ch')"
    and h': "handler_status (h\<lparr>hd_seen := hd_seen h @ [f]\<rparr>) = None"
  shows "rt_inv (evs @ [Took i])
    (S\<lparr>sys_srv := (sys_srv S)\<lparr>srv_sessions := AList.update i ch' (srv_sessions (sys_srv S))\<rparr>,
       sys_handlers := AList.update i (h\<lparr>hd_seen := hd_seen h @ [f]\<rparr>) (sys_handlers S)\<rparr>)"
proof -
  have "chan_ok ch" "chan_cap ch = 256" "queued_since i evs = hd_seen h @ chan_buf ch"
    using inv h ch by (simp_all add: rt_inv_def)
  then show ?thesis
    using chan.recv_head [OF recv] h'
    by (intro rt_inv_update [OF inv, where ch' = ch']) (simp_all add: queued_since_snoc chan_ok_def)
qed

lemma rt_inv_step:
  assumes "rt_step S ev S'" "rt_inv evs S"
  shows "rt_inv (evs @ [ev]) S'"
  using assms
proof (induction rule: rt_step.induct)
  case (mesh env S msg)
  then show ?case by (intro rt_inv_mesh)
next
  case (refused env rq S rsp s')
  then show ?case by (intro rt_inv_refused)
next
  case (opened env rq S i ac s' fl q)
  then show ?case by (intro rt_inv_opened)
next
  case (frame S i h ch f ch' h' s')
  then show ?case using rt_inv_took [OF frame.prems frame.hyps(1-3)] by simp
next
  case (last S i h ch f ch' h' st rsp now)
  then show ?case by (intro rt_inv_close)
next
  case (audit S ch e ch')
  then show ?case
    using rt_inv_frame [OF audit.prems, of "(sys_srv S)\<lparr>srv_audit := Some ch'\<rparr>" Other]
    by (simp add: rt_inv_def)
next
  case (store S d)
  then show ?case
    using rt_inv_frame [OF store.prems, of "(sys_srv S)\<lparr>srv_db := d\<rparr>" Other]
    by (simp add: rt_inv_def)
qed

lemma rt_inv_init: "rt_inv [] (rt_init stale d has_db audit)"
  by (rule rt_invI [where stale = "if stale = 0 then nodeStaleAfter else stale"])
    (simp_all add: rt_init_def New_def reg_reachable.start)

lemma rt_inv_run: "rt_run S0 evs S \<Longrightarrow> rt_inv [] S0 \<Longrightarrow> rt_inv evs S"
  by (induction rule: rt_run.induct) (simp_all add: rt_inv_step)

text \<open>How a handler returns: with the frame it just took from its session.\<close>

lemma rt_step_ended:
  assumes "rt_inv evs S" "rt_step S (Ended i rsp) S'" "map_of (sys_handlers S) i = Some h"
  obtains f rest st where "queued_since i evs = hd_seen h @ f # rest" "handler_status h = None"
    "handler_status (h\<lparr>hd_seen := hd_seen h @ [f]\<rparr>) = Some st" "handler_reply (h\<lparr>hd_seen := hd_seen h @ [f]\<rparr>) = Some rsp"
    "i \<in> dom (map_of (srv_sessions (sys_srv S)))" "map_of (srv_sessions (sys_srv S')) i = None"
  using assms(2)
proof cases
  case (mesh env msg)
  then show ?thesis
    using mesh_event_cases [of msg "sys_srv S"] by auto
next
  case (last h2 ch f ch' h' st now)
  then have "h2 = h"
    using assms(3) by simp
  with assms(1) last(2,3) have pre: "handler_status h = None" "queued_since i evs = hd_seen h @ chan_buf ch"
    unfolding rt_inv_def by metis+
  moreover have "chan_buf ch = f # chan_buf ch'"
    using chan.recv_head [OF last(4)] by simp
  ultimately show ?thesis
    using last \<open>h2 = h\<close> by (intro that [of f "chan_buf ch'" st]) (auto simp: domIff)
qed

section \<open>The response loops\<close>

definition terminal :: "Frame \<Rightarrow> bool" where
  "terminal f \<longleftrightarrow> frame_Type f = FrameTypeEOF \<or> frame_Type f = FrameTypeError"

definition chunks :: "Frame list \<Rightarrow> bytes" where
  "chunks fs = concat (map frame_Payload (filter (\<lambda>f. frame_Type f = FrameTypeChunk) fs))"

lemma chunks_simps [simp]:
  "chunks [] = []"
  "chunks (f # fs) = (if frame_Type f = FrameTypeChunk then frame_Payload f @ chunks fs else chunks fs)"
  by (simp_all add: chunks_def)

lemma frame_types_distinct [simp]:
  "FrameTypeEOF \<noteq> FrameTypeChunk" "FrameTypeError \<noteq> FrameTypeChunk" "FrameTypeError \<noteq> FrameTypeEOF"
  "FrameTypeChunk \<noteq> FrameTypeEOF" "FrameTypeChunk \<noteq> FrameTypeError" "FrameTypeEOF \<noteq> FrameTypeError"
  by (simp_all add: frame_type_defs)

text \<open>Both loops read up to the first terminal frame and ignore what follows it.\<close>

lemma buffered_loop_open:
  "\<forall>f \<in> set fs. \<not> terminal f \<Longrightarrow> buffered_loop (fs @ gs) buf = buffered_loop gs (buf @ chunks fs)"
  by (induction fs arbitrary: buf) (auto simp: terminal_def)

lemma stream_loop_open:
  "\<forall>f \<in> set fs. \<not> terminal f \<Longrightarrow> \<forall>j. fl j \<Longrightarrow>
   \<exists>j. stream_loop fl q i (fs @ gs) out = stream_loop fl q j gs (out @ chunks fs)"
proof (induction fs arbitrary: i out)
  case (Cons f fs)
  show ?case
  proof (cases "frame_Type f = FrameTypeChunk")
    case True
    then show ?thesis
      using Cons.IH [of "Suc i" "out @ frame_Payload f"] Cons.prems by (simp add: terminal_def)
  next
    case False
    then show ?thesis
      using Cons.IH [of i out] Cons.prems by (simp add: terminal_def)
  qed
qed auto

lemma frames_split:
  obtains "\<forall>f \<in> set fs. \<not> terminal f"
  | pre t post where "fs = pre @ t # post" "\<forall>f \<in> set pre. \<not> terminal f" "terminal t"
  by (metis split_list_first_prop)

lemma buffered_loop_terminal:
  assumes "\<forall>f \<in> set pre. \<not> terminal f" "terminal t"
  shows "buffered_loop (pre @ t # post) [] =
    (if frame_Type t = FrameTypeEOF then Returned 200 (RawBody (chunks pre))
     else Returned 502 (ErrorBody (string_of_bytes (frame_Payload t))))"
  using assms by (auto simp: buffered_loop_open terminal_def)

lemma stream_loop_terminal:
  assumes "\<forall>f \<in> set pre. \<not> terminal f" "terminal t" "\<forall>j. fl j"
  shows "stream_loop fl q i (pre @ t # post) [] =
    (if frame_Type t = FrameTypeEOF then Returned 200 (chunks pre)
     else Returned 502 (chunks pre @ sse_error q (frame_Payload t)))"
  using stream_loop_open [OF assms(1,3), of q i "t # post" "[]"] assms(2) by (auto simp: terminal_def)

lemma buffered_waiting_iff: "loop_status (buffered_loop fs []) = None \<longleftrightarrow> (\<forall>f \<in> set fs. \<not> terminal f)"
proof (cases rule: frames_split [of fs])
  case 1
  then show ?thesis
    using buffered_loop_open [of fs "[]" "[]"] by (simp add: loop_status_def)
next
  case (2 pre t post)
  then show ?thesis
    by (auto simp: buffered_loop_terminal loop_status_def)
qed

text \<open>A handler that just returned saw no terminal frame before the last one.\<close>

lemma handler_status_prefix:
  assumes "\<not> ac_streamed (hd_ac h)" "handler_status h = None"
    and "handler_reply (h\<lparr>hd_seen := hd_seen h @ [f]\<rparr>) = Some rsp"
  shows "rsp = (if frame_Type f = FrameTypeEOF
      then \<lparr>rs_status = 200, rs_type = TypeSet ''application/json'', rs_body = RawBody (chunks (hd_seen h))\<rparr>
      else json_error 502 (string_of_bytes (frame_Payload f))) \<and> terminal f"
proof -
  have pre: "\<forall>g \<in> set (hd_seen h). \<not> terminal g"
    using assms(1,2) by (simp add: handler_status_def buffered_waiting_iff)
  have "terminal f"
  proof (rule ccontr)
    assume "\<not> terminal f"
    with pre have "loop_status (buffered_loop (hd_seen h @ [f]) []) = None"
      by (simp add: buffered_waiting_iff)
    with assms(1,3) show False
      by (auto simp: handler_reply_def loop_status_def split: loop_result.splits)
  qed
  then show ?thesis
    using assms(1,3) buffered_loop_terminal [OF pre, of f "[]"]
    by (auto simp: handler_reply_def json_error_def split: if_splits)
qed

section \<open>Properties\<close>

definition sample_http_env :: http_env where
  "sample_http_env =
     \<lparr>h_now = Second, h_uuid = ''req-1'', h_argon = sample_argon, h_ord = (\<lambda>rs. rs), h_qfault = None, h_ifault = None,
      h_errText = (\<lambda>_. ''denied''), h_send_fault = None\<rparr>"

text \<open>
  C6: sessions never leak and frames never get lost or reordered unnoticed. In every
  interleaving of the receive loop, the request handlers and the other writers of the store:
  the open sessions are exactly those a handler waits on; each holds at most 256 frames; what
  its handler has received followed by what is still queued is exactly the sequence of frames
  queued for it since it was opened; and no chat request can hit a nil dereference.
\<close>
theorem router_sessions_sound:
  assumes "rt_run (rt_init stale d has_db audit) evs S"
  shows "dom (map_of (srv_sessions (sys_srv S))) = dom (map_of (sys_handlers S)) \<and>
    (\<forall>i h ch. map_of (sys_handlers S) i = Some h \<and> map_of (srv_sessions (sys_srv S)) i = Some ch \<longrightarrow>
       length (chan_buf ch) \<le> 256 \<and> queued_since i evs = hd_seen h @ chan_buf ch) \<and>
    (\<forall>env rq. fst (handleChatCompletions env rq (sys_srv S)) \<noteq> Crash)"
proof -
  have inv: "rt_inv evs S"
    using rt_inv_run [OF assms rt_inv_init] .
  have "fst (handleChatCompletions env rq (sys_srv S)) \<noteq> Crash" for env rq
    using handleChat_cases [OF rt_inv_nodes [OF inv], of env rq] by auto
  moreover have "length (chan_buf ch) \<le> 256 \<and> queued_since i evs = hd_seen h @ chan_buf ch"
    if "map_of (sys_handlers S) i = Some h" "map_of (srv_sessions (sys_srv S)) i = Some ch" for i h ch
    using inv that unfolding rt_inv_def chan_ok_def by metis
  ultimately show ?thesis
    using inv unfolding rt_inv_def by blast
qed

theorem router_sessions_sound_witness:
  "\<exists>S. rt_run (rt_init 0 empty_db False None) [Other] S \<and>
     dom (map_of (srv_sessions (sys_srv S))) = dom (map_of (sys_handlers S)) \<and>
     fst (handleChatCompletions sample_http_env \<lparr>rq_authorization = '''', rq_body = []\<rparr> (sys_srv S)) \<noteq> Crash"
proof -
  let ?S = "(rt_init 0 empty_db False None)\<lparr>sys_srv := (sys_srv (rt_init 0 empty_db False None))\<lparr>srv_db := sample_key_db\<rparr>\<rparr>"
  have "rt_run (rt_init 0 empty_db False None) ([] @ [Other]) ?S"
    by (intro rt_run.snoc [OF rt_run.nil] rt_step.store)
  then have run: "rt_run (rt_init 0 empty_db False None) [Other] ?S"
    by simp
  show ?thesis
    using run router_sessions_sound [OF run] by blast
qed

text \<open>
  C7: what a client gets is what its worker sent. When a non-streaming request ends, the frames
  its handler received are a prefix of those queued for its session, the last of them the first
  terminal frame; an end-of-stream gives 200 with the concatenated chunks, an error frame 502
  with its text; and the session is gone.
\<close>
theorem buffered_response_integrity:
  assumes "rt_run (rt_init stale d has_db audit) evs S" "rt_step S (Ended i rsp) S'"
    and "map_of (sys_handlers S) i = Some h" "\<not> ac_streamed (hd_ac h)"
  shows "\<exists>fs t rest. queued_since i evs = fs @ t # rest \<and> (\<forall>f \<in> set fs. \<not> terminal f) \<and> terminal t \<and>
    rsp = (if frame_Type t = FrameTypeEOF
      then \<lparr>rs_status = 200, rs_type = TypeSet ''application/json'', rs_body = RawBody (chunks fs)\<rparr>
      else json_error 502 (string_of_bytes (frame_Payload t))) \<and>
    map_of (srv_sessions (sys_srv S')) i = None"
proof -
  have inv: "rt_inv evs S"
    using rt_inv_run [OF assms(1) rt_inv_init] .
  obtain f rest where "queued_since i evs = hd_seen h @ f # rest" and h: "handler_status h = None"
    and rsp: "handler_reply (h\<lparr>hd_seen := hd_seen h @ [f]\<rparr>) = Some rsp" and "map_of (srv_sessions (sys_srv S')) i = None"
    using rt_step_ended [OF inv assms(2,3)] by metis
  moreover have "\<forall>g \<in> set (hd_seen h). \<not> terminal g"
    using assms(4) h by (simp add: handler_status_def buffered_waiting_iff)
  moreover have "rsp = (if frame_Type f = FrameTypeEOF
      then \<lparr>rs_status = 200, rs_type = TypeSet ''application/json'', rs_body = RawBody (chunks (hd_seen h))\<rparr>
      else json_error 502 (string_of_bytes (frame_Payload f)))" "terminal f"
    using handler_status_prefix [OF assms(4) h rsp] by simp_all
  ultimately show ?thesis by blast
qed

subsection \<open>A concrete run\<close>

definition sample_hb :: Heartbeat where
  "sample_hb = zeroHeartbeat\<lparr>hb_NodeID := ''a'', hb_EnrollmentToken := ''tok''\<rparr>"

definition sample_hb_text :: bytes where
  "sample_hb_text = Marshal (Heartbeat_json (\<lambda>_. '''') sample_hb)"

lemma sample_hb_arrives: "unmarshal_Heartbeat parse sample_hb_text = Some sample_hb"
proof -
  have "Heartbeat_sendable sample_hb" "float_zero (hb_EstimatedTPS sample_hb)" "clean_Heartbeat sample_hb = sample_hb"
    by (simp_all add: sample_hb_def zeroHeartbeat_def Heartbeat_sendable_def float_finite_def int64_def float_zero_def
        clean_Heartbeat_def byte_val_def)
  then show ?thesis
    using Heartbeat_arrives(2) [of sample_hb "\<lambda>_. ''''" parse] by (simp add: sample_hb_text_def)
qed

definition sample_world :: rt_env where
  "sample_world =
     \<lparr>w_now = 5, w_parse_float = (\<lambda>_. None),
      w_parseV4 = (\<lambda>_ _ _. Inr \<lparr>cl_aud = None, cl_jti = Some ''t-a'', cl_sub = Some ''a'', cl_iat = None, cl_exp = None\<rparr>),
      w_errText = (\<lambda>_. ''no''), w_enroll_fault = None, w_ord = (\<lambda>m. m), w_ord' = rev, w_pf = no_faults,
      w_send_fault = None\<rparr>"

definition sample_hb_msg :: message where
  "sample_hb_msg = \<lparr>msg_Header = PutUint32 1 @ backtraceToken,
     msg_Body = Envelope_Encode \<lparr>env_ReqID = HeartbeatReqID, env_Payload = sample_hb_text\<rparr>\<rparr>"

definition sample_eof_msg :: message where
  "sample_eof_msg = \<lparr>msg_Header = PutUint32 1 @ backtraceToken,
     msg_Body = Envelope_Encode \<lparr>env_ReqID = ''req-1'',
       env_Payload = Frame_Encode \<lparr>frame_Type = FrameTypeEOF, frame_Payload = []\<rparr>\<rparr>\<rparr>"

definition sample_request :: http_request where
  "sample_request = \<lparr>rq_authorization = ''Bearer sk-mesh-0123456789'', rq_body = [123, 125]\<rparr>"

lemma sample_request_not_streamed: "\<not> isStream (rq_body sample_request)"
proof -
  have "rq_body sample_request = Marshal (JObj [])"
    by (simp add: sample_request_def Marshal_def bytes_of_string_def byte_of_char_def)
  then show ?thesis
    by (simp add: isStream_def Unmarshal_Marshal maxNestingDepth_def)
qed

lemma sample_key_ok:
  "\<exists>ak d. APIKey_Create sample_argon (Some [7]) ''k1'' 1 None ''app'' ''sk-mesh-0123456789'' sample_node_db = Inr (ak, d) \<and>
     APIKey_Verify sample_argon (\<lambda>rs. rs) Second None None ''sk-mesh-0123456789'' d = Inr ak"
proof -
  obtain ak d where c: "APIKey_Create sample_argon (Some [7]) ''k1'' 1 None ''app'' ''sk-mesh-0123456789'' sample_node_db
      = Inr (ak, d)"
    by (simp add: APIKey_Create_def HashAPIKey_def insert_api_key_def empty_db_def sample_node_db_def)
  have "APIKey_Verify sample_argon (\<lambda>rs. rs) Second None None ''sk-mesh-0123456789'' d = Inr ak"
    by (rule Create_then_Verify [OF c])
      (simp_all add: length_sample_argon empty_db_def sample_node_db_def row_order_def argonKeyLen_def)
  with c show ?thesis by blast
qed

lemma sample_authenticates:
  assumes "APIKey_Verify sample_argon (\<lambda>rs. rs) Second None None ''sk-mesh-0123456789'' (srv_db s) = Inr ak"
  shows "authenticate sample_http_env sample_request s = Inr ak"
  using assms
  by (simp add: authenticate_def sample_http_env_def sample_request_def extractBearer_def ascii_lower_def)

definition sample_s1 :: "db \<Rightarrow> Server" where
  "sample_s1 d = handleMeshMessage sample_world sample_hb_msg (New 0 d False None)"

lemma decode_sample_hb:
  "DecodeEnvelope (msg_Body sample_hb_msg) = Inr \<lparr>env_ReqID = HeartbeatReqID, env_Payload = sample_hb_text\<rparr>"
  by (simp add: sample_hb_msg_def envelope_codec.dec_enc envelope_valid_def MaxReqIDLen_def HeartbeatReqID_def)

lemma decode_sample_eof:
  "DecodeEnvelope (msg_Body sample_eof_msg) =
     Inr \<lparr>env_ReqID = ''req-1'', env_Payload = Frame_Encode \<lparr>frame_Type = FrameTypeEOF, frame_Payload = []\<rparr>\<rparr>"
  "DecodeFrame (Frame_Encode \<lparr>frame_Type = FrameTypeEOF, frame_Payload = []\<rparr>) = Inr \<lparr>frame_Type = FrameTypeEOF, frame_Payload = []\<rparr>"
  by (simp_all add: sample_eof_msg_def envelope_codec.dec_enc envelope_valid_def MaxReqIDLen_def
      frame_codec.dec_enc frame_valid_def)

lemma sample_pipes:
  "PipeFromHeader (msg_Header sample_hb_msg) = Inr 1" "PipeFromHeader (msg_Header sample_eof_msg) = Inr 1"
  by (simp_all add: sample_hb_msg_def sample_eof_msg_def)

lemma sample_world_simps:
  "w_now sample_world = 5" "w_enroll_fault sample_world = None"
  "w_parseV4 sample_world a t tok =
     Inr \<lparr>cl_aud = None, cl_jti = Some ''t-a'', cl_sub = Some ''a'', cl_iat = None, cl_exp = None\<rparr>"
  "range_order (w_ord sample_world)" "range_order (w_ord' sample_world)"
  by (simp_all add: sample_world_def)

lemma sample_s1_state:
  assumes "node_enrollment_tokens d = node_enrollment_tokens sample_node_db"
  shows "selectLeastConnections Second (srv_nodes (sample_s1 d)) =
      Inr (Some (hb_entry sample_world \<lparr>enr_ID = ''t-a'', enr_NodeName = ''a''\<rparr> 1 sample_hb))"
    "srv_sessions (sample_s1 d) = []" "srv_db (sample_s1 d) = d"
    "\<exists>b. srv_sock (sample_s1 d) = [\<lparr>msg_Header = PutUint32 1 @ backtraceToken,
       msg_Body = Envelope_Encode \<lparr>env_ReqID = HeartbeatAckReqID, env_Payload = b\<rparr>\<rparr>]"
proof -
  have active: "Enrollment_IsActive 5 None ''t-a'' d = Inr True"
    by (simp add: Enrollment_IsActive_def assms sample_node_db_def expired_def)
  have hb: "sample_s1 d = sendAck sample_world 1 (zeroHeartbeatAck\<lparr>ack_OK := True, ack_NodeID := ''a''\<rparr>)
      (registry_upsert sample_world (hb_entry sample_world \<lparr>enr_ID = ''t-a'', enr_NodeName = ''a''\<rparr> 1 sample_hb) (New 0 d False None))"
    using active
    by (simp add: sample_s1_def handleMeshMessage_def decode_sample_hb sample_pipes handleHeartbeat_def
        Signer_Parse_def New_def sample_world_simps sample_hb_arrives)
  show "srv_sessions (sample_s1 d) = []"
    by (simp add: hb New_def)
  show "\<exists>b. srv_sock (sample_s1 d) = [\<lparr>msg_Header = PutUint32 1 @ backtraceToken,
       msg_Body = Envelope_Encode \<lparr>env_ReqID = HeartbeatAckReqID, env_Payload = b\<rparr>\<rparr>]"
    by (rule exI) (simp add: hb sendAck_def sample_world_def SendTo_cases New_def)
  show "srv_db (sample_s1 d) = d"
    by (simp add: hb registry_upsert_def New_def upsert_None)
  show "selectLeastConnections Second (srv_nodes (sample_s1 d)) =
      Inr (Some (hb_entry sample_world \<lparr>enr_ID = ''t-a'', enr_NodeName = ''a''\<rparr> 1 sample_hb))"
    by (simp add: hb registry_upsert_nodes New_def upsert_None newNodeRegistry_def upsert_locked_def
        selectLeastConnections_def hb_entry_def sample_world_def time_sub_def nodeStaleAfter_def)
qed

lemma sample_open_run:
  "\<exists>d S1 S2 h b node. rt_step (rt_init 0 d False None) Other S1 \<and> rt_step S1 (Open ''req-1'') S2 \<and>
     handleChatCompletions sample_http_env sample_request (sys_srv S1) = (Opened ''req-1'' (hd_ac h), sys_srv S2) \<and>
     sys_handlers S2 = [(''req-1'', h)] \<and> hd_seen h = [] \<and> \<not> ac_streamed (hd_ac h) \<and>
     srv_sessions (sys_srv S2) = [(''req-1'', make_chan 256)] \<and> ne_pipe node = 1 \<and>
     srv_sock (sys_srv S2) = [\<lparr>msg_Header = PutUint32 1 @ backtraceToken,
       msg_Body = Envelope_Encode \<lparr>env_ReqID = HeartbeatAckReqID, env_Payload = b\<rparr>\<rparr>, dispatch_message sample_http_env sample_request node]"
proof -
  obtain ak d where create: "APIKey_Create sample_argon (Some [7]) ''k1'' 1 None ''app'' ''sk-mesh-0123456789'' sample_node_db = Inr (ak, d)"
    and ver: "APIKey_Verify sample_argon (\<lambda>rs. rs) Second None None ''sk-mesh-0123456789'' d = Inr ak"
    using sample_key_ok by blast
  have tok: "node_enrollment_tokens d = node_enrollment_tokens sample_node_db"
    using create by (auto simp: APIKey_Create_def HashAPIKey_def insert_api_key_def Let_def split: if_splits)
  note s1 = sample_s1_state(1-3) [OF tok]
  obtain b where ack: "srv_sock (sample_s1 d) = [\<lparr>msg_Header = PutUint32 1 @ backtraceToken,
       msg_Body = Envelope_Encode \<lparr>env_ReqID = HeartbeatAckReqID, env_Payload = b\<rparr>\<rparr>]"
    using sample_s1_state(4) [OF tok] by blast
  define S1 where "S1 = (rt_init 0 d False None)\<lparr>sys_srv := sample_s1 d\<rparr>"
  have "mesh_event sample_hb_msg (New 0 d False None) = Other"
    by (simp add: mesh_event_def decode_sample_hb sample_pipes New_def split: sum.split)
  then have step1: "rt_step (rt_init 0 d False None) Other S1"
    using rt_step.mesh [of sample_world "rt_init 0 d False None" sample_hb_msg] sample_world_simps(4,5)
    by (simp add: S1_def rt_init_def sample_s1_def)
  define node where "node = hb_entry sample_world \<lparr>enr_ID = ''t-a'', enr_NodeName = ''a''\<rparr> 1 sample_hb"
  define ac where "ac = chat_context sample_http_env sample_request ak node"
  define s2 where "s2 = (sample_s1 d)\<lparr>srv_sessions := [(''req-1'', make_chan 256)],
       srv_sock := srv_sock (sample_s1 d) @ [dispatch_message sample_http_env sample_request node]\<rparr>"
  have "authenticate sample_http_env sample_request (sample_s1 d) = Inr ak"
    using ver by (intro sample_authenticates) (simp add: s1)
  then have chat: "handleChatCompletions sample_http_env sample_request (sys_srv S1) = (Opened ''req-1'' ac, s2)"
    using chat_opened [of sample_http_env sample_request "sample_s1 d" ak node] s1
    by (simp add: S1_def ac_def s2_def node_def sample_http_env_def)
  moreover have "map_of (srv_sessions (sys_srv S1)) (h_uuid sample_http_env) = None"
    by (simp add: S1_def s1)
  ultimately obtain S2 h where "rt_step S1 (Open ''req-1'') S2" "sys_srv S2 = s2"
    "sys_handlers S2 = [(''req-1'', h)]" "hd_seen h = []" "hd_ac h = ac"
    using rt_step.opened [where fl = "\<lambda>_. True" and q = "\<lambda>_. True"]
    by (force simp: S1_def rt_init_def)
  moreover have "\<not> ac_streamed ac" "ne_pipe node = 1"
    by (simp_all add: ac_def chat_context_def sample_request_not_streamed node_def hb_entry_def)
  ultimately show ?thesis
    using step1 chat
    by (intro exI [of _ d] exI [of _ S1] exI [of _ S2] exI [of _ h] exI [of _ b] exI [of _ node]) (simp add: s2_def ack)
qed

lemma sample_run:
  "\<exists>d S S' h. rt_run (rt_init 0 d False None)
       [Other, Open ''req-1'', Queued ''req-1'' \<lparr>frame_Type = FrameTypeEOF, frame_Payload = []\<rparr>] S \<and>
     map_of (sys_handlers S) ''req-1'' = Some h \<and> \<not> ac_streamed (hd_ac h) \<and>
     rt_step S (Ended ''req-1'' \<lparr>rs_status = 200, rs_type = TypeSet ''application/json'', rs_body = RawBody []\<rparr>) S'"
proof -
  let ?eof = "\<lparr>frame_Type = FrameTypeEOF, frame_Payload = []\<rparr>"
  obtain d S1 S2 h where step1: "rt_step (rt_init 0 d False None) Other S1" and step2: "rt_step S1 (Open ''req-1'') S2"
    and S2: "sys_handlers S2 = [(''req-1'', h)]" "hd_seen h = []" and strm: "\<not> ac_streamed (hd_ac h)"
    and sess2: "srv_sessions (sys_srv S2) = [(''req-1'', make_chan 256)]"
    using sample_open_run by blast
  define S3 where "S3 = S2\<lparr>sys_srv := handleMeshMessage sample_world sample_eof_msg (sys_srv S2)\<rparr>"
  have ev: "mesh_event sample_eof_msg (sys_srv S2) = Queued ''req-1'' ?eof"
    by (simp add: mesh_event_def decode_sample_eof sample_pipes sess2 HeartbeatReqID_def chan_try_send_def make_chan_def)
  then have step3: "rt_step S2 (Queued ''req-1'' ?eof) S3"
    using rt_step.mesh [of sample_world S2 sample_eof_msg] sample_world_simps(4,5) by (simp add: S3_def)
  have ch: "map_of (srv_sessions (sys_srv S3)) ''req-1'' = Some \<lparr>chan_cap = 256, chan_buf = [?eof]\<rparr>"
    by (simp add: S3_def handleMeshMessage_sessions ev sess2 chan_try_send_def make_chan_def)
  have h: "map_of (sys_handlers S3) ''req-1'' = Some h"
    by (simp add: S3_def S2)
  define h' where "h' = h\<lparr>hd_seen := hd_seen h @ [?eof]\<rparr>"
  have "handler_status h' = Some 200"
    "handler_reply h' = Some \<lparr>rs_status = 200, rs_type = TypeSet ''application/json'', rs_body = RawBody []\<rparr>"
    using strm by (simp_all add: handler_status_def handler_reply_def loop_status_def h'_def S2)
  moreover have "chan_try_recv \<lparr>chan_cap = 256, chan_buf = [?eof]\<rparr> = Some (?eof, \<lparr>chan_cap = 256, chan_buf = []\<rparr>)"
    by (simp add: chan_try_recv_def)
  ultimately have "\<exists>S'. rt_step S3 (Ended ''req-1'' \<lparr>rs_status = 200, rs_type = TypeSet ''application/json'', rs_body = RawBody []\<rparr>) S'"
    using rt_step.last [OF h ch _ h'_def] by blast
  moreover have "rt_run (rt_init 0 d False None) ((([] @ [Other]) @ [Open ''req-1'']) @ [Queued ''req-1'' ?eof]) S3"
    by (rule rt_run.snoc [OF rt_run.snoc [OF rt_run.snoc [OF rt_run.nil step1] step2] step3])
  ultimately show ?thesis
    using h strm by auto
qed

theorem buffered_response_integrity_witness:
  "\<exists>d S S' rsp fs t rest.
     rt_run (rt_init 0 d False None) [Other, Open ''req-1'', Queued ''req-1'' \<lparr>frame_Type = FrameTypeEOF, frame_Payload = []\<rparr>] S \<and>
     rt_step S (Ended ''req-1'' rsp) S' \<and> rs_status rsp = 200 \<and>
     queued_since ''req-1'' [Other, Open ''req-1'', Queued ''req-1'' \<lparr>frame_Type = FrameTypeEOF, frame_Payload = []\<rparr>] = fs @ t # rest \<and>
     terminal t \<and> map_of (srv_sessions (sys_srv S')) ''req-1'' = None"
proof -
  obtain d S S' h where run: "rt_run (rt_init 0 d False None)
       [Other, Open ''req-1'', Queued ''req-1'' \<lparr>frame_Type = FrameTypeEOF, frame_Payload = []\<rparr>] S"
    and h: "map_of (sys_handlers S) ''req-1'' = Some h" "\<not> ac_streamed (hd_ac h)"
    and step: "rt_step S (Ended ''req-1'' \<lparr>rs_status = 200, rs_type = TypeSet ''application/json'', rs_body = RawBody []\<rparr>) S'"
    using sample_run by blast
  from buffered_response_integrity [OF run step h] run step show ?thesis
    by (metis http_response.select_convs(1))
qed

subsection \<open>Streaming\<close>

text \<open>
  C8: streaming and buffering deliver the same content. As long as the client takes every
  chunk, the streamed bytes of a request are those the buffered response would have had: both
  loops wait for more frames together, end together with the same audited status, and on an end
  of stream with the same bytes; on an error frame the stream carries the chunks so far and then
  the error event.
\<close>
theorem stream_agrees_with_buffered:
  assumes "\<forall>j. flush_ok j"
  shows "case buffered_loop fs [] of
      Waiting b \<Rightarrow> (\<exists>out. stream_loop flush_ok q 0 fs [] = Waiting out \<and> b = RawBody out \<and> out = chunks fs)
    | Returned st b \<Rightarrow>
        (\<exists>pre t post. fs = pre @ t # post \<and> (\<forall>f \<in> set pre. \<not> terminal f) \<and> terminal t \<and>
          (if frame_Type t = FrameTypeEOF
           then st = 200 \<and> b = RawBody (chunks pre) \<and> stream_loop flush_ok q 0 fs [] = Returned 200 (chunks pre)
           else st = 502 \<and> b = ErrorBody (string_of_bytes (frame_Payload t)) \<and>
                stream_loop flush_ok q 0 fs [] = Returned 502 (chunks pre @ sse_error q (frame_Payload t))))"
proof (rule frames_split [of fs])
  assume open': "\<forall>f \<in> set fs. \<not> terminal f"
  then have "buffered_loop fs [] = Waiting (RawBody (chunks fs))"
    using buffered_loop_open [of fs "[]" "[]"] by simp
  moreover have "stream_loop flush_ok q 0 fs [] = Waiting (chunks fs)"
    using stream_loop_open [OF open' assms, of q 0 "[]" "[]"] by simp
  ultimately show ?thesis by simp
next
  fix pre t post assume fs: "fs = pre @ t # post" and t: "\<forall>f \<in> set pre. \<not> terminal f" "terminal t"
  show ?thesis
  proof (cases "frame_Type t = FrameTypeEOF")
    case True
    then show ?thesis
      using fs t by (simp add: buffered_loop_terminal [OF t] stream_loop_terminal [OF t assms]) blast
  next
    case False
    then show ?thesis
      using fs t by (simp add: buffered_loop_terminal [OF t] stream_loop_terminal [OF t assms]) blast
  qed
qed

theorem stream_agrees_with_buffered_witness:
  "buffered_loop [\<lparr>frame_Type = FrameTypeChunk, frame_Payload = [7]\<rparr>, \<lparr>frame_Type = FrameTypeEOF, frame_Payload = []\<rparr>] [] =
     Returned 200 (RawBody [7]) \<and>
   stream_loop (\<lambda>_. True) (\<lambda>_. True) 0
       [\<lparr>frame_Type = FrameTypeChunk, frame_Payload = [7]\<rparr>, \<lparr>frame_Type = FrameTypeEOF, frame_Payload = []\<rparr>] [] =
     Returned 200 [7]"
proof -
  let ?fs = "[\<lparr>frame_Type = FrameTypeChunk, frame_Payload = [7]\<rparr>, \<lparr>frame_Type = FrameTypeEOF, frame_Payload = []\<rparr>]"
  have b: "buffered_loop ?fs [] = Returned 200 (RawBody [7])"
    by (simp add: FrameTypeChunk_def FrameTypeEOF_def)
  have "stream_loop (\<lambda>_. True) (\<lambda>_. True) 0 ?fs [] = Returned 200 [7]"
    using stream_agrees_with_buffered [where flush_ok = "\<lambda>_. True" and q = "\<lambda>_. True" and fs = ?fs]
    unfolding b loop_result.case by (auto simp del: stream_loop.simps split: if_splits)
  then show ?thesis
    using b by simp
qed

text \<open>
  Since nothing closes a session's channel, a response loop returns only on a terminal frame or
  a failed write: a worker that dies mid-stream, or whose terminal frame was dropped by
  backpressure, leaves the client waiting.
\<close>

lemma no_terminal_frame_no_response:
  assumes "\<forall>f \<in> set fs. \<not> terminal f" "\<forall>j. flush_ok j"
  shows "buffered_reply (buffered_loop fs []) = None" "stream_reply (stream_loop flush_ok q 0 fs []) = None"
  using buffered_loop_open [OF assms(1), of "[]" "[]"] stream_loop_open [OF assms, of q 0 "[]" "[]"] by auto

subsection \<open>Error reports\<close>

text \<open>
  C12: what a client can read of an error. When the first terminal frame of a response is an error,
  the buffered response is 502 with a JSON body that reads as the error object with the worker's
  message, bytes that are not UTF-8 replaced. The streamed response ends with one event, on one
  line; it reads as the error object with exactly the message when the message has only characters
  whose Go quoting is JSON, and is no JSON at all otherwise.
\<close>
theorem error_report_decodable:
  assumes "\<forall>f \<in> set pre. \<not> terminal f" "frame_Type t = FrameTypeError" "\<forall>j. flush_ok j"
  shows "\<exists>b ev. buffered_loop (pre @ t # post) [] = Returned 502 b \<and>
    json_parse (string_of_bytes (http_body_bytes b)) = Some (error_json (to_valid (string_of_bytes (frame_Payload t)))) \<and>
    stream_loop flush_ok isPrint 0 (pre @ t # post) [] =
      Returned 502 (chunks pre @ bytes_of_string (''data: '' @ ev @ [CHR 0x0A, CHR 0x0A])) \<and>
    CHR 0x0A \<notin> set ev \<and>
    json_parse ev =
      (if list_all (quote_is_json isPrint) (runes (string_of_bytes (frame_Payload t)))
       then Some (error_json (string_of_bytes (frame_Payload t))) else None)"
proof -
  let ?m = "string_of_bytes (frame_Payload t)"
  have "json_parse (string_of_bytes (Marshal (error_json ?m))) = Some (error_json (to_valid ?m))"
    using json_roundtrip(1) [of "error_json ?m"]
    by (simp add: Marshal_def error_json_def maxNestingDepth_def byte_val_def)
  moreover have "terminal t"
    by (simp add: terminal_def assms(2))
  ultimately show ?thesis
    using buffered_loop_terminal [OF assms(1), of t post] stream_loop_terminal [OF assms(1) _ assms(3), of t isPrint 0 post]
    by (intro exI [of _ "ErrorBody ?m"] exI [of _ "error_event isPrint ?m"])
      (simp add: assms(2) http_body_bytes_def sse_error_def error_event_parse error_event_one_line)
qed
theorem error_report_decodable_witness:
  "\<exists>b ev. buffered_loop [\<lparr>frame_Type = FrameTypeError, frame_Payload = [7]\<rparr>] [] = Returned 502 b \<and>
    json_parse (string_of_bytes (http_body_bytes b)) \<noteq> None \<and>
    stream_loop (\<lambda>_. True) (\<lambda>_. True) 0 [\<lparr>frame_Type = FrameTypeError, frame_Payload = [7]\<rparr>] [] =
      Returned 502 (bytes_of_string (''data: '' @ ev @ [CHR 0x0A, CHR 0x0A])) \<and>
    json_parse ev = None"
proof -
  have "string_of_bytes [7] = [CHR 0x07]"
    by (simp add: string_of_bytes_def char_of_byte_def char_of_eq_iff)
  then have "\<not> list_all (quote_is_json (\<lambda>_. True)) (runes (string_of_bytes [7]))"
    by (simp add: quote_is_json_def within_def byte_val_def)
  then show ?thesis
    using error_report_decodable [of "[]" "\<lparr>frame_Type = FrameTypeError, frame_Payload = [7]\<rparr>" "\<lambda>_. True" "[]" "\<lambda>_. True"]
    by auto
qed

subsection \<open>Termination\<close>

lemma stream_waiting_open: "loop_status (stream_loop fl q i fs out) = None \<Longrightarrow> \<forall>f \<in> set fs. \<not> terminal f"
  by (induction fs arbitrary: i out) (auto simp: loop_status_def terminal_def split: if_splits)

lemma handler_waiting_open: "handler_status h = None \<Longrightarrow> \<forall>f \<in> set (hd_seen h). \<not> terminal f"
  using buffered_waiting_iff stream_waiting_open by (fastforce simp: handler_status_def split: if_splits)

lemma handler_reply_status: "handler_status h = Some st \<Longrightarrow> \<exists>rsp. handler_reply h = Some rsp"
  by (auto simp: handler_status_def handler_reply_def loop_status_def split: loop_result.splits if_splits)

text \<open>A handler with something in its channel can take a step, and it is the only one that makes it go on or end.\<close>

lemma handler_enabled:
  assumes "map_of (sys_handlers S) i = Some h" "map_of (srv_sessions (sys_srv S)) i = Some ch" "chan_buf ch \<noteq> []"
  shows "\<exists>S'. rt_step S (Took i) S' \<or> (\<exists>rsp. rt_step S (Ended i rsp) S')"
proof -
  obtain f ch' where recv: "chan_try_recv ch = Some (f, ch')"
    using assms(3) by (auto simp: chan_try_recv_def neq_Nil_conv)
  show ?thesis
  proof (cases "handler_status (h\<lparr>hd_seen := hd_seen h @ [f]\<rparr>)")
    case None
    then show ?thesis
      using rt_step.frame [OF assms(1,2) recv] by blast
  next
    case (Some st)
    then show ?thesis
      using rt_step.last [OF assms(1,2) recv] handler_reply_status [OF Some] by blast
  qed
qed

lemma rt_inv_session:
  assumes "rt_inv evs S" "map_of (sys_handlers S) i = Some h"
  shows "\<exists>ch. map_of (srv_sessions (sys_srv S)) i = Some ch \<and> handler_status h = None \<and> chan_ok ch \<and> chan_cap ch = 256 \<and>
    queued_since i evs = hd_seen h @ chan_buf ch"
proof -
  have "i \<in> dom (map_of (srv_sessions (sys_srv S)))"
    using assms unfolding rt_inv_def by blast
  then obtain ch where "map_of (srv_sessions (sys_srv S)) i = Some ch"
    by blast
  then show ?thesis
    using assms unfolding rt_inv_def by blast
qed

lemma rt_step_handler:
  assumes "rt_step S ev S'" "rt_inv evs S" "map_of (sys_handlers S) i = Some h" "\<And>rsp. ev \<noteq> Ended i rsp"
  shows "ev \<noteq> Open i \<and> (\<exists>h'. map_of (sys_handlers S') i = Some h' \<and>
    length (hd_seen h') = length (hd_seen h) + (if ev = Took i then 1 else 0))"
  using assms
proof (induction rule: rt_step.induct)
  case (mesh env S msg)
  then show ?case
    using mesh_event_cases [of msg "sys_srv S"] by auto
next
  case (opened env rq S reqID ac s' fl q)
  have "reqID = h_uuid env"
    using handleChat_cases [OF rt_inv_nodes [OF opened.prems(1)], of env rq] opened.hyps(1) by auto
  then have "i \<noteq> reqID"
    using rt_inv_session [OF opened.prems(1,2)] opened.hyps(2) by auto
  with opened show ?case
    by (simp add: update_conv')
qed (auto simp: rt_inv_def update_conv' delete_conv')

lemma queued_step_prefix: "ev \<noteq> Open i \<Longrightarrow> prefix acc (queued_step i ev acc)"
  by (cases ev) auto

lemma rt_run_handler:
  assumes "rt_run S evs' S'" "rt_inv evs S" "map_of (sys_handlers S) i = Some h" "\<And>rsp. Ended i rsp \<notin> set evs'"
  shows "prefix (queued_since i evs) (queued_since i (evs @ evs')) \<and> rt_inv (evs @ evs') S' \<and>
    (\<exists>h'. map_of (sys_handlers S') i = Some h' \<and>
      length (hd_seen h') = length (hd_seen h) + count_list evs' (Took i))"
  using assms
proof (induction rule: rt_run.induct)
  case (snoc S evs' S' ev S'')
  then obtain h' where IH: "prefix (queued_since i evs) (queued_since i (evs @ evs'))" "rt_inv (evs @ evs') S'"
    "map_of (sys_handlers S') i = Some h'" "length (hd_seen h') = length (hd_seen h) + count_list evs' (Took i)"
    by auto
  have ev: "ev \<noteq> Ended i rsp" for rsp
    using snoc.prems(3) by auto
  obtain h'' where "ev \<noteq> Open i" "map_of (sys_handlers S'') i = Some h''"
    "length (hd_seen h'') = length (hd_seen h') + (if ev = Took i then 1 else 0)"
    using rt_step_handler [OF snoc.hyps(2) IH(2,3) ev] by blast
  then show ?case
    using IH rt_inv_step [OF snoc.hyps(2) IH(2)] queued_step_prefix [of ev i "queued_since i (evs @ evs')"]
      queued_since_snoc [of i "evs @ evs'" ev]
    by (auto intro: prefix_order.trans)
qed simp

text \<open>
  C11: a response ends once its terminal frame is queued. From then on, in whatever way the
  receive loop, the other handlers and the store interleave, the handler can always take its next
  step as long as it has not returned, and it takes fewer than 256 of them before it returns.
\<close>
theorem response_loop_ends:
  assumes run: "rt_run (rt_init stale d has_db audit) evs S" and h: "map_of (sys_handlers S) i = Some h"
    and t: "\<exists>t \<in> set (queued_since i evs). terminal t"
    and run': "rt_run S evs' S'" and on: "\<forall>rsp. Ended i rsp \<notin> set evs'"
  shows "count_list evs' (Took i) < 256 \<and>
    (\<exists>S''. rt_step S' (Took i) S'' \<or> (\<exists>rsp. rt_step S' (Ended i rsp) S''))"
proof -
  have inv: "rt_inv evs S"
    using rt_inv_run [OF run rt_inv_init] .
  obtain h' where q: "prefix (queued_since i evs) (queued_since i (evs @ evs'))" and inv': "rt_inv (evs @ evs') S'"
    and h': "map_of (sys_handlers S') i = Some h'" "length (hd_seen h') = length (hd_seen h) + count_list evs' (Took i)"
    using rt_run_handler [OF run' inv h] on by blast
  obtain ch ch' where ch: "map_of (srv_sessions (sys_srv S)) i = Some ch" "map_of (srv_sessions (sys_srv S')) i = Some ch'"
    using rt_inv_session [OF inv h] rt_inv_session [OF inv' h'(1)] by blast
  have c: "queued_since i evs = hd_seen h @ chan_buf ch" "length (chan_buf ch) \<le> 256"
    and c': "handler_status h' = None" "queued_since i (evs @ evs') = hd_seen h' @ chan_buf ch'"
    using rt_inv_session [OF inv h] rt_inv_session [OF inv' h'(1)] ch by (auto simp: chan_ok_def)
  obtain zs where zs: "hd_seen h' @ chan_buf ch' = (hd_seen h @ chan_buf ch) @ zs"
    using q c(1) c'(2) by (auto simp: prefix_def)
  have "\<not> prefix (hd_seen h @ chan_buf ch) (hd_seen h')"
    using t c(1) handler_waiting_open [OF c'(1)] set_mono_prefix by (metis subsetD)
  then have "length (hd_seen h') < length (hd_seen h @ chan_buf ch)"
    using zs by (metis append_eq_append_conv_if prefixI append_take_drop_id not_less take_is_prefix)
  moreover from this have "chan_buf ch' \<noteq> []"
    using arg_cong [OF zs, of length] by auto
  ultimately show ?thesis
    using h'(2) c(2) handler_enabled [OF h'(1) ch(2)] by simp
qed

theorem response_loop_ends_witness:
  "\<exists>d S S'. rt_run (rt_init 0 d False None) [Other, Open ''req-1'', Queued ''req-1'' \<lparr>frame_Type = FrameTypeEOF, frame_Payload = []\<rparr>] S \<and>
    (rt_step S (Took ''req-1'') S' \<or> (\<exists>rsp. rt_step S (Ended ''req-1'' rsp) S'))"
proof -
  obtain d S S' h where run: "rt_run (rt_init 0 d False None)
       [Other, Open ''req-1'', Queued ''req-1'' \<lparr>frame_Type = FrameTypeEOF, frame_Payload = []\<rparr>] S"
    and h: "map_of (sys_handlers S) ''req-1'' = Some h"
    using sample_run by blast
  have "\<exists>S''. rt_step S (Took ''req-1'') S'' \<or> (\<exists>rsp. rt_step S (Ended ''req-1'' rsp) S'')"
    using response_loop_ends [OF run h _ rt_run.nil] by (simp add: queued_since_def terminal_def)
  with run show ?thesis by blast
qed
subsection \<open>Heartbeats\<close>

definition ack_message :: "PipeID \<Rightarrow> bytes \<Rightarrow> message" where
  "ack_message pipe payload =
     \<lparr>msg_Header = PutUint32 pipe @ backtraceToken,
      msg_Body = Envelope_Encode \<lparr>env_ReqID = HeartbeatAckReqID, env_Payload = payload\<rparr>\<rparr>"

lemma sendAck_sock:
  "w_send_fault env = None \<Longrightarrow>
   srv_sock (sendAck env pipe ack s) = srv_sock s @ [ack_message pipe (marshal_HeartbeatAck ack)]"
  by (simp add: sendAck_def SendTo_cases ack_message_def)

text \<open>What a heartbeat must present to be accepted: the enrollment its token resolves to.\<close>

definition accepted_enrollment :: "rt_env \<Rightarrow> Envelope \<Rightarrow> db \<Rightarrow> (Heartbeat \<times> Enrollment) option" where
  "accepted_enrollment env e d =
     (case unmarshal_Heartbeat (w_parse_float env) (env_Payload e) of
        None \<Rightarrow> None
      | Some hb \<Rightarrow>
        (case Signer_Parse (w_parseV4 env) (w_now env) (hb_EnrollmentToken hb) of
           Inl _ \<Rightarrow> None
         | Inr enr \<Rightarrow>
             if Enrollment_IsActive (w_now env) (w_enroll_fault env) (enr_ID enr) d = Inr True then Some (hb, enr) else None))"

lemma handleHeartbeat_accepted:
  "accepted_enrollment env e (srv_db s) = Some (hb, enr) \<Longrightarrow>
   handleHeartbeat env pipe e s =
     sendAck env pipe (zeroHeartbeatAck\<lparr>ack_OK := True, ack_NodeID := enr_NodeName enr\<rparr>)
       (registry_upsert env (hb_entry env enr pipe hb) s)"
  by (auto simp: accepted_enrollment_def handleHeartbeat_def split: option.splits sum.splits if_splits)

lemma handleHeartbeat_rejected:
  "accepted_enrollment env e (srv_db s) = None \<Longrightarrow>
   \<exists>ack i reason detail. handleHeartbeat env pipe e s = sendAck env pipe ack s \<and> \<not> ack_OK ack \<or>
     handleHeartbeat env pipe e s = sendAck env pipe ack (claim env i reason detail pipe s) \<and> \<not> ack_OK ack"
  unfolding handleHeartbeat_def accepted_enrollment_def zeroHeartbeatAck_def
  by (auto split: option.splits sum.splits bool.splits if_splits) (metis HeartbeatAck.select_convs(1))+

text \<open>
  Every heartbeat is answered exactly once, on the pipe it came from, and the answer is
  truthful. The acknowledgement says OK exactly when the token verified and its enrollment is
  active; then the node is registered under the name the token carries (not the one the worker
  claims), on that pipe, with the reported telemetry. Otherwise neither the node table, nor the
  order, nor the database changes.
\<close>
lemma heartbeat_answered_truthfully:
  assumes sent: "w_send_fault env = None"
  shows "\<exists>ack. srv_sock (handleHeartbeat env pipe e s) = srv_sock s @ [ack_message pipe (marshal_HeartbeatAck ack)] \<and>
    (case accepted_enrollment env e (srv_db s) of
       Some (hb, enr) \<Rightarrow>
         ack = \<lparr>ack_OK = True, ack_Reason = '''', ack_Detail = '''', ack_NodeID = enr_NodeName enr\<rparr> \<and>
         (\<exists>syn. map_of (byID (srv_nodes (handleHeartbeat env pipe e s))) (enr_NodeName enr) =
            Some ((hb_entry env enr pipe hb)\<lparr>ne_syncedCatalog := syn\<rparr>))
     | None \<Rightarrow>
         \<not> ack_OK ack \<and> srv_db (handleHeartbeat env pipe e s) = srv_db s \<and>
         byID (srv_nodes (handleHeartbeat env pipe e s)) = byID (srv_nodes s) \<and>
         byPipe (srv_nodes (handleHeartbeat env pipe e s)) = byPipe (srv_nodes s) \<and>
         order (srv_nodes (handleHeartbeat env pipe e s)) = order (srv_nodes s))"
proof (cases "accepted_enrollment env e (srv_db s)")
  case None
  then obtain ack s1 where hb: "handleHeartbeat env pipe e s = sendAck env pipe ack s1" and nok: "\<not> ack_OK ack"
    and s1: "srv_db s1 = srv_db s" "byID (srv_nodes s1) = byID (srv_nodes s)" "byPipe (srv_nodes s1) = byPipe (srv_nodes s)"
      "order (srv_nodes s1) = order (srv_nodes s)" "srv_sock s1 = srv_sock s"
    using handleHeartbeat_rejected [OF None, of pipe] claim_simps by metis
  then show ?thesis
    using nok s1 sent
    by (intro exI [of _ ack]) (simp add: None hb sendAck_sock)
next
  case (Some p)
  obtain hb enr where p: "p = (hb, enr)" by (cases p)
  define ack where "ack = zeroHeartbeatAck\<lparr>ack_OK := True, ack_NodeID := enr_NodeName enr\<rparr>"
  have "handleHeartbeat env pipe e s = sendAck env pipe ack (registry_upsert env (hb_entry env enr pipe hb) s)"
    using handleHeartbeat_accepted [of env e s hb enr pipe] by (simp add: Some p ack_def)
  moreover have "ne_id (hb_entry env enr pipe hb) = enr_NodeName enr"
    by (simp add: hb_entry_def)
  moreover have "ack = \<lparr>ack_OK = True, ack_Reason = '''', ack_Detail = '''', ack_NodeID = enr_NodeName enr\<rparr>"
    by (simp add: ack_def zeroHeartbeatAck_def)
  ultimately show ?thesis
    using sent upsert_stored [of "w_pf env" "w_now env" "hb_entry env enr pipe hb" "srv_nodes s"]
    by (intro exI [of _ ack]) (simp add: Some p sendAck_sock registry_upsert_nodes)
qed

lemma heartbeat_answered_instance:
  "\<exists>ack. srv_sock (handleHeartbeat sample_world 1 \<lparr>env_ReqID = ''hb'', env_Payload = sample_hb_text\<rparr> (New 0 sample_node_db False None)) =
       [ack_message 1 (marshal_HeartbeatAck ack)] \<and> ack_OK ack"
proof -
  let ?s = "New 0 sample_node_db False None" and ?e = "\<lparr>env_ReqID = ''hb'', env_Payload = sample_hb_text\<rparr>"
  have acc: "accepted_enrollment sample_world ?e (srv_db ?s) = Some (sample_hb, \<lparr>enr_ID = ''t-a'', enr_NodeName = ''a''\<rparr>)"
    by (simp add: accepted_enrollment_def sample_hb_arrives sample_world_simps Signer_Parse_def Enrollment_IsActive_def New_def
        sample_node_db_def expired_def)
  have "w_send_fault sample_world = None"
    by (simp add: sample_world_def)
  from heartbeat_answered_truthfully [OF this, of 1 ?e ?s] obtain ack
    where "srv_sock (handleHeartbeat sample_world 1 ?e ?s) = srv_sock ?s @ [ack_message 1 (marshal_HeartbeatAck ack)]" "ack_OK ack"
    using acc by auto
  then show ?thesis
    by (intro exI [of _ ack]) (simp add: New_def)
qed

text \<open>
  C9: a mesh message that is not a heartbeat can only reach the session it names: it never
  touches the registry, the database, the outgoing socket or another session; and an
  undecodable message, an unknown session or a full session leave the whole server as it was.
\<close>
theorem mesh_message_confined:
  assumes "\<forall>e. DecodeEnvelope (msg_Body msg) = Inr e \<longrightarrow> env_ReqID e \<noteq> HeartbeatReqID"
  shows "srv_nodes (handleMeshMessage env msg s) = srv_nodes s \<and> srv_db (handleMeshMessage env msg s) = srv_db s \<and>
    srv_sock (handleMeshMessage env msg s) = srv_sock s \<and> srv_audit (handleMeshMessage env msg s) = srv_audit s \<and>
    (\<forall>j. map_of (srv_sessions (handleMeshMessage env msg s)) j =
      (case mesh_event msg s of
         Queued i f \<Rightarrow> if j = i then map_option (\<lambda>ch. ch\<lparr>chan_buf := chan_buf ch @ [f]\<rparr>) (map_of (srv_sessions s) i)
                      else map_of (srv_sessions s) j
       | _ \<Rightarrow> map_of (srv_sessions s) j))"
proof -
  have "map_of (srv_sessions (handleMeshMessage env msg s)) j =
      (case mesh_event msg s of
         Queued i f \<Rightarrow> if j = i then map_option (\<lambda>ch. ch\<lparr>chan_buf := chan_buf ch @ [f]\<rparr>) (map_of (srv_sessions s) i)
                      else map_of (srv_sessions s) j
       | _ \<Rightarrow> map_of (srv_sessions s) j)" for j
    using mesh_event_cases [of msg s]
    by (elim disjE exE conjE) (simp_all add: handleMeshMessage_sessions chan_try_send_def)
  moreover have "srv_nodes (handleMeshMessage env msg s) = srv_nodes s \<and> srv_db (handleMeshMessage env msg s) = srv_db s \<and>
      srv_sock (handleMeshMessage env msg s) = srv_sock s \<and> srv_audit (handleMeshMessage env msg s) = srv_audit s"
    using assms by (simp add: handleMeshMessage_def split: sum.split option.split)
  ultimately show ?thesis by blast
qed

theorem mesh_message_confined_witness:
  "srv_nodes (handleMeshMessage sample_world sample_eof_msg (sample_s1 empty_db)) = srv_nodes (sample_s1 empty_db)"
  using mesh_message_confined [of sample_eof_msg sample_world "sample_s1 empty_db"]
  by (simp add: decode_sample_eof HeartbeatReqID_def)

subsection \<open>The chat endpoint\<close>

lemma authenticate_InrD:
  assumes "authenticate env rq s = Inr ak"
  shows "extractBearer (rq_authorization rq) \<noteq> ''''"
    "APIKey_Verify (h_argon env) (h_ord env) (h_now env) (h_qfault env) (h_ifault env)
       (extractBearer (rq_authorization rq)) (srv_db s) = Inr ak"
  using assms by (auto simp: authenticate_def Let_def split: if_splits sum.splits)

lemma best_node_known:
  assumes inv: "nodes_inv r" and best: "best_node now r = Some node"
  shows "map_of (byID r) (ne_id node) = Some node" "time_sub now (ne_lastSeen node) \<le> staleAfter r"
proof -
  have "node \<in> set (entries r)" and fresh: "time_sub now (ne_lastSeen node) \<le> staleAfter r"
    using least_connections.pick_live [OF inv best] by (auto simp: fresh_nodes_def)
  then show "map_of (byID r) (ne_id node) = Some node"
    using inv entries_set [OF inv] by (auto simp: nodes_inv_def)
  show "time_sub now (ne_lastSeen node) \<le> staleAfter r"
    by (rule fresh)
qed

lemma authenticated_key:
  assumes "row_order (h_ord env)" "authenticate env rq s = Inr ak"
  shows "\<exists>r \<in> set (api_keys (srv_db s)). ak_id r = key_ID ak \<and> ak_status r = ''active'' \<and>
    \<not> expired (ak_expires_at r) (h_now env) \<and>
    VerifyAPIKey (h_argon env) (extractBearer (rq_authorization rq)) (ak_token_hash r) = Inr True"
  using APIKey_Verify_InrD [OF assms(1) authenticate_InrD(2) [OF assms(2)]] by (force simp: scan_verify_def)

text \<open>
  C10: the guards of the chat endpoint. A request reaches a worker only with a bearer token that
  verifies against an active, unexpired key, and only a fresh registered node is chosen; then
  exactly one message leaves, to that node's pipe, and it decodes to the request body under
  the new session's id. Every refusal (401 without a valid key, 503 without a worker, 502 when the
  dispatch fails) sends nothing and leaves the open sessions, the registry and the database
  unchanged.
\<close>
theorem chat_guards:
  assumes reach: "reg_reachable stale (srv_nodes s)" and ord: "row_order (h_ord env)"
    and uuid: "map_of (srv_sessions s) (h_uuid env) = None" "length (h_uuid env) \<le> 255"
  shows "case handleChatCompletions env rq s of
      (Crash, _) \<Rightarrow> False
    | (Respond rsp, s') \<Rightarrow>
        rs_status rsp \<in> {401, 502, 503} \<and> srv_sock s' = srv_sock s \<and> srv_nodes s' = srv_nodes s \<and>
        srv_db s' = srv_db s \<and> map_of (srv_sessions s') = map_of (srv_sessions s)
    | (Opened reqID ac, s') \<Rightarrow>
        (\<exists>r \<in> set (api_keys (srv_db s)). ak_id r = ac_apiKeyID ac \<and> ak_status r = ''active'' \<and>
           \<not> expired (ak_expires_at r) (h_now env) \<and>
           VerifyAPIKey (h_argon env) (extractBearer (rq_authorization rq)) (ak_token_hash r) = Inr True) \<and>
        (\<exists>node. map_of (byID (srv_nodes s)) (ac_nodeID ac) = Some node \<and>
           time_sub (h_now env) (ne_lastSeen node) \<le> stale \<and>
           (\<exists>msg. srv_sock s' = srv_sock s @ [msg] \<and> PipeFromHeader (msg_Header msg) = Inr (ne_pipe node) \<and>
              DecodeEnvelope (msg_Body msg) = Inr \<lparr>env_ReqID = reqID, env_Payload = rq_body rq\<rparr>)) \<and>
        map_of (srv_sessions s') reqID = Some (make_chan 256)"
proof (cases "authenticate env rq s")
  case (Inl m)
  then show ?thesis by (simp add: chat_unauthorized json_error_def)
next
  case (Inr ak)
  have inv: "nodes_inv (srv_nodes s)" and stale: "staleAfter (srv_nodes s) = stale"
    using reachable_inv [OF reach] by simp_all
  show ?thesis
  proof (cases "best_node (h_now env) (srv_nodes s)")
    case None
    then have "selectLeastConnections (h_now env) (srv_nodes s) = Inr None"
      by (simp add: best_node_def selectLeastConnections_eq [OF inv])
    with Inr show ?thesis by (simp add: chat_no_worker json_error_def)
  next
    case (Some node)
    then have sel: "selectLeastConnections (h_now env) (srv_nodes s) = Inr (Some node)"
      by (simp add: best_node_def selectLeastConnections_eq [OF inv])
    show ?thesis
    proof (cases "h_send_fault env")
      case (Some e)
      then show ?thesis
        using chat_dispatch_failed [OF Inr sel Some] uuid(1) by (simp add: json_error_def fun_upd_idem)
    next
      case None
      have "envelope_valid \<lparr>env_ReqID = h_uuid env, env_Payload = rq_body rq\<rparr>"
        using uuid(2) by (simp add: envelope_valid_def MaxReqIDLen_def)
      then show ?thesis
        using chat_opened [OF Inr sel None] best_node_known [OF inv Some] authenticated_key [OF ord Inr]
        by (simp add: chat_context_def dispatch_message_def envelope_codec.dec_enc stale)
    qed
  qed
qed

theorem chat_guards_witness:
  "\<exists>s ac s'. handleChatCompletions sample_http_env sample_request s = (Opened ''req-1'' ac, s') \<and>
     ac_nodeID ac = ''a'' \<and> map_of (srv_sessions s') ''req-1'' = Some (make_chan 256)"
proof -
  obtain ak d where create: "APIKey_Create sample_argon (Some [7]) ''k1'' 1 None ''app'' ''sk-mesh-0123456789'' sample_node_db = Inr (ak, d)"
    and ver: "APIKey_Verify sample_argon (\<lambda>rs. rs) Second None None ''sk-mesh-0123456789'' d = Inr ak"
    using sample_key_ok by blast
  have tok: "node_enrollment_tokens d = node_enrollment_tokens sample_node_db"
    using create by (auto simp: APIKey_Create_def HashAPIKey_def insert_api_key_def Let_def split: if_splits)
  note s1 = sample_s1_state [OF tok]
  have reach: "reg_reachable nodeStaleAfter (srv_nodes (sample_s1 d))"
    unfolding sample_s1_def by (intro handleMeshMessage_reachable) (simp_all add: New_def reg_reachable.start sample_world_simps)
  have "authenticate sample_http_env sample_request (sample_s1 d) = Inr ak"
    using ver by (intro sample_authenticates) (simp add: s1)
  moreover have h: "h_now sample_http_env = Second" "h_uuid sample_http_env = ''req-1''" "h_send_fault sample_http_env = None"
    "h_ord sample_http_env = (\<lambda>rs. rs)"
    by (simp_all add: sample_http_env_def)
  ultimately obtain s' where res: "handleChatCompletions sample_http_env sample_request (sample_s1 d) =
      (Opened ''req-1'' (chat_context sample_http_env sample_request ak
         (hb_entry sample_world \<lparr>enr_ID = ''t-a'', enr_NodeName = ''a''\<rparr> 1 sample_hb)), s')"
    using s1(1) chat_opened [of sample_http_env sample_request "sample_s1 d" ak] by simp
  have "row_order (h_ord sample_http_env)" "map_of (srv_sessions (sample_s1 d)) (h_uuid sample_http_env) = None"
    "length (h_uuid sample_http_env) \<le> 255"
    using s1(2) h by (simp_all add: row_order_def)
  from chat_guards [OF reach this, of sample_request] have "map_of (srv_sessions s') ''req-1'' = Some (make_chan 256)"
    unfolding res by simp
  moreover have "ac_nodeID (chat_context sample_http_env sample_request ak
         (hb_entry sample_world \<lparr>enr_ID = ''t-a'', enr_NodeName = ''a''\<rparr> 1 sample_hb)) = ''a''"
    by (simp add: chat_context_def hb_entry_def)
  ultimately show ?thesis
    using res by blast
qed

text \<open>
  A token is taken from the \<open>Authorization\<close> header exactly when the header is the scheme
  \<open>Bearer\<close> in any capitalisation, one space and a non-empty token, and then it is that token.
\<close>
lemma extractBearer_spec:
  "extractBearer authz = tok \<and> tok \<noteq> '''' \<longleftrightarrow>
   (\<exists>scheme. authz = scheme @ tok \<and> tok \<noteq> '''' \<and> length scheme = 7 \<and> map ascii_lower scheme = ''bearer '')"
proof -
  define p where "p = ''Bearer ''"
  have p: "length p = 7" "map ascii_lower p = ''bearer ''"
    unfolding p_def by simp code_simp
  have eq: "extractBearer authz =
      (if length p < length authz \<and> map ascii_lower (take (length p) authz) = map ascii_lower p
       then drop (length p) authz else [])" for authz
    by (simp only: extractBearer_def p_def Let_def)
  have "extractBearer (scheme @ tok) = tok"
    if "tok \<noteq> []" "length scheme = 7" "map ascii_lower scheme = ''bearer ''" for scheme
    unfolding eq p using that by simp
  moreover have "\<exists>scheme. authz = scheme @ tok \<and> length scheme = 7 \<and> map ascii_lower scheme = ''bearer ''"
    if "extractBearer authz = tok" "tok \<noteq> []"
  proof -
    have "7 < length authz" "map ascii_lower (take 7 authz) = ''bearer ''" "tok = drop 7 authz"
      using that unfolding eq p by (simp_all split: if_splits)
    then show ?thesis
      by (intro exI [of _ "take 7 authz"] conjI) (simp_all only: append_take_drop_id, simp)
  qed
  ultimately show ?thesis
    by (intro iffI; elim exE conjE) (simp_all only: not_False_eq_True simp_thms)
qed

end
