(* ===== verification/Catalog.thy ===== *)
theory Catalog
  imports Messages
begin

text \<open>
  The worker's two HTTP clients: the model probe of \<open>src/internal/catalog/probe.go\<close>, which
  caches the engine's model list, and the proxy engine of \<open>src/internal/engine/engine.go\<close>, which
  forwards a request body and hands back the response body. The answer of the remote endpoint
  is an argument.
\<close>

section \<open>The probe\<close>

definition DefaultRefreshInterval :: duration where "DefaultRefreshInterval = 60 * Second"

text \<open>\<open>current\<close> is \<open>None\<close> where the Go slice is nil.\<close>

record Probe =
  pb_endpoint :: string
  pb_interval :: duration
  pb_current :: "string list option"
  pb_err :: "string option"

definition NewProbe :: "string \<Rightarrow> duration option \<Rightarrow> Probe" where
  "NewProbe baseURL interval =
     \<lparr>pb_endpoint = baseURL @ ''/v1/models'',
      pb_interval = (case interval of None \<Rightarrow> DefaultRefreshInterval | Some d \<Rightarrow> d),
      pb_current = None, pb_err = None\<rparr>"

text \<open>
  What one fetch meets: a request that cannot be built, a failed exchange, or a response with a
  status and a body, which may not be read to its end. The text of the
  decoder's error for a body is \<open>derr\<close>.
\<close>

datatype fetch = BuildFails string | DoFails string | Answer int "string + bytes"

definition probe_set :: "string list option \<Rightarrow> string option \<Rightarrow> Probe \<Rightarrow> Probe" where
  "probe_set ids err p = p\<lparr>pb_current := ids, pb_err := err\<rparr>"

definition Refresh :: "(bytes \<Rightarrow> string) \<Rightarrow> fetch \<Rightarrow> Probe \<Rightarrow> string option \<times> Probe" where
  "Refresh derr f p =
     (case f of
        BuildFails m \<Rightarrow> (Some (''catalog: build request: '' @ m), p)
      | DoFails m \<Rightarrow> (Some (''catalog: fetch '' @ pb_endpoint p @ '': '' @ m), probe_set None (Some m) p)
      | Answer status body \<Rightarrow>
          if status \<ge> 400 then
            let err = ''catalog: '' @ pb_endpoint p @ '' returned status '' @ FormatInt status
            in (Some err, probe_set None (Some err) p)
          else
            (case body of
               Inl m \<Rightarrow> (Some (''catalog: decode: '' @ m), probe_set None (Some m) p)
             | Inr data \<Rightarrow>
                 (case decode_models data of
                    None \<Rightarrow> (Some (''catalog: decode: '' @ derr data), probe_set None (Some (derr data)) p)
                  | Some models \<Rightarrow> (None, probe_set (Some (filter (\<lambda>i. i \<noteq> '''') models)) None p))))"

definition Current :: "Probe \<Rightarrow> string list option \<times> string option" where
  "Current p = (pb_current p, pb_err p)"

text \<open>The refresh loop: one fetch at once and one per tick, until the context is done.\<close>

fun Probe_Run :: "(bytes \<Rightarrow> string) \<Rightarrow> fetch list \<Rightarrow> Probe \<Rightarrow> Probe" where
  "Probe_Run derr [] p = p"
| "Probe_Run derr (f # fs) p = Probe_Run derr fs (snd (Refresh derr f p))"

text \<open>
  The probe never advertises stale models. After any sequence of fetches the cached catalog
  and the cached error are those of the last fetch that could be issued: the non-empty ids of a
  good answer and no error, or no catalog and an error; never both.
\<close>
lemma probe_catalog_fresh:
  "case Current (Probe_Run derr (fs @ [f]) (NewProbe url iv)) of
     (cat, err) \<Rightarrow>
       (case f of
          BuildFails _ \<Rightarrow> (cat, err) = Current (Probe_Run derr fs (NewProbe url iv))
        | DoFails m \<Rightarrow> cat = None \<and> err = Some m
        | Answer status body \<Rightarrow>
            (case body of
               Inr data \<Rightarrow>
                 if status < 400 \<and> decode_models data \<noteq> None
                 then cat = Some (filter (\<lambda>i. i \<noteq> '''') (the (decode_models data))) \<and> err = None
                 else cat = None \<and> err \<noteq> None
             | Inl _ \<Rightarrow> cat = None \<and> err \<noteq> None)) \<and>
       \<not> (cat \<noteq> None \<and> err \<noteq> None)"
proof -
  have run: "Probe_Run derr (fs @ [f]) p = snd (Refresh derr f (Probe_Run derr fs p))" for p
    by (induction fs arbitrary: p) simp_all
  have one: "pb_current p = None \<or> pb_err p = None \<Longrightarrow>
      pb_current (snd (Refresh derr f p)) = None \<or> pb_err (snd (Refresh derr f p)) = None" for f p
    by (auto simp: Refresh_def probe_set_def Let_def split: fetch.splits sum.splits option.splits)
  have inv: "pb_current p = None \<or> pb_err p = None \<Longrightarrow>
      pb_current (Probe_Run derr gs p) = None \<or> pb_err (Probe_Run derr gs p) = None" for gs p
    by (induction gs arbitrary: p) (simp_all add: one)
  have "pb_current (Probe_Run derr (fs @ [f]) (NewProbe url iv)) = None \<or> pb_err (Probe_Run derr (fs @ [f]) (NewProbe url iv)) = None"
    by (intro inv) (simp add: NewProbe_def)
  then show ?thesis
    unfolding run
    by (auto simp: Current_def Refresh_def probe_set_def Let_def split: fetch.splits sum.splits option.splits)
qed

section \<open>The proxy engine\<close>

datatype read_err = EOF | ReadErr string

text \<open>A result of one \<open>Read\<close>: the bytes put into the buffer and the error, if any.\<close>

type_synonym body_read = "bytes \<times> read_err option"

datatype upstream = ReqFails string | UpstreamFails string | Upstream int "body_read list"

definition Proxy :: "upstream \<Rightarrow> string + body_read list" where
  "Proxy u =
     (case u of
        ReqFails m \<Rightarrow> Inl (''engine: build request: '' @ m)
      | UpstreamFails m \<Rightarrow> Inl (''engine: upstream request: '' @ m)
      | Upstream status reads \<Rightarrow>
          if status \<ge> 400 then Inl (''engine: upstream returned status '' @ FormatInt status) else Inr reads)"

end
