(* ===== verification/Worker.thy ===== *)
theory Worker
  imports MeshTLS Catalog
begin

text \<open>
  The worker daemon of \<open>src/internal/worker/daemon.go\<close>: the connection state driven by the
  router's acknowledgements, the heartbeat loop, the receive loop and the jobs it starts. The
  daemon is a transition system whose steps are the receive loop's messages, the heartbeat
  loop's ticks and the iterations of the job goroutines, interleaved in any order.
\<close>

section \<open>State\<close>

definition DefaultHeartbeatInterval :: duration where "DefaultHeartbeatInterval = 5 * Second"
definition registrationTick :: duration where "registrationTick = Second"

text \<open>\<open>lastAck\<close> is \<open>None\<close> where the Go time is zero.\<close>

record Daemon =
  dm_routerAddr :: string
  dm_nodeID :: string
  dm_enrollmentToken :: string
  dm_activeModel :: string
  dm_heartbeatInterval :: duration
  dm_probe :: "Probe option"
  dm_activeRequests :: int
  dm_tlsConfig :: "tls_config option"
  dm_proxyURL :: string
  dm_state :: string
  dm_lastAck :: "time option"
  dm_rejectReason :: string
  dm_warnCount :: int
  dm_sock :: sock

definition degradedAfter :: "Daemon \<Rightarrow> duration" where
  "degradedAfter d = 3 * dm_heartbeatInterval d"

datatype option_fn = WithHeartbeatInterval duration | WithActiveModel string | WithProbe "Probe option"
  | WithTLSConfig "tls_config option" | WithProxyURL string

fun apply_option :: "option_fn \<Rightarrow> Daemon \<Rightarrow> Daemon" where
  "apply_option (WithHeartbeatInterval i) d = d\<lparr>dm_heartbeatInterval := i\<rparr>"
| "apply_option (WithActiveModel m) d = d\<lparr>dm_activeModel := m\<rparr>"
| "apply_option (WithProbe p) d = d\<lparr>dm_probe := p\<rparr>"
| "apply_option (WithTLSConfig c) d = d\<lparr>dm_tlsConfig := c\<rparr>"
| "apply_option (WithProxyURL u) d = d\<lparr>dm_proxyURL := u\<rparr>"

text \<open>\<open>NewDaemon\<close>; \<open>new_fault\<close> and \<open>opt_fault\<close> are the failures of the socket's construction.\<close>

definition NewDaemon ::
  "string option \<Rightarrow> (sock_option \<Rightarrow> string option) \<Rightarrow> string \<Rightarrow> string \<Rightarrow> string \<Rightarrow> option_fn list \<Rightarrow> mesh_err + Daemon" where
  "NewDaemon new_fault opt_fault routerAddr nodeID token opts =
     (case ns_result (NewWorker new_fault opt_fault) of
        Some e \<Rightarrow> Inl e
      | None \<Rightarrow>
          Inr (fold apply_option opts
            \<lparr>dm_routerAddr = routerAddr, dm_nodeID = nodeID, dm_enrollmentToken = token, dm_activeModel = '''',
             dm_heartbeatInterval = DefaultHeartbeatInterval, dm_probe = None, dm_activeRequests = 0, dm_tlsConfig = None, dm_proxyURL = '''',
             dm_state = ConnStateConnecting, dm_lastAck = None, dm_rejectReason = '''', dm_warnCount = 0,
             dm_sock = []\<rparr>))"

section \<open>Heartbeats\<close>

definition checkDegraded :: "time \<Rightarrow> Daemon \<Rightarrow> Daemon" where
  "checkDegraded now d =
     (case dm_lastAck d of
        None \<Rightarrow> d
      | Some t \<Rightarrow>
          if dm_state d \<noteq> ConnStateRegistered \<or> time_sub now t \<le> degradedAfter d then d
          else d\<lparr>dm_state := ConnStateDegraded\<rparr>)"

definition heartbeat_of :: "Daemon \<Rightarrow> Heartbeat" where
  "heartbeat_of d =
     (let hb = zeroHeartbeat\<lparr>hb_NodeID := dm_nodeID d, hb_EnrollmentToken := dm_enrollmentToken d,
            hb_ConnectionState := dm_state d, hb_ActiveModel := dm_activeModel d,
            hb_ActiveRequests := dm_activeRequests d\<rparr>
      in case dm_probe d of
           None \<Rightarrow> hb
         | Some p \<Rightarrow>
             (case fst (Current p) of
                None \<Rightarrow> hb
              | Some cat \<Rightarrow>
                  let hb1 = hb\<lparr>hb_Catalog := cat\<rparr>
                  in if hb_ActiveModel hb1 = '''' \<and> length cat > 0 then hb1\<lparr>hb_ActiveModel := cat ! 0\<rparr> else hb1))"

text \<open>\<open>fmt\<close> is the text of a float in JSON, \<open>fault\<close> the failure of the socket.\<close>

definition sendHeartbeat :: "(float64 \<Rightarrow> string) \<Rightarrow> string option \<Rightarrow> Daemon \<Rightarrow> Daemon" where
  "sendHeartbeat fmt fault d =
     (case marshal_Heartbeat fmt (heartbeat_of d) of
        None \<Rightarrow> d
      | Some payload \<Rightarrow>
          d\<lparr>dm_sock := snd (Worker_Send fault
              (Envelope_Encode \<lparr>env_ReqID = HeartbeatReqID, env_Payload = payload\<rparr>) (dm_sock d))\<rparr>)"

datatype log_line =
  LogDecodeAck | LogRegistered string | LogNowRejecting string
| WarnTokenRejected | WarnTokenInactive | WarnRejected string string

fun is_warning :: "log_line \<Rightarrow> bool" where
  "is_warning WarnTokenRejected = True"
| "is_warning WarnTokenInactive = True"
| "is_warning (WarnRejected _ _) = True"
| "is_warning _ = False"

definition warnEvery :: int where "warnEvery = 12"

text \<open>\<open>handleAck\<close>: the daemon afterwards and the lines it logs.\<close>

definition handleAck :: "time \<Rightarrow> bytes \<Rightarrow> Daemon \<Rightarrow> Daemon \<times> log_line list" where
  "handleAck now payload d =
     (case unmarshal_HeartbeatAck payload of
        None \<Rightarrow> (d, [LogDecodeAck])
      | Some ack \<Rightarrow>
          let was = dm_state d; d1 = d\<lparr>dm_lastAck := Some now\<rparr>
          in if ack_OK ack then
               (d1\<lparr>dm_rejectReason := '''', dm_warnCount := 0, dm_state := ConnStateRegistered\<rparr>,
                if was \<noteq> ConnStateRegistered then [LogRegistered (ack_NodeID ack)] else [])
             else
               let n = dm_warnCount d1 + 1;
                   shouldWarn = (n = 1 \<or> n mod warnEvery = 0);
                   transitioned = (was = ConnStateRegistered)
               in (d1\<lparr>dm_rejectReason := ack_Reason ack, dm_warnCount := n, dm_state := ConnStateConnecting\<rparr>,
                   (if transitioned then [LogNowRejecting (ack_Reason ack)] else []) @
                   (if \<not> shouldWarn then []
                    else if ack_Reason ack = AckReasonAuthFailed then [WarnTokenRejected]
                    else if ack_Reason ack = AckReasonInactive then [WarnTokenInactive]
                    else [WarnRejected (ack_Reason ack) (ack_Detail ack)])))"

section \<open>Jobs\<close>

text \<open>
  The frames a job sends: the engine's answer is an error, or the results of the successive
  reads of its body. The flag says that the job has returned; it has not while the last read
  so far carried no error.
\<close>

fun read_loop :: "body_read list \<Rightarrow> Frame list \<times> bool" where
  "read_loop [] = ([], False)"
| "read_loop ((data, rerr) # rs) =
     (let fs = (if length data > 0 then [\<lparr>frame_Type = FrameTypeChunk, frame_Payload = data\<rparr>] else [])
      in case rerr of
           Some EOF \<Rightarrow> (fs @ [\<lparr>frame_Type = FrameTypeEOF, frame_Payload = []\<rparr>], True)
         | Some (ReadErr m) \<Rightarrow> (fs @ [\<lparr>frame_Type = FrameTypeError, frame_Payload = bytes_of_string m\<rparr>], True)
         | None \<Rightarrow> (let (gs, fin) = read_loop rs in (fs @ gs, fin)))"

definition job_frames :: "string + body_read list \<Rightarrow> Frame list \<times> bool" where
  "job_frames answer =
     (case answer of
        Inl m \<Rightarrow> ([\<lparr>frame_Type = FrameTypeError, frame_Payload = bytes_of_string m\<rparr>], True)
      | Inr reads \<Rightarrow> read_loop reads)"

definition sendFrame :: "string option \<Rightarrow> bytes \<Rightarrow> string \<Rightarrow> Frame \<Rightarrow> sock \<Rightarrow> sock" where
  "sendFrame fault backtrace reqID f s =
     snd (SendReply fault backtrace (Envelope_Encode \<lparr>env_ReqID = reqID, env_Payload = Frame_Encode f\<rparr>) s)"

text \<open>A whole job on an otherwise idle daemon: the messages it adds to the socket. \<open>engine\<close> answers the request body.\<close>

fun send_frames :: "(nat \<Rightarrow> string option) \<Rightarrow> nat \<Rightarrow> bytes \<Rightarrow> string \<Rightarrow> Frame list \<Rightarrow> sock \<Rightarrow> sock" where
  "send_frames faults i backtrace reqID [] s = s"
| "send_frames faults i backtrace reqID (f # fs) s =
     send_frames faults (Suc i) backtrace reqID fs (sendFrame (faults i) backtrace reqID f s)"

definition handleJob :: "(nat \<Rightarrow> string option) \<Rightarrow> (bytes \<Rightarrow> upstream) \<Rightarrow> bytes \<Rightarrow> Envelope \<Rightarrow> Daemon \<Rightarrow> Daemon" where
  "handleJob faults engine backtrace env d =
     (let d1 = d\<lparr>dm_activeRequests := dm_activeRequests d + 1\<rparr>;
          (fs, fin) = job_frames (Proxy (engine (env_Payload env)));
          d2 = d1\<lparr>dm_sock := send_frames faults 0 backtrace (env_ReqID env) fs (dm_sock d1)\<rparr>
      in if fin then d2\<lparr>dm_activeRequests := dm_activeRequests d2 - 1\<rparr> else d2)"

section \<open>The daemon as a transition system\<close>

text \<open>A job goroutine under way: the frames it still has to send and whether it then returns.\<close>

record job =
  jb_backtrace :: bytes
  jb_reqID :: string
  jb_todo :: "Frame list"
  jb_returns :: bool

text \<open>
  Where the heartbeat loop is: waiting for a tick, past \<open>checkDegraded\<close>, past its reading of the
  connection state for the heartbeat, past the sending. The daemon's lock is released in between,
  so acknowledgements and jobs come in between too.
\<close>

datatype hb_loop = AwaitTick | Checked | ReadState string | BeatSent

record wk_sys =
  wk_daemon :: Daemon
  wk_jobs :: "job list"
  wk_period :: duration
  wk_loop :: hb_loop

datatype wk_event =
  AckSeen HeartbeatAck | Ticked time | StateRead | Beat Heartbeat | Paced
| JobStarted string | JobSent string Frame | JobDone string | Idle

definition Run_dispatch :: "message \<Rightarrow> (bytes \<times> Envelope) option" where
  "Run_dispatch msg =
     (case DecodeEnvelope (msg_Body msg) of
        Inl _ \<Rightarrow> None
      | Inr env \<Rightarrow> Some (msg_Header msg, env))"

inductive wk_step :: "wk_sys \<Rightarrow> wk_event \<Rightarrow> wk_sys \<Rightarrow> bool" where
  undecodable: "Run_dispatch msg = None \<Longrightarrow> wk_step S Idle S"
| ack: "Run_dispatch msg = Some (bt, env) \<Longrightarrow> env_ReqID env = HeartbeatAckReqID \<Longrightarrow>
    handleAck now (env_Payload env) (wk_daemon S) = (d', log) \<Longrightarrow>
    ev = (case unmarshal_HeartbeatAck (env_Payload env) of None \<Rightarrow> Idle | Some a \<Rightarrow> AckSeen a) \<Longrightarrow>
    wk_step S ev (S\<lparr>wk_daemon := d'\<rparr>)"
| echo: "Run_dispatch msg = Some (bt, env) \<Longrightarrow> env_ReqID env = HeartbeatReqID \<Longrightarrow> wk_step S Idle S"
| job: "Run_dispatch msg = Some (bt, env) \<Longrightarrow> env_ReqID env \<noteq> HeartbeatAckReqID \<Longrightarrow> env_ReqID env \<noteq> HeartbeatReqID \<Longrightarrow>
    job_frames (Proxy (engine (env_Payload env))) = (fs, fin) \<Longrightarrow>
    wk_step S (JobStarted (env_ReqID env))
      (S\<lparr>wk_daemon := (wk_daemon S)\<lparr>dm_activeRequests := dm_activeRequests (wk_daemon S) + 1\<rparr>,
         wk_jobs := wk_jobs S @ [\<lparr>jb_backtrace = bt, jb_reqID = env_ReqID env, jb_todo = fs, jb_returns = fin\<rparr>]\<rparr>)"
| frame: "wk_jobs S = pre @ j # post \<Longrightarrow> jb_todo j = f # fs \<Longrightarrow>
    wk_step S (JobSent (jb_reqID j) f)
      (S\<lparr>wk_daemon := (wk_daemon S)\<lparr>dm_sock := sendFrame fault (jb_backtrace j) (jb_reqID j) f (dm_sock (wk_daemon S))\<rparr>,
         wk_jobs := pre @ j\<lparr>jb_todo := fs\<rparr> # post\<rparr>)"
| return: "wk_jobs S = pre @ j # post \<Longrightarrow> jb_todo j = [] \<Longrightarrow> jb_returns j \<Longrightarrow>
    wk_step S (JobDone (jb_reqID j))
      (S\<lparr>wk_daemon := (wk_daemon S)\<lparr>dm_activeRequests := dm_activeRequests (wk_daemon S) - 1\<rparr>, wk_jobs := pre @ post\<rparr>)"
| tick: "wk_loop S = AwaitTick \<Longrightarrow>
    wk_step S (Ticked now) (S\<lparr>wk_daemon := checkDegraded now (wk_daemon S), wk_loop := Checked\<rparr>)"
| state: "wk_loop S = Checked \<Longrightarrow> wk_step S StateRead (S\<lparr>wk_loop := ReadState (dm_state (wk_daemon S))\<rparr>)"
| beat: "wk_loop S = ReadState st \<Longrightarrow> d = (wk_daemon S)\<lparr>dm_state := st\<rparr> \<Longrightarrow>
    wk_step S (Beat (heartbeat_of d))
      (S\<lparr>wk_daemon := (wk_daemon S)\<lparr>dm_sock := dm_sock (sendHeartbeat fmt fault d)\<rparr>, wk_loop := BeatSent\<rparr>)"
| pace: "wk_loop S = BeatSent \<Longrightarrow>
    wk_step S Paced
      (S\<lparr>wk_period := (if dm_state (wk_daemon S) = ConnStateRegistered then dm_heartbeatInterval (wk_daemon S) else wk_period S),
         wk_loop := AwaitTick\<rparr>)"
| probe: "wk_step S Idle (S\<lparr>wk_daemon := (wk_daemon S)\<lparr>dm_probe := p\<rparr>\<rparr>)"

inductive wk_run :: "wk_sys \<Rightarrow> wk_event list \<Rightarrow> wk_sys \<Rightarrow> bool" where
  nil: "wk_run S [] S"
| snoc: "wk_run S evs S' \<Longrightarrow> wk_step S' ev S'' \<Longrightarrow> wk_run S (evs @ [ev]) S''"

text \<open>The heartbeat loop announces the worker before its first tick.\<close>

definition wk_start :: "(float64 \<Rightarrow> string) \<Rightarrow> string option \<Rightarrow> Daemon \<Rightarrow> wk_sys" where
  "wk_start fmt fault d =
     \<lparr>wk_daemon = sendHeartbeat fmt fault d, wk_jobs = [], wk_period = registrationTick, wk_loop = AwaitTick\<rparr>"

text \<open>\<open>Run\<close>: the dial, then the loops, which the transition system interleaves.\<close>

definition Run :: "conn_faults \<Rightarrow> (float64 \<Rightarrow> string) \<Rightarrow> string option \<Rightarrow> Daemon \<Rightarrow> mesh_err + endpoint \<times> wk_sys" where
  "Run cf fmt fault d =
     (case Dial cf (dm_routerAddr d) (dm_tlsConfig d) (dm_proxyURL d) of
        Inl e \<Rightarrow> Inl e
      | Inr ep \<Rightarrow> Inr (ep, wk_start fmt fault d))"

section \<open>What a job sends\<close>

abbreviation chunk_frame :: "bytes \<Rightarrow> Frame" where
  "chunk_frame c \<equiv> \<lparr>frame_Type = FrameTypeChunk, frame_Payload = c\<rparr>"

fun end_frame :: "read_err \<Rightarrow> Frame" where
  "end_frame EOF = \<lparr>frame_Type = FrameTypeEOF, frame_Payload = []\<rparr>"
| "end_frame (ReadErr m) = \<lparr>frame_Type = FrameTypeError, frame_Payload = bytes_of_string m\<rparr>"

definition chunk_list :: "body_read list \<Rightarrow> bytes list" where
  "chunk_list reads = filter (\<lambda>c. c \<noteq> []) (map fst reads)"

lemma concat_chunk_list: "concat (chunk_list reads) = concat (map fst reads)"
  by (induction reads) (auto simp: chunk_list_def)

lemma read_loop_running:
  "\<forall>(dat, e) \<in> set reads. e = None \<Longrightarrow> read_loop reads = (map chunk_frame (chunk_list reads), False)"
  by (induction reads rule: read_loop.induct) (auto simp: chunk_list_def Let_def)

lemma read_loop_ended:
  "\<forall>(dat, e) \<in> set pre. e = None \<Longrightarrow>
   read_loop (pre @ (dat, Some err) # post) =
     (map chunk_frame (chunk_list (pre @ [(dat, Some err)])) @ [end_frame err], True)"
proof (induction pre)
  case Nil
  then show ?case by (cases err) (simp_all add: chunk_list_def)
next
  case (Cons x pre)
  obtain dat' e' where x: "x = (dat', e')" by (cases x)
  with Cons show ?case by (auto simp: chunk_list_def)
qed

lemma reads_split:
  obtains "\<forall>(dat, e) \<in> set reads. e = None"
  | pre dat err post where "reads = pre @ (dat, Some err) # post" "\<forall>(dat, e) \<in> set pre. e = None"
proof (cases "\<exists>x \<in> set reads. snd x \<noteq> None")
  case True
  then obtain pre x post where "reads = pre @ x # post" "snd x \<noteq> None" "\<forall>y \<in> set pre. \<not> snd y \<noteq> None"
    using split_list_first_prop [of reads "\<lambda>x. snd x \<noteq> None"] by blast
  then show ?thesis
    using that(2) [of pre "fst x" "the (snd x)" post] by (cases x) fastforce
next
  case False
  then show ?thesis
    using that(1) by fastforce
qed

lemma chunk_list_bound:
  "\<forall>(dat, e) \<in> set reads. length dat \<le> n \<Longrightarrow> c \<in> set (chunk_list reads) \<Longrightarrow> c \<noteq> [] \<and> length c \<le> n"
  by (auto simp: chunk_list_def)

section \<open>The invariant of the daemon\<close>

fun last_ack :: "wk_event list \<Rightarrow> HeartbeatAck option" where
  "last_ack [] = None"
| "last_ack (AckSeen a # evs) = (case last_ack evs of None \<Rightarrow> Some a | Some b \<Rightarrow> Some b)"
| "last_ack (_ # evs) = last_ack evs"

lemma last_ack_snoc:
  "last_ack (evs @ [ev]) = (case ev of AckSeen a \<Rightarrow> Some a | _ \<Rightarrow> last_ack evs)"
  by (induction evs rule: last_ack.induct) (auto split: wk_event.splits option.splits)

text \<open>The rejections since the last acceptance.\<close>

definition rejects_step :: "wk_event \<Rightarrow> int \<Rightarrow> int" where
  "rejects_step ev n = (case ev of AckSeen a \<Rightarrow> if ack_OK a then 0 else n + 1 | _ \<Rightarrow> n)"

definition rejects :: "wk_event list \<Rightarrow> int" where
  "rejects evs = fold rejects_step evs 0"

lemma rejects_snoc: "rejects (evs @ [ev]) = rejects_step ev (rejects evs)"
  by (simp add: rejects_def)

definition conn_inv :: "wk_event list \<Rightarrow> Daemon \<Rightarrow> bool" where
  "conn_inv evs d \<longleftrightarrow>
     (case last_ack evs of
        None \<Rightarrow> dm_state d = ConnStateConnecting \<and> dm_lastAck d = None \<and> dm_rejectReason d = ''''
      | Some a \<Rightarrow>
          dm_lastAck d \<noteq> None \<and>
          (if ack_OK a then dm_state d \<in> {ConnStateRegistered, ConnStateDegraded} \<and> dm_rejectReason d = ''''
           else dm_state d = ConnStateConnecting \<and> dm_rejectReason d = ack_Reason a)) \<and>
     dm_warnCount d = rejects evs"

definition wk_inv :: "wk_event list \<Rightarrow> wk_sys \<Rightarrow> bool" where
  "wk_inv evs S \<longleftrightarrow> conn_inv evs (wk_daemon S) \<and> dm_activeRequests (wk_daemon S) = int (length (wk_jobs S))"

lemma sendHeartbeat_simps [simp]:
  "dm_state (sendHeartbeat m f d) = dm_state d" "dm_lastAck (sendHeartbeat m f d) = dm_lastAck d"
  "dm_rejectReason (sendHeartbeat m f d) = dm_rejectReason d" "dm_warnCount (sendHeartbeat m f d) = dm_warnCount d"
  "dm_activeRequests (sendHeartbeat m f d) = dm_activeRequests d"
  "dm_heartbeatInterval (sendHeartbeat m f d) = dm_heartbeatInterval d"
  by (simp_all add: sendHeartbeat_def split: option.splits)

lemma checkDegraded_simps [simp]:
  "dm_lastAck (checkDegraded now d) = dm_lastAck d" "dm_rejectReason (checkDegraded now d) = dm_rejectReason d"
  "dm_warnCount (checkDegraded now d) = dm_warnCount d" "dm_activeRequests (checkDegraded now d) = dm_activeRequests d"
  "dm_heartbeatInterval (checkDegraded now d) = dm_heartbeatInterval d"
  by (simp_all add: checkDegraded_def split: option.splits)

lemma checkDegraded_state:
  "dm_state (checkDegraded now d) =
    (if dm_state d = ConnStateRegistered \<and> (\<exists>t. dm_lastAck d = Some t \<and> time_sub now t > 3 * dm_heartbeatInterval d)
     then ConnStateDegraded else dm_state d)"
  by (auto simp: checkDegraded_def degradedAfter_def split: option.splits)

lemma conn_inv_cong:
  assumes "dm_state d' = dm_state d" "dm_lastAck d' = dm_lastAck d" "dm_rejectReason d' = dm_rejectReason d"
    "dm_warnCount d' = dm_warnCount d"
  shows "conn_inv evs d' = conn_inv evs d"
  unfolding conn_inv_def assms ..

lemma conn_inv_quiet:
  "conn_inv evs d \<Longrightarrow> (\<And>a. ev \<noteq> AckSeen a) \<Longrightarrow> conn_inv (evs @ [ev]) d"
  unfolding conn_inv_def last_ack_snoc rejects_snoc rejects_step_def by (cases ev) (blast | simp)+

lemma handleAck_conn_inv:
  assumes "handleAck now payload d = (d', log)" "conn_inv evs d"
  shows "conn_inv (evs @ [case unmarshal_HeartbeatAck payload of None \<Rightarrow> Idle | Some a \<Rightarrow> AckSeen a]) d'"
    "dm_activeRequests d' = dm_activeRequests d"
proof -
  show "conn_inv (evs @ [case unmarshal_HeartbeatAck payload of None \<Rightarrow> Idle | Some a \<Rightarrow> AckSeen a]) d'"
  proof (cases "unmarshal_HeartbeatAck payload")
    case None
    then show ?thesis
      using assms by (auto simp: handleAck_def intro: conn_inv_quiet)
  next
    case (Some a)
    have "dm_warnCount d = rejects evs"
      using assms(2) by (simp add: conn_inv_def)
    then show ?thesis
      using assms(1)
      by (cases "ack_OK a")
        (auto simp: handleAck_def Some Let_def conn_inv_def last_ack_snoc rejects_snoc rejects_step_def)
  qed
  show "dm_activeRequests d' = dm_activeRequests d"
    using assms(1) by (auto simp: handleAck_def Let_def split: option.splits if_splits)
qed

lemma wk_inv_step:
  assumes "wk_step S ev S'" "wk_inv evs S"
  shows "wk_inv (evs @ [ev]) S'"
  using assms
proof (induction rule: wk_step.induct)
  case (ack msg bt env now S d' log ev)
  then show ?case
    using handleAck_conn_inv [OF ack.hyps(3), of evs] by (simp add: wk_inv_def)
next
  case (tick S now)
  have "conn_inv evs (checkDegraded now (wk_daemon S))"
    using tick.prems checkDegraded_state [of now "wk_daemon S"]
    by (auto simp: wk_inv_def conn_inv_def split: option.splits if_splits)
  then show ?case
    using tick by (auto simp: wk_inv_def intro: conn_inv_quiet)
next
  case (beat S st d fmt fault)
  then show ?case
    by (simp add: wk_inv_def conn_inv_quiet conn_inv_cong [of "(wk_daemon S)\<lparr>dm_sock := _\<rparr>" "wk_daemon S"])
next
  case (frame S pre j post f fs fault)
  then show ?case
    by (simp add: wk_inv_def conn_inv_quiet conn_inv_cong [of "(wk_daemon S)\<lparr>dm_sock := _\<rparr>" "wk_daemon S"])
next
  case (probe S p)
  then show ?case
    by (simp add: wk_inv_def conn_inv_quiet conn_inv_cong [of "(wk_daemon S)\<lparr>dm_probe := p\<rparr>" "wk_daemon S"])
qed (simp_all add: wk_inv_def conn_inv_quiet
    conn_inv_cong [of "(wk_daemon S)\<lparr>dm_activeRequests := _\<rparr>" "wk_daemon S" for S])

lemma wk_inv_run: "wk_run S0 evs S \<Longrightarrow> wk_inv [] S0 \<Longrightarrow> wk_inv evs S"
  by (induction rule: wk_run.induct) (simp_all add: wk_inv_step)

definition fresh_daemon :: "Daemon \<Rightarrow> bool" where
  "fresh_daemon d \<longleftrightarrow> dm_state d = ConnStateConnecting \<and> dm_lastAck d = None \<and> dm_rejectReason d = '''' \<and>
     dm_warnCount d = 0 \<and> dm_activeRequests d = 0 \<and> dm_sock d = []"

lemma fresh_apply_option: "fresh_daemon d \<Longrightarrow> fresh_daemon (apply_option opt d)"
  by (cases opt) (simp_all add: fresh_daemon_def)

lemma NewDaemon_fresh:
  assumes "NewDaemon nf f addr node tok opts = Inr d"
  shows "fresh_daemon d"
proof -
  have "fresh_daemon (fold apply_option opts d0)" if "fresh_daemon d0" for d0
    using that by (induction opts arbitrary: d0) (simp_all add: fresh_apply_option)
  then show ?thesis
    using assms by (auto simp: NewDaemon_def fresh_daemon_def split: option.splits)
qed

lemma wk_inv_start: "fresh_daemon d \<Longrightarrow> wk_inv [] (wk_start fmt fault d)"
  by (simp add: wk_inv_def conn_inv_def wk_start_def fresh_daemon_def rejects_def)

section \<open>Properties\<close>

text \<open>
  C16: a job relays the engine's response faithfully. Its chunks, none empty and none longer
  than the 4096-byte buffer, concatenate to the bytes read, in order; while the reads carry no
  error the job is still running and has sent nothing but chunks; at the first error it ends,
  with exactly one terminal frame as the last one, an end of stream for \<open>io.EOF\<close> and an error
  frame with the error's text otherwise; data that came with the error is still sent before it.
\<close>
theorem job_relays_response:
  assumes "\<forall>(dat, e) \<in> set reads. length dat \<le> 4096" "job_frames (Inr reads) = (fs, fin)"
  shows "\<exists>cs. (\<forall>c \<in> set cs. c \<noteq> [] \<and> length c \<le> 4096) \<and>
    ((\<forall>(dat, e) \<in> set reads. e = None) \<and> \<not> fin \<and> fs = map chunk_frame cs \<and> concat cs = concat (map fst reads) \<or>
     (\<exists>pre dat err post. reads = pre @ (dat, Some err) # post \<and> (\<forall>(dat, e) \<in> set pre. e = None) \<and> fin \<and>
        fs = map chunk_frame cs @ [end_frame err] \<and> concat cs = concat (map fst pre) @ dat))"
proof (rule reads_split [of reads])
  assume running: "\<forall>(dat, e) \<in> set reads. e = None"
  show ?thesis
    using assms running chunk_list_bound [OF assms(1)]
    by (intro exI [of _ "chunk_list reads"]) (simp add: job_frames_def read_loop_running concat_chunk_list)
next
  fix pre dat err post
  assume reads: "reads = pre @ (dat, Some err) # post" and pre: "\<forall>(dat, e) \<in> set pre. e = None"
  have "\<forall>(dat, e) \<in> set (pre @ [(dat, Some err)]). length dat \<le> 4096"
    using assms(1) by (auto simp: reads)
  note bound = chunk_list_bound [OF this]
  have fs: "fs = map chunk_frame (chunk_list (pre @ [(dat, Some err)])) @ [end_frame err]" "fin"
    using assms(2) read_loop_ended [OF pre, of dat err post] by (simp_all add: job_frames_def reads)
  have cat: "concat (chunk_list (pre @ [(dat, Some err)])) = concat (map fst pre) @ dat"
    by (simp add: concat_chunk_list)
  show ?thesis
    using bound fs cat reads pre
    by (intro exI [of _ "chunk_list (pre @ [(dat, Some err)])"]) blast
qed

theorem job_relays_response_witness:
  "\<exists>cs. concat cs = [1, 2, 3] \<and>
     job_frames (Inr [([1], None), ([], None), ([2, 3], Some EOF)]) = (map chunk_frame cs @ [end_frame EOF], True)"
proof -
  let ?r = "[([1], None), ([], None), ([2, 3], Some EOF)] :: body_read list"
  have b: "\<forall>(dat, e) \<in> set ?r. length dat \<le> 4096"
    by simp
  obtain fs fin where f: "job_frames (Inr ?r) = (fs, fin)"
    by fastforce
  from job_relays_response [OF b f] show ?thesis
  proof (elim exE conjE disjE)
    fix cs pre dat err post
    assume r: "?r = pre @ (dat, Some err) # post" and pre: "\<forall>(dat, e) \<in> set pre. e = None"
      and fin: "fin" and fs: "fs = map chunk_frame cs @ [end_frame err]" and cat: "concat cs = concat (map fst pre) @ dat"
    have "pre = [([1], None), ([], None)] \<and> dat = [2, 3] \<and> err = EOF"
      using r pre by (auto simp: Cons_eq_append_conv)
    with f fin fs cat show ?thesis
      by (intro exI [of _ cs]) simp
  qed auto
qed

text \<open>
  C15: the worker's connection state is driven by the router's answers alone. In every
  interleaving: before any acknowledgement the worker is connecting; after an acceptance it is
  registered or, when demoted by silence, degraded; after a rejection it is connecting again and
  remembers that rejection's reason; and the number of requests it counts as active is exactly
  the number of jobs under way.
\<close>
theorem worker_state_truthful:
  assumes "NewDaemon nf f addr node tok opts = Inr d" "wk_run (wk_start fmt fault d) evs S"
  shows "(case last_ack evs of
      None \<Rightarrow> dm_state (wk_daemon S) = ConnStateConnecting
    | Some a \<Rightarrow>
        if ack_OK a then dm_state (wk_daemon S) \<in> {ConnStateRegistered, ConnStateDegraded} \<and> dm_rejectReason (wk_daemon S) = ''''
        else dm_state (wk_daemon S) = ConnStateConnecting \<and> dm_rejectReason (wk_daemon S) = ack_Reason a) \<and>
    dm_activeRequests (wk_daemon S) = int (length (wk_jobs S))"
proof -
  have "wk_inv evs S"
    using wk_inv_run [OF assms(2) wk_inv_start [OF NewDaemon_fresh [OF assms(1)]]] .
  then show ?thesis
    by (auto simp: wk_inv_def conn_inv_def split: option.splits if_splits)
qed

definition sample_daemon :: Daemon where
  "sample_daemon =
     \<lparr>dm_routerAddr = ''ws://r'', dm_nodeID = ''a'', dm_enrollmentToken = ''tok'', dm_activeModel = '''',
      dm_heartbeatInterval = DefaultHeartbeatInterval, dm_probe = None, dm_activeRequests = 0, dm_tlsConfig = None, dm_proxyURL = '''',
      dm_state = ConnStateConnecting, dm_lastAck = None, dm_rejectReason = '''', dm_warnCount = 0, dm_sock = []\<rparr>"

lemma sample_daemon_new: "NewDaemon None (\<lambda>_. None) ''ws://r'' ''a'' ''tok'' [] = Inr sample_daemon"
  by (simp add: NewDaemon_def NewWorker_def sample_daemon_def)

lemma sendHeartbeat_sock_only: "\<exists>sk. sendHeartbeat fmt fault d = d\<lparr>dm_sock := sk\<rparr>"
  by (cases "marshal_Heartbeat fmt (heartbeat_of d)") (auto simp: sendHeartbeat_def intro: exI [of _ "dm_sock d"])

lemma heartbeat_of_sock [simp]: "heartbeat_of (d\<lparr>dm_sock := sk\<rparr>) = heartbeat_of d"
  by (simp add: heartbeat_of_def)

text \<open>A worker that was accepted at time zero, and has heard nothing by its tick a little over three intervals later.\<close>

definition sample_ack :: HeartbeatAck where
  "sample_ack = \<lparr>ack_OK = True, ack_Reason = '''', ack_Detail = '''', ack_NodeID = ''a''\<rparr>"

definition sample_ack_msg :: message where
  "sample_ack_msg = \<lparr>msg_Header = backtraceToken,
     msg_Body = Envelope_Encode \<lparr>env_ReqID = HeartbeatAckReqID, env_Payload = marshal_HeartbeatAck sample_ack\<rparr>\<rparr>"

lemma sample_daemon_interval: "dm_heartbeatInterval sample_daemon = 5 * Second"
  by (simp add: sample_daemon_def DefaultHeartbeatInterval_def)

lemma sample_acked:
  "\<exists>S. wk_run (wk_start fmt None sample_daemon) [AckSeen sample_ack] S \<and> wk_loop S = AwaitTick \<and> wk_jobs S = [] \<and>
     dm_state (wk_daemon S) = ConnStateRegistered \<and> dm_lastAck (wk_daemon S) = Some 0 \<and>
     dm_heartbeatInterval (wk_daemon S) = 5 * Second"
proof -
  let ?S = "wk_start fmt None sample_daemon" and ?p = "marshal_HeartbeatAck sample_ack"
  have ack: "unmarshal_HeartbeatAck ?p = Some sample_ack"
    by (simp add: HeartbeatAck_roundtrip clean_HeartbeatAck_def sample_ack_def to_valid_def byte_val_def)
  have msg: "Run_dispatch sample_ack_msg = Some (backtraceToken, \<lparr>env_ReqID = HeartbeatAckReqID, env_Payload = ?p\<rparr>)"
    by (simp add: Run_dispatch_def sample_ack_msg_def envelope_codec.dec_enc envelope_valid_def MaxReqIDLen_def HeartbeatAckReqID_def)
  obtain d' log where d': "handleAck 0 ?p (wk_daemon ?S) = (d', log)"
    by fastforce
  then have "wk_step ?S (AckSeen sample_ack) (?S\<lparr>wk_daemon := d'\<rparr>)"
    using wk_step.ack [OF msg, of 0 ?S d' log "AckSeen sample_ack"] by (simp add: ack)
  moreover obtain sk where sk: "sendHeartbeat fmt None sample_daemon = sample_daemon\<lparr>dm_sock := sk\<rparr>"
    using sendHeartbeat_sock_only by blast
  have ok: "ack_OK sample_ack"
    by (simp add: sample_ack_def)
  moreover have "dm_state d' = ConnStateRegistered" "dm_lastAck d' = Some 0" "dm_heartbeatInterval d' = 5 * Second"
    using d' [unfolded handleAck_def ack] sk
    by (auto simp: ok Let_def wk_start_def sample_daemon_interval)
  ultimately show ?thesis
    using wk_run.snoc [OF wk_run.nil] by (fastforce simp: wk_start_def)
qed

theorem worker_state_truthful_witness:
  "\<exists>S. wk_run (wk_start (\<lambda>_. '''') None sample_daemon) [AckSeen sample_ack] S \<and>
     dm_state (wk_daemon S) \<in> {ConnStateRegistered, ConnStateDegraded} \<and> dm_activeRequests (wk_daemon S) = 0"
proof -
  obtain S where run: "wk_run (wk_start (\<lambda>_. '''') None sample_daemon) [AckSeen sample_ack] S" "wk_jobs S = []"
    using sample_acked by blast
  then show ?thesis
    using worker_state_truthful [OF sample_daemon_new run(1)] by (auto simp: sample_ack_def)
qed

text \<open>Between two steps of the heartbeat loop only acknowledgements change the connection state.\<close>

definition state_after :: "string \<Rightarrow> wk_event list \<Rightarrow> string" where
  "state_after st evs =
     (case last_ack evs of None \<Rightarrow> st | Some a \<Rightarrow> if ack_OK a then ConnStateRegistered else ConnStateConnecting)"

lemma state_after_snoc:
  "state_after st (evs @ [ev]) =
    (case ev of AckSeen a \<Rightarrow> if ack_OK a then ConnStateRegistered else ConnStateConnecting | _ \<Rightarrow> state_after st evs)"
  by (simp add: state_after_def last_ack_snoc split: wk_event.split)

lemma handleAck_state_seen:
  "handleAck now payload d = (d', log) \<Longrightarrow>
   dm_state d' = (case unmarshal_HeartbeatAck payload of
     None \<Rightarrow> dm_state d | Some a \<Rightarrow> if ack_OK a then ConnStateRegistered else ConnStateConnecting)"
  by (auto simp: handleAck_def Let_def split: option.splits if_splits)

lemma loop_checked:
  "wk_run S0 evs S \<Longrightarrow> wk_loop S0 = Checked \<Longrightarrow> StateRead \<notin> set evs \<Longrightarrow>
   wk_loop S = Checked \<and> dm_state (wk_daemon S) = state_after (dm_state (wk_daemon S0)) evs"
proof (induction rule: wk_run.induct)
  case (snoc S0 evs S ev S')
  then have "wk_loop S = Checked" "dm_state (wk_daemon S) = state_after (dm_state (wk_daemon S0)) evs" "ev \<noteq> StateRead"
    by auto
  with snoc.hyps(2) show ?case
    by cases (auto simp: state_after_snoc handleAck_state_seen split: option.split)
qed (simp add: state_after_def)

lemma loop_read:
  "wk_run S0 evs S \<Longrightarrow> wk_loop S0 = ReadState st \<Longrightarrow> \<forall>hb. Beat hb \<notin> set evs \<Longrightarrow> wk_loop S = ReadState st"
proof (induction rule: wk_run.induct)
  case (snoc S0 evs S ev S')
  then have "wk_loop S = ReadState st" "\<forall>hb. ev \<noteq> Beat hb"
    by auto
  with snoc.hyps(2) show ?case by cases auto
qed simp

lemma wk_run_append: "wk_run S1 evs' S2 \<Longrightarrow> wk_run S0 evs S1 \<Longrightarrow> wk_run S0 (evs @ evs') S2"
proof (induction rule: wk_run.induct)
  case (snoc S1 evs' S2 ev S3)
  then show ?case
    using wk_run.snoc [of S0 "evs @ evs'" S2 ev S3] by simp
qed simp

inductive_cases wk_step_TickedE: "wk_step S (Ticked now) S'"
inductive_cases wk_step_StateReadE: "wk_step S StateRead S'"
inductive_cases wk_step_BeatE: "wk_step S (Beat hb) S'"
inductive_cases wk_step_PacedE: "wk_step S Paced S'"

lemma heartbeat_of_reports: "hb_ActiveRequests (heartbeat_of d) = dm_activeRequests d" "hb_ConnectionState (heartbeat_of d) = dm_state d"
  by (auto simp: heartbeat_of_def Let_def split: option.splits)

text \<open>
  C17: heartbeats tell the truth. Whatever is interleaved with the heartbeat loop, the heartbeat
  that follows a tick at time \<open>now\<close> reports as many active requests as there are jobs under way
  when it is sent, and as connection state what the last acknowledgement since the tick says if
  there was one before the state was read, and otherwise the state before the tick, made degraded
  exactly when that was registered and the last acknowledgement is, at \<open>now\<close>, more than three
  heartbeat intervals ago.
\<close>
theorem heartbeat_truthful:
  assumes "NewDaemon nf f addr node tok opts = Inr d" "wk_run (wk_start fmt fault d) evs S"
    and tick: "wk_step S (Ticked now) S1" and run1: "wk_run S1 evs1 S2" "StateRead \<notin> set evs1"
    and read: "wk_step S2 StateRead S3" and run2: "wk_run S3 evs2 S4" "\<forall>hb. Beat hb \<notin> set evs2"
    and beat: "wk_step S4 (Beat hb) S5"
  shows "hb_ActiveRequests hb = int (length (wk_jobs S4)) \<and>
    hb_ConnectionState hb =
      (case last_ack evs1 of
         Some a \<Rightarrow> if ack_OK a then ConnStateRegistered else ConnStateConnecting
       | None \<Rightarrow>
           if dm_state (wk_daemon S) = ConnStateRegistered \<and>
              (\<exists>t. dm_lastAck (wk_daemon S) = Some t \<and> time_sub now t > 3 * dm_heartbeatInterval (wk_daemon S))
           then ConnStateDegraded else dm_state (wk_daemon S))"
proof -
  have S1: "wk_daemon S1 = checkDegraded now (wk_daemon S)" "wk_loop S1 = Checked"
    using tick by (auto elim!: wk_step_TickedE split: option.splits)
  have S2: "dm_state (wk_daemon S2) = state_after (dm_state (wk_daemon S1)) evs1"
    using loop_checked [OF run1(1) S1(2) run1(2)] by simp
  have "wk_loop S3 = ReadState (dm_state (wk_daemon S2))"
    using read by (auto elim!: wk_step_StateReadE split: option.splits)
  then have hb: "hb = heartbeat_of ((wk_daemon S4)\<lparr>dm_state := dm_state (wk_daemon S2)\<rparr>)"
    using loop_read [OF run2(1) _ run2(2)] beat by (auto elim!: wk_step_BeatE split: option.splits)
  have "wk_run (wk_start fmt fault d) ((((evs @ [Ticked now]) @ evs1) @ [StateRead]) @ evs2) S4"
    by (intro wk_run_append [OF run2(1)] wk_run.snoc [OF _ read] wk_run_append [OF run1(1)] wk_run.snoc [OF assms(2) tick])
  then have "dm_activeRequests (wk_daemon S4) = int (length (wk_jobs S4))"
    using wk_inv_run wk_inv_start [OF NewDaemon_fresh [OF assms(1)]] unfolding wk_inv_def by blast
  then show ?thesis
    using checkDegraded_state [of now "wk_daemon S"]
    by (simp add: hb heartbeat_of_reports S1(1) S2 state_after_def split: option.split)
qed

theorem heartbeat_truthful_witness:
  "\<exists>S hb S'. wk_run (wk_start (\<lambda>_. '''') None sample_daemon) [AckSeen sample_ack, Ticked (15 * Second + 1), StateRead] S \<and>
     wk_step S (Beat hb) S' \<and> hb_ConnectionState hb = ConnStateDegraded \<and> hb_ActiveRequests hb = 0"
proof -
  obtain S where run: "wk_run (wk_start (\<lambda>_. '''') None sample_daemon) [AckSeen sample_ack] S" and loop: "wk_loop S = AwaitTick"
    and S: "wk_jobs S = []" "dm_state (wk_daemon S) = ConnStateRegistered" "dm_lastAck (wk_daemon S) = Some 0"
      "dm_heartbeatInterval (wk_daemon S) = 5 * Second"
    using sample_acked by blast
  define S1 where "S1 = S\<lparr>wk_daemon := checkDegraded (15 * Second + 1) (wk_daemon S), wk_loop := Checked\<rparr>"
  define S2 where "S2 = S1\<lparr>wk_loop := ReadState (dm_state (wk_daemon S1))\<rparr>"
  have tick: "wk_step S (Ticked (15 * Second + 1)) S1"
    unfolding S1_def using loop by (rule wk_step.tick)
  have read: "wk_step S1 StateRead S2"
    unfolding S2_def by (rule wk_step.state) (simp add: S1_def)
  obtain hb S3 where beat: "wk_step S2 (Beat hb) S3"
    using wk_step.beat [of S2] by (fastforce simp: S2_def)
  have "hb_ConnectionState hb = ConnStateDegraded \<and> hb_ActiveRequests hb = 0"
    using heartbeat_truthful [OF sample_daemon_new run tick wk_run.nil _ read wk_run.nil _ beat] S
    by (simp add: S1_def S2_def time_sub_def)
  moreover have "wk_run (wk_start (\<lambda>_. '''') None sample_daemon) (([AckSeen sample_ack] @ [Ticked (15 * Second + 1)]) @ [StateRead]) S2"
    by (rule wk_run.snoc [OF wk_run.snoc [OF run tick] read])
  ultimately show ?thesis
    using beat by auto
qed

text \<open>The ticker settles at the configured interval when the state is registered after a heartbeat.\<close>

lemma pace_period:
  "wk_step S Paced S' \<Longrightarrow>
   wk_period S' = (if dm_state (wk_daemon S) = ConnStateRegistered then dm_heartbeatInterval (wk_daemon S) else wk_period S)"
  by (auto elim!: wk_step_PacedE split: option.splits)

text \<open>Acknowledgements handled one after the other, with everything that is logged.\<close>

fun handle_acks :: "(time \<times> bytes) list \<Rightarrow> Daemon \<Rightarrow> Daemon \<times> log_line list" where
  "handle_acks [] d = (d, [])"
| "handle_acks ((now, payload) # acks) d =
     (let (d1, l1) = handleAck now payload d; (d2, l2) = handle_acks acks d1 in (d2, l1 @ l2))"

definition rejection :: "bytes \<Rightarrow> bool" where
  "rejection payload \<longleftrightarrow> (\<exists>a. unmarshal_HeartbeatAck payload = Some a \<and> \<not> ack_OK a)"

definition warnings :: "log_line list \<Rightarrow> int" where
  "warnings ls = int (length (filter is_warning ls))"

text \<open>The number of warnings due after \<open>n\<close> rejections in a row.\<close>

definition warnings_due :: "int \<Rightarrow> int" where
  "warnings_due n = (if n \<ge> 1 then 1 else 0) + n div 12"

lemma warnings_due_step:
  assumes "0 \<le> n"
  shows "warnings_due (n + 1) = warnings_due n + (if n + 1 = 1 \<or> (n + 1) mod 12 = 0 then 1 else 0)"
proof -
  have "(n + 1) div 12 = n div 12 + (if (n + 1) mod 12 = 0 then 1 else 0)"
  proof -
    obtain q r where n: "n = 12 * q + r" and r: "0 \<le> r" "r < 12"
      using mult_div_mod_eq [of 12 n] pos_mod_bound [of 12 n] pos_mod_sign [of 12 n] by (metis zero_less_numeral)
    have div: "(12 * q + s) div 12 = q" "(12 * q + s) mod 12 = s" if "0 \<le> s" "s < 12" for s
      using that by simp_all
    show ?thesis
    proof (cases "r = 11")
      case True
      then have "n + 1 = 12 * (q + 1)"
        by (simp add: n)
      then show ?thesis
        using div(1) [OF r] by (simp add: n)
    next
      case False
      then show ?thesis
        using div [of r] div [of "r + 1"] r by (simp add: n add.assoc)
    qed
  qed
  then show ?thesis
    using assms by (auto simp: warnings_due_def)
qed

lemma handleAck_rejection:
  assumes "rejection payload" "handleAck now payload d = (d', l)"
  shows "dm_warnCount d' = dm_warnCount d + 1"
    "warnings l = (if dm_warnCount d + 1 = 1 \<or> (dm_warnCount d + 1) mod 12 = 0 then 1 else 0)"
proof -
  obtain a where a: "unmarshal_HeartbeatAck payload = Some a" "\<not> ack_OK a"
    using assms(1) by (auto simp: rejection_def)
  note eq = assms(2) [unfolded handleAck_def a option.case Let_def]
  show "dm_warnCount d' = dm_warnCount d + 1"
    using eq a(2) by auto
  show "warnings l = (if dm_warnCount d + 1 = 1 \<or> (dm_warnCount d + 1) mod 12 = 0 then 1 else 0)"
    using eq a(2) by (auto simp: warnings_def warnEvery_def split: if_splits)
qed

lemma handle_acks_rejections:
  "\<forall>(now, p) \<in> set acks. rejection p \<Longrightarrow> 0 \<le> dm_warnCount d \<Longrightarrow>
   warnings (snd (handle_acks acks d)) = warnings_due (dm_warnCount d + int (length acks)) - warnings_due (dm_warnCount d)"
proof (induction acks d rule: handle_acks.induct)
  case (2 now payload acks d)
  obtain d1 l1 where h: "handleAck now payload d = (d1, l1)"
    by fastforce
  have rej: "rejection payload"
    using "2.prems"(1) by simp
  note r = handleAck_rejection [OF rej h]
  have "warnings (snd (handle_acks acks d1)) =
      warnings_due (dm_warnCount d1 + int (length acks)) - warnings_due (dm_warnCount d1)"
    using "2.IH" [OF h [symmetric] refl] "2.prems" r(1) by simp
  moreover have "warnings (snd (handle_acks ((now, payload) # acks) d)) = warnings l1 + warnings (snd (handle_acks acks d1))"
    by (simp add: h warnings_def case_prod_beta)
  ultimately show ?case
    using warnings_due_step [OF "2.prems"(2)] r by (simp add: add.assoc)
qed (simp add: warnings_def)

text \<open>
  Repeated rejections do not flood the log: of the first \<open>k\<close> rejections in a row exactly
  the first and every twelfth produce a warning.
\<close>
lemma rejection_warnings_throttled:
  assumes "\<forall>(now, p) \<in> set acks. rejection p" "dm_warnCount d = 0"
  shows "warnings (snd (handle_acks acks d)) = (if acks = [] then 0 else 1 + int (length acks) div 12)"
  using handle_acks_rejections [OF assms(1), of d] assms(2) by (cases acks) (simp_all add: warnings_due_def)

lemma rejection_warnings_throttled_instance:
  "warnings (snd (handle_acks (replicate 24 (5, marshal_HeartbeatAck zeroHeartbeatAck)) sample_daemon)) = 3"
proof -
  have "\<forall>(now, p) \<in> set (replicate 24 (5 :: time, marshal_HeartbeatAck zeroHeartbeatAck)). rejection p"
    by (simp add: rejection_def HeartbeatAck_roundtrip clean_HeartbeatAck_def zeroHeartbeatAck_def)
  from rejection_warnings_throttled [OF this, of sample_daemon] show ?thesis
    by (simp add: sample_daemon_def)
qed

end
