(* ===== verification/Session.thy ===== *)
theory Session
  imports Auth
begin

text \<open>
  The dashboard's session machinery: the login limiter (\<open>src/internal/admin/limiter.go\<close>), the
  single-use store that reveals a fresh key once (\<open>nonce.go\<close>), the persisted cookie secret
  (\<open>secret.go\<close>) and the signed session cookie (\<open>issueSessionCookie\<close> and
  \<open>verifySessionCookie\<close> of \<open>server.go\<close>). The mutexes make the operations atomic; the clock,
  the random bytes, and HMAC-SHA256 under the secret are arguments.
\<close>

section \<open>The login limiter\<close>

record ipBucket =
  bk_count :: int
  bk_resetAt :: time

record loginLimiter =
  lm_window :: duration
  lm_limit :: int
  lm_hits :: "(string, ipBucket) gomap"

definition newLoginLimiter :: "int \<Rightarrow> duration \<Rightarrow> loginLimiter" where
  "newLoginLimiter limit window = \<lparr>lm_window = window, lm_limit = limit, lm_hits = []\<rparr>"

definition Allow :: "time \<Rightarrow> string \<Rightarrow> loginLimiter \<Rightarrow> bool \<times> loginLimiter" where
  "Allow now ip l =
     (let fresh = \<lparr>bk_count = 0, bk_resetAt = now + lm_window l\<rparr>;
          b = (case map_of (lm_hits l) ip of
                 None \<Rightarrow> fresh
               | Some b \<Rightarrow> if now > bk_resetAt b then fresh else b);
          b' = b\<lparr>bk_count := bk_count b + 1\<rparr>
      in (bk_count b' \<le> lm_limit l, l\<lparr>lm_hits := AList.update ip b' (lm_hits l)\<rparr>))"

text \<open>A sequence of requests, the verdicts in order.\<close>

fun allow_all :: "(time \<times> string) list \<Rightarrow> loginLimiter \<Rightarrow> bool list \<times> loginLimiter" where
  "allow_all [] l = ([], l)"
| "allow_all ((now, ip) # rs) l =
     (let (ok, l1) = Allow now ip l; (oks, l2) = allow_all rs l1 in (ok # oks, l2))"

definition admitted :: "string \<Rightarrow> (time \<times> string) list \<Rightarrow> loginLimiter \<Rightarrow> nat" where
  "admitted ip rs l = length (filter (\<lambda>(r, ok). snd r = ip \<and> ok) (zip rs (fst (allow_all rs l))))"

section \<open>Single-use nonces\<close>

definition nonceTTL :: duration where "nonceTTL = 5 * Minute"

record nonceEntry =
  no_value :: string
  no_expiresAt :: time

type_synonym nonceStore = "(string, nonceEntry) gomap"

definition purgeLocked :: "time \<Rightarrow> (string \<times> nonceEntry) list \<Rightarrow> nonceStore \<Rightarrow> nonceStore" where
  "purgeLocked now es m =
     fold (\<lambda>(k, e) m. if now > no_expiresAt e then AList.delete k m else m) es m"

text \<open>\<open>put\<close>: \<open>rnd\<close> is what the random source delivers, if it does; the clock is read twice.\<close>

definition nonce_put ::
  "(nonceStore \<Rightarrow> nonceStore) \<Rightarrow> bytes option \<Rightarrow> time \<Rightarrow> time \<Rightarrow> string \<Rightarrow> nonceStore \<Rightarrow> string option \<times> nonceStore" where
  "nonce_put ord rnd now now' val m =
     (case rnd of
        None \<Rightarrow> (None, m)
      | Some b \<Rightarrow>
          let nonce = base64_encode encodeURL b
          in (Some nonce, AList.update nonce \<lparr>no_value = val, no_expiresAt = now' + nonceTTL\<rparr> (purgeLocked now (ord m) m)))"

definition nonce_take :: "time \<Rightarrow> string \<Rightarrow> nonceStore \<Rightarrow> string option \<times> nonceStore" where
  "nonce_take now nonce m =
     (case map_of m nonce of
        None \<Rightarrow> (None, m)
      | Some e \<Rightarrow>
          (if now > no_expiresAt e then None else Some (no_value e), AList.delete nonce m))"

section \<open>The session secret\<close>

datatype secret_err = DecodeSecret | EmptySecret | ReadSecret string | GenerateSecret | WriteSecret

definition LoadOrCreateSessionSecret ::
  "read_result \<Rightarrow> bytes option \<Rightarrow> bool \<Rightarrow> (secret_err + bytes) \<times> bytes option" where
  "LoadOrCreateSessionSecret file rnd write_ok =
     (case file of
        ReadOk content \<Rightarrow>
          (case hex_DecodeString (string_of_bytes content) of
             None \<Rightarrow> (Inl DecodeSecret, None)
           | Some sec \<Rightarrow> if length sec = 0 then (Inl EmptySecret, None) else (Inr sec, None))
      | ReadFail m \<Rightarrow> (Inl (ReadSecret m), None)
      | ReadNotExist \<Rightarrow>
          (case rnd of
             None \<Rightarrow> (Inl GenerateSecret, None)
           | Some sec \<Rightarrow>
               let enc = hex_EncodeToString sec
               in if write_ok then (Inr sec, Some (bytes_of_string enc)) else (Inl WriteSecret, None)))"

section \<open>The session cookie\<close>

definition sessionTTL :: duration where "sessionTTL = 12 * Hour"

definition unix :: "time \<Rightarrow> int" where
  "unix t = t div Second"

definition issueSessionCookie :: "(bytes \<Rightarrow> bytes) \<Rightarrow> time \<Rightarrow> string \<Rightarrow> string" where
  "issueSessionCookie hmac now keyID =
     (let expires = unix (now + sessionTTL);
          payload = keyID @ ''|'' @ FormatInt expires
      in payload @ ''|'' @ hex_EncodeToString (hmac (bytes_of_string payload)))"

definition verifySessionCookie :: "(bytes \<Rightarrow> bytes) \<Rightarrow> time \<Rightarrow> string \<Rightarrow> string option" where
  "verifySessionCookie hmac now cookie =
     (let parts = strings_Split cookie CHR ''|''
      in if length parts \<noteq> 3 then None
         else
           let keyID = parts ! 0; expiresStr = parts ! 1; gotMAC = parts ! 2
           in case ParseInt64 expiresStr of
                Inl _ \<Rightarrow> None
              | Inr expires \<Rightarrow>
                  if unix now > expires then None
                  else
                    let payload = keyID @ ''|'' @ expiresStr;
                        want = hex_EncodeToString (hmac (bytes_of_string payload))
                    in if gotMAC \<noteq> want then None else Some keyID)"

section \<open>The limiter's bound\<close>

lemma Allow_simps [simp]:
  "lm_limit (snd (Allow now ip l)) = lm_limit l" "lm_window (snd (Allow now ip l)) = lm_window l"
  by (simp_all add: Allow_def Let_def)

lemma Allow_other: "i \<noteq> ip \<Longrightarrow> map_of (lm_hits (snd (Allow now ip l))) i = map_of (lm_hits l) i"
  by (simp add: Allow_def Let_def)

definition same_window :: "time \<Rightarrow> string \<Rightarrow> loginLimiter \<Rightarrow> ipBucket option" where
  "same_window now ip l =
     (case map_of (lm_hits l) ip of None \<Rightarrow> None | Some b \<Rightarrow> if now > bk_resetAt b then None else Some b)"

lemma Allow_same:
  "same_window now ip l = Some b \<Longrightarrow>
   fst (Allow now ip l) = (bk_count b + 1 \<le> lm_limit l) \<and>
   map_of (lm_hits (snd (Allow now ip l))) ip = Some (b\<lparr>bk_count := bk_count b + 1\<rparr>)"
  by (auto simp: Allow_def same_window_def Let_def split: option.splits if_splits)

lemma Allow_new:
  "same_window now ip l = None \<Longrightarrow>
   fst (Allow now ip l) = (1 \<le> lm_limit l) \<and>
   map_of (lm_hits (snd (Allow now ip l))) ip = Some \<lparr>bk_count = 1, bk_resetAt = now + lm_window l\<rparr>"
  by (auto simp: Allow_def same_window_def Let_def split: option.splits if_splits)

lemma admitted_Nil [simp]: "admitted ip [] l = 0"
  by (simp add: admitted_def)

lemma admitted_Cons [simp]:
  "admitted ip ((now, i) # rs) l =
    (if i = ip \<and> fst (Allow now i l) then 1 else 0) + admitted ip rs (snd (Allow now i l))"
  by (auto simp: admitted_def case_prod_beta)

text \<open>While the window of a bucket lasts, the rest of its budget is given out and no more.\<close>

lemma admitted_in_window_exact:
  "map_of (lm_hits l) ip = Some b \<Longrightarrow> \<forall>(t, i) \<in> set rs. i = ip \<longrightarrow> t \<le> bk_resetAt b \<Longrightarrow>
   admitted ip rs l = min (nat (lm_limit l - bk_count b)) (length (filter (\<lambda>(t, i). i = ip) rs))"
proof (induction rs arbitrary: l b)
  case (Cons r rs)
  obtain t i where r: "r = (t, i)" by (cases r)
  show ?case
  proof (cases "i = ip")
    case True
    then have same: "same_window t ip l = Some b"
      using Cons.prems by (auto simp: same_window_def r)
    note A = Allow_same [OF same]
    have "admitted ip rs (snd (Allow t ip l)) =
        min (nat (lm_limit l - (bk_count b + 1))) (length (filter (\<lambda>(t, i). i = ip) rs))"
      using Cons.IH [OF conjunct2 [OF A]] Cons.prems by (simp add: r)
    then show ?thesis
      using True A by (simp add: r min_def) linarith
  next
    case False
    then show ?thesis
      using Cons.IH [of "snd (Allow t i l)" b] Cons.prems Allow_other [of ip i t l] by (simp add: r)
  qed
qed simp

lemma admitted_in_window:
  "map_of (lm_hits l) ip = Some b \<Longrightarrow> \<forall>(t, i) \<in> set rs. i = ip \<longrightarrow> t \<le> bk_resetAt b \<Longrightarrow>
   admitted ip rs l \<le> nat (lm_limit l - bk_count b)"
  using admitted_in_window_exact [of l ip b rs] by simp

text \<open>A window from the request that opens it.\<close>

lemma admitted_from_opening:
  assumes "same_window t0 ip l = None" "\<forall>(t, i) \<in> set rs. i = ip \<longrightarrow> t \<le> t0 + lm_window l"
  shows "admitted ip ((t0, ip) # rs) l = min (nat (lm_limit l)) (Suc (length (filter (\<lambda>(t, i). i = ip) rs)))"
proof -
  note A = Allow_new [OF assms(1)]
  have "admitted ip rs (snd (Allow t0 ip l)) = min (nat (lm_limit l - 1)) (length (filter (\<lambda>(t, i). i = ip) rs))"
    using admitted_in_window_exact [OF conjunct2 [OF A], of rs] assms(2) by simp
  then show ?thesis
    using A by (simp add: min_def) linarith
qed

lemma admitted_bound:
  "\<forall>(t, i) \<in> set rs. i = ip \<longrightarrow> t0 \<le> t \<and> t \<le> t0 + lm_window l \<Longrightarrow>
   \<forall>b. map_of (lm_hits l) ip = Some b \<longrightarrow> 0 \<le> bk_count b \<Longrightarrow>
   admitted ip rs l \<le> nat (lm_limit l) +
     (case map_of (lm_hits l) ip of None \<Rightarrow> 0 | Some b \<Rightarrow> nat (lm_limit l - bk_count b))"
proof (induction rs arbitrary: l)
  case (Cons r rs)
  obtain t i where r: "r = (t, i)" by (cases r)
  show ?case
  proof (cases "i = ip")
    case True
    show ?thesis
    proof (cases "same_window t ip l")
      case None
      note A = Allow_new [OF None]
      have "admitted ip rs (snd (Allow t ip l)) \<le> nat (lm_limit l - 1)"
        using admitted_in_window [OF conjunct2 [OF A], of rs] Cons.prems(1) True by (fastforce simp: r)
      then show ?thesis
        using True A by (simp add: r) linarith
    next
      case (Some b)
      note A = Allow_same [OF Some]
      have b: "map_of (lm_hits l) ip = Some b"
        using Some by (auto simp: same_window_def split: option.splits if_splits)
      have "admitted ip rs (snd (Allow t ip l)) \<le> nat (lm_limit l) + nat (lm_limit l - (bk_count b + 1))"
        using Cons.IH [of "snd (Allow t ip l)"] Cons.prems A b by (simp add: r)
      then show ?thesis
        using True A b by (simp add: r) linarith
    qed
  next
    case False
    then show ?thesis
      using Cons.IH [of "snd (Allow t i l)"] Cons.prems Allow_other [of ip i t l]
      by (simp add: r split: option.splits)
  qed
qed simp

lemma allow_all_counts:
  assumes "map_of (lm_hits (snd (allow_all rs (newLoginLimiter limit w)))) ip = Some b"
  shows "0 \<le> bk_count b"
proof -
  have "0 \<le> bk_count b" if "map_of (lm_hits (snd (allow_all rs l))) ip = Some b"
    "\<forall>b. map_of (lm_hits l) ip = Some b \<longrightarrow> 0 \<le> bk_count b" for l b
    using that
  proof (induction rs l rule: allow_all.induct)
    case (2 now i rs l)
    obtain ok l1 where A: "Allow now i l = (ok, l1)" by fastforce
    have "\<forall>b. map_of (lm_hits l1) ip = Some b \<longrightarrow> 0 \<le> bk_count b"
      using "2.prems"(2) A by (auto simp: Allow_def Let_def split: if_splits option.splits)
    then show ?case
      using "2.IH" [OF A [symmetric] refl] "2.prems"(1) by (simp add: A case_prod_beta)
  qed simp
  then show ?thesis
    using assms by (fastforce simp: newLoginLimiter_def)
qed

lemma allow_all_simps [simp]:
  "lm_limit (snd (allow_all rs l)) = lm_limit l" "lm_window (snd (allow_all rs l)) = lm_window l"
proof (induction rs arbitrary: l)
  case (Cons r rs)
  obtain t i where r: "r = (t, i)" by (cases r)
  { case 1 show ?case using Cons.IH(1) [of "snd (Allow t i l)"] by (simp add: r case_prod_beta) }
  { case 2 show ?case using Cons.IH(2) [of "snd (Allow t i l)"] by (simp add: r case_prod_beta) }
qed simp_all

section \<open>Nonces\<close>

interpretation nonce_table: purging_table "\<lambda>now e. now > no_expiresAt e" purgeLocked
  by unfold_locales (simp_all add: purgeLocked_def)

datatype nonce_op = Put "bytes option" time time string | Take time string

text \<open>A run of the store; a \<open>Take\<close> that succeeds is reported with its nonce and value.\<close>

fun nonce_run :: "(nonceStore \<Rightarrow> nonceStore) \<Rightarrow> nonce_op list \<Rightarrow> nonceStore \<Rightarrow> (string \<times> string) list \<times> nonceStore" where
  "nonce_run ord [] m = ([], m)"
| "nonce_run ord (Put rnd now now' v # ops) m = nonce_run ord ops (snd (nonce_put ord rnd now now' v m))"
| "nonce_run ord (Take now n # ops) m =
     (let (res, m1) = nonce_take now n m; (outs, m2) = nonce_run ord ops m1
      in ((case res of None \<Rightarrow> [] | Some v \<Rightarrow> [(n, v)]) @ outs, m2))"

fun put_count :: "string \<Rightarrow> nonce_op list \<Rightarrow> nat" where
  "put_count n [] = 0"
| "put_count n (Put (Some b) _ _ _ # ops) = (if base64_encode encodeURL b = n then 1 else 0) + put_count n ops"
| "put_count n (_ # ops) = put_count n ops"

lemma nonce_put_lookup:
  assumes "range_order ord" "map_wf m"
  shows "map_wf (snd (nonce_put ord rnd now now' v m))"
    "map_of (snd (nonce_put ord rnd now now' v m)) n =
      (if \<exists>b. rnd = Some b \<and> base64_encode encodeURL b = n then Some \<lparr>no_value = v, no_expiresAt = now' + nonceTTL\<rparr>
       else if rnd = None then map_of m n
       else case map_of m n of None \<Rightarrow> None | Some e \<Rightarrow> if now > no_expiresAt e then None else Some e)"
  using assms nonce_table.lookup_purge [OF assms, of now n]
  by (auto simp: nonce_put_def Let_def nonce_table.map_wf_purge split: option.splits)

lemma nonce_take_lookup:
  "map_wf m \<Longrightarrow> map_wf (snd (nonce_take now n m))"
  "map_of (snd (nonce_take now n m)) k = (if k = n then None else map_of m k)"
  by (auto simp: nonce_take_def split: option.splits)

lemma nonce_run_count:
  shows "range_order ord \<Longrightarrow> map_wf m \<Longrightarrow>
    length (filter (\<lambda>(k, v). k = n) (fst (nonce_run ord ops m))) \<le>
      put_count n ops + (if map_of m n = None then 0 else 1)"
proof (induction ord ops m rule: nonce_run.induct)
  case (2 ord rnd now now' v ops m)
  note L = nonce_put_lookup [OF "2.prems"(1,2), of rnd now now' v]
  have "length (filter (\<lambda>(k, v). k = n) (fst (nonce_run ord (Put rnd now now' v # ops) m))) \<le>
      put_count n ops + (if map_of (snd (nonce_put ord rnd now now' v m)) n = None then 0 else 1)"
    using "2.IH" [OF "2.prems"(1) L(1)] by simp
  also have "\<dots> \<le> put_count n (Put rnd now now' v # ops) + (if map_of m n = None then 0 else 1)"
    using L(2) [of n] by (cases rnd) (auto split: option.splits if_splits)
  finally show ?case .
next
  case (3 ord now k ops m)
  obtain res m1 where tk: "nonce_take now k m = (res, m1)"
    by fastforce
  have "length (filter (\<lambda>(j, v). j = n) (fst (nonce_run ord ops m1))) \<le>
      put_count n ops + (if k = n \<or> map_of m n = None then 0 else 1)"
    using "3.IH" [OF tk [symmetric] refl "3.prems"(1)] nonce_take_lookup(1) [of m now k] nonce_take_lookup(2) [of now k m] "3.prems"(2)
    by (auto simp: tk split: if_splits)
  moreover have "k = n \<Longrightarrow> res \<noteq> None \<Longrightarrow> map_of m n \<noteq> None"
    using tk by (auto simp: nonce_take_def split: option.splits)
  moreover obtain outs m2 where "nonce_run ord ops m1 = (outs, m2)"
    by fastforce
  ultimately show ?case
    by (cases res) (auto simp: tk split: if_splits)
qed simp

text \<open>Operations on other nonces leave an entry that has not expired alone.\<close>

fun op_spares :: "string \<Rightarrow> time \<Rightarrow> nonce_op \<Rightarrow> bool" where
  "op_spares n deadline (Put rnd now now' v) \<longleftrightarrow> now \<le> deadline \<and> (\<forall>b. rnd = Some b \<longrightarrow> base64_encode encodeURL b \<noteq> n)"
| "op_spares n deadline (Take now k) \<longleftrightarrow> k \<noteq> n"

lemma nonce_run_spares:
  "range_order ord \<Longrightarrow> map_wf m \<Longrightarrow> map_of m n = Some e \<Longrightarrow> \<forall>op \<in> set ops. op_spares n (no_expiresAt e) op \<Longrightarrow>
   map_of (snd (nonce_run ord ops m)) n = Some e"
proof (induction ord ops m rule: nonce_run.induct)
  case (2 ord rnd now now' v ops m)
  note L = nonce_put_lookup [OF "2.prems"(1,2), of rnd now now' v]
  have "map_of (snd (nonce_put ord rnd now now' v m)) n = Some e"
    using "2.prems"(3,4) L(2) [of n] by auto
  then show ?case
    using "2.IH" [OF "2.prems"(1) L(1)] "2.prems"(4) by simp
next
  case (3 ord now k ops m)
  obtain res m1 where tk: "nonce_take now k m = (res, m1)"
    by fastforce
  have "map_of m1 n = Some e" "map_wf m1"
    using "3.prems" nonce_take_lookup(1) [of m now k] nonce_take_lookup(2) [of now k m] by (auto simp: tk)
  then show ?case
    using "3.IH" [OF tk [symmetric] refl "3.prems"(1)] "3.prems"(4) by (simp add: tk case_prod_beta)
qed simp

section \<open>Cookies\<close>

lemma issue_split:
  assumes "CHR ''|'' \<notin> set keyID"
  shows "strings_Split (issueSessionCookie hmac now keyID) CHR ''|'' =
    [keyID, FormatInt (unix (now + sessionTTL)),
     hex_EncodeToString (hmac (bytes_of_string (keyID @ ''|'' @ FormatInt (unix (now + sessionTTL)))))]"
  using assms by (simp add: issueSessionCookie_def Let_def)

lemma issued_cookie_verifies:
  assumes "CHR ''|'' \<notin> set keyID" "0 \<le> now" "now + sessionTTL < 2 ^ 63 * Second"
  shows "verifySessionCookie hmac t (issueSessionCookie hmac now keyID) =
    (if unix t \<le> unix (now + 12 * Hour) then Some keyID else None)"
proof -
  have "0 \<le> unix (now + sessionTTL)" "unix (now + sessionTTL) < 2 ^ 63"
    using assms(2,3) by (auto simp: unix_def sessionTTL_def)
  then have "ParseInt64 (FormatInt (unix (now + sessionTTL))) = Inr (unix (now + sessionTTL))"
    by (intro ParseInt64_FormatInt) auto
  then show ?thesis
    by (simp add: verifySessionCookie_def issue_split [OF assms(1)] Let_def sessionTTL_def)
qed

lemma verifySessionCookie_SomeD:
  assumes "verifySessionCookie hmac now cookie = Some keyID"
  shows "\<exists>ex n. cookie = (keyID @ ''|'' @ ex) @ ''|'' @ hex_EncodeToString (hmac (bytes_of_string (keyID @ ''|'' @ ex))) \<and>
    CHR ''|'' \<notin> set keyID \<and> CHR ''|'' \<notin> set ex \<and> ParseInt64 ex = Inr n \<and> unix now \<le> n"
proof -
  obtain a b c where parts: "strings_Split cookie CHR ''|'' = [a, b, c]"
    using assms by (auto simp: verifySessionCookie_def Let_def length_Suc_conv numeral_3_eq_3 split: if_splits)
  have free: "CHR ''|'' \<notin> set a" "CHR ''|'' \<notin> set b"
    using strings_Split_parts_free [of _ cookie "CHR ''|''"] parts by auto
  have join: "cookie = a @ ''|'' @ b @ ''|'' @ c"
    using strings_Join_Split [of cookie "CHR ''|''"] by (simp add: parts)
  obtain n where "ParseInt64 b = Inr n" "unix now \<le> n" "c = hex_EncodeToString (hmac (bytes_of_string (a @ ''|'' @ b)))" "keyID = a"
    using assms by (auto simp: verifySessionCookie_def Let_def parts split: if_splits sum.splits)
  then show ?thesis
    using join free by auto
qed

section \<open>Properties\<close>

text \<open>
  C28: the login limiter's bound. Whatever requests came before and whatever other addresses
  do, from the request that opens an address's window (it has no bucket, or an expired one) until
  the window's end the limiter lets exactly the first attempts up to the limit through: as many as
  the limit, or all of them when they are fewer. The windows being fixed, not sliding, a stretch of
  time as long as the window may touch two of them: there at most twice the limit get through.
\<close>
theorem login_limiter_bound:
  assumes l_eq: "l = snd (allow_all before (newLoginLimiter limit window))"
  shows "((\<forall>b. map_of (lm_hits l) ip = Some b \<longrightarrow> bk_resetAt b < t0) \<and>
     (\<forall>(t, i) \<in> set rs. i = ip \<longrightarrow> t \<le> t0 + window) \<longrightarrow>
       admitted ip ((t0, ip) # rs) l = min (nat limit) (Suc (length (filter (\<lambda>(t, i). i = ip) rs)))) \<and>
    ((\<forall>(t, i) \<in> set rs. i = ip \<longrightarrow> t0 \<le> t \<and> t \<le> t0 + window) \<longrightarrow> admitted ip rs l \<le> 2 * nat limit)"
proof -
  have l: "lm_limit l = limit" "lm_window l = window"
    by (simp_all add: l_eq newLoginLimiter_def)
  have pos: "\<forall>b. map_of (lm_hits l) ip = Some b \<longrightarrow> 0 \<le> bk_count b"
    using allow_all_counts [of before limit window ip] by (simp add: l_eq)
  have "admitted ip ((t0, ip) # rs) l = min (nat limit) (Suc (length (filter (\<lambda>(t, i). i = ip) rs)))"
    if "\<forall>b. map_of (lm_hits l) ip = Some b \<longrightarrow> bk_resetAt b < t0" "\<forall>(t, i) \<in> set rs. i = ip \<longrightarrow> t \<le> t0 + window"
    using admitted_from_opening [of t0 ip l rs] that unfolding l by (auto simp: same_window_def split: option.splits)
  moreover have "admitted ip rs l \<le> 2 * nat limit" if "\<forall>(t, i) \<in> set rs. i = ip \<longrightarrow> t0 \<le> t \<and> t \<le> t0 + window"
    using admitted_bound [of rs ip t0 l] that pos by (auto simp: l split: option.splits)
  ultimately show ?thesis by blast
qed

theorem login_limiter_bound_witness:
  "admitted ''ip'' ((3, ''ip'') # (4, ''other'') # replicate 19 (5, ''ip'')) (newLoginLimiter 5 Minute) = 5 \<and>
   admitted ''ip'' (replicate 20 (5, ''ip'')) (newLoginLimiter 5 Minute) \<le> 10"
  using login_limiter_bound [where before = "[]" and limit = 5 and window = Minute and l = "newLoginLimiter 5 Minute" and
      ip = "''ip''" and ?t0.0 = 3 and rs = "(4, ''other'') # replicate 19 (5, ''ip'')"]
    login_limiter_bound [where before = "[]" and limit = 5 and window = Minute and l = "newLoginLimiter 5 Minute" and
      ip = "''ip''" and ?t0.0 = 3 and rs = "replicate 20 (5, ''ip'')"]
  by (simp add: newLoginLimiter_def del: admitted_Cons)

text \<open>
  A revealed secret is revealed once. Over any run of the nonce store the number of times a
  nonce yields a value is at most the number of times it was handed out.
\<close>
lemma nonce_single_use:
  assumes "range_order ord"
  shows "length (filter (\<lambda>(k, v). k = n) (fst (nonce_run ord ops []))) \<le> put_count n ops"
  using nonce_run_count [OF assms, of "[]" n ops] by simp

lemma nonce_single_use_instance:
  "length (filter (\<lambda>(k, v). k = ''AAA'')
     (fst (nonce_run rev [Put (Some [0, 0]) 1 2 ''secret'', Take 3 ''AAA'', Take 4 ''AAA''] []))) \<le> 1"
proof -
  have "base64_encode encodeURL [0, 0] = ''AAA''"
    by (simp add: sextet_def encodeURL_def)
  then show ?thesis
    using nonce_single_use [of rev "''AAA''" "[Put (Some [0, 0]) 1 2 ''secret'', Take 3 ''AAA'', Take 4 ''AAA'']"]
    by (simp del: nonce_run.simps)
qed

text \<open>
  And it is revealed: a value stored under a nonce is what taking that nonce returns, up to
  and including five minutes later, whatever happens to other nonces in between; after that, or
  a second time, nothing is returned.
\<close>
lemma nonce_reveals_value:
  assumes "range_order ord" "map_wf m" "nonce_put ord (Some b) now now' v m = (Some n, m1)"
    and "\<forall>op \<in> set ops. op_spares n (now' + 5 * Minute) op"
  shows "fst (nonce_take t n (snd (nonce_run ord ops m1))) = (if t \<le> now' + 5 * Minute then Some v else None) \<and>
    fst (nonce_take t' n (snd (nonce_take t n (snd (nonce_run ord ops m1))))) = None"
proof -
  have n: "base64_encode encodeURL b = n" and m1: "m1 = snd (nonce_put ord (Some b) now now' v m)"
    using assms(3) by (auto simp: nonce_put_def Let_def)
  note L = nonce_put_lookup [OF assms(1,2), of "Some b" now now' v, folded m1]
  have "map_of m1 n = Some \<lparr>no_value = v, no_expiresAt = now' + nonceTTL\<rparr>"
    using L(2) [of n] n by simp
  then have "map_of (snd (nonce_run ord ops m1)) n = Some \<lparr>no_value = v, no_expiresAt = now' + nonceTTL\<rparr>"
    using assms(4) by (intro nonce_run_spares [OF assms(1) L(1)]) (simp_all add: nonceTTL_def)
  then show ?thesis
    by (auto simp: nonce_take_def nonceTTL_def)
qed

lemma nonce_reveals_value_instance:
  "\<exists>n m1. nonce_put rev (Some [7]) 0 0 ''raw'' [] = (Some n, m1) \<and>
     fst (nonce_take (4 * Minute) n (snd (nonce_run rev [] m1))) = Some ''raw''"
proof -
  obtain n m1 where p: "nonce_put rev (Some [7]) 0 0 ''raw'' [] = (Some n, m1)"
    by (simp add: nonce_put_def Let_def)
  then show ?thesis
    using nonce_reveals_value [of rev "[]" "[7]" 0 0 "''raw''" n m1 "[]" "4 * Minute" 0] by auto
qed

text \<open>
  C29: sessions. The cookie issued to a key (its id has no bar) verifies as that key for twelve
  hours and not beyond; and conversely, whatever string is presented, it is accepted for a key
  only when it carries the MAC, under the server's secret, of that key id and an expiry that has
  not passed.
\<close>
theorem session_cookie_sound:
  assumes "CHR ''|'' \<notin> set keyID" "0 \<le> now" "now + sessionTTL < 2 ^ 63 * Second"
  shows "(verifySessionCookie hmac t (issueSessionCookie hmac now keyID) =
      (if unix t \<le> unix (now + 12 * Hour) then Some keyID else None)) \<and>
    (verifySessionCookie hmac t cookie = Some k \<longrightarrow>
      (\<exists>ex n. cookie = (k @ ''|'' @ ex) @ ''|'' @ hex_EncodeToString (hmac (bytes_of_string (k @ ''|'' @ ex))) \<and>
         ParseInt64 ex = Inr n \<and> unix t \<le> n))"
  using issued_cookie_verifies [OF assms, of hmac t] verifySessionCookie_SomeD [of hmac t cookie k] by blast

theorem session_cookie_sound_witness:
  "verifySessionCookie (\<lambda>bs. rev bs) Hour (issueSessionCookie (\<lambda>bs. rev bs) 0 ''k1'') = Some ''k1''"
proof -
  have "verifySessionCookie (\<lambda>bs. rev bs) Hour (issueSessionCookie (\<lambda>bs. rev bs) 0 ''k1'') =
      (if unix Hour \<le> unix (0 + 12 * Hour) then Some ''k1'' else None)"
    using session_cookie_sound [of "''k1''" 0 "\<lambda>bs. rev bs" Hour] by (simp add: sessionTTL_def)
  then show ?thesis
    by (simp add: unix_def)
qed

text \<open>
  The session secret survives a restart: what the first start generated and wrote, the next
  start loads unchanged, so the cookies issued before stay valid.
\<close>
lemma session_secret_survives_restart:
  assumes "LoadOrCreateSessionSecret ReadNotExist (Some sec) True = (Inr key, Some content)" "sec \<noteq> []"
  shows "LoadOrCreateSessionSecret (ReadOk content) rnd w = (Inr key, None) \<and>
    verifySessionCookie (hmac key) t c = verifySessionCookie (hmac sec) t c"
  using assms by (auto simp: LoadOrCreateSessionSecret_def Let_def)

lemma session_secret_survives_restart_instance:
  "LoadOrCreateSessionSecret (ReadOk (bytes_of_string (hex_EncodeToString [1, 2]))) None False = (Inr [1, 2], None)"
  using session_secret_survives_restart [of "[1, 2]" "[1, 2]" "bytes_of_string (hex_EncodeToString [1, 2])"]
  by (simp add: LoadOrCreateSessionSecret_def)

end
