(* ===== verification/Admin.thy ===== *)
theory Admin
  imports Session Nodes AuditLog
begin

text \<open>
  The admin dashboard's handlers, \<open>src/internal/admin/server.go\<close>: login and logout, the session
  guard, the fleet view, and the management of API keys and worker enrollment tokens. A page is
  the data it is rendered from; the HTML itself is in the theory Pages, the framework's routing
  is not modelled.
\<close>

section \<open>State and environment\<close>

record AdminServer =
  adm_db :: db
  adm_limiter :: loginLimiter
  adm_nonces :: nonceStore
  adm_hmac :: "bytes \<Rightarrow> bytes"
  adm_enrollments :: bool

definition loginLimit :: int where "loginLimit = 5"
definition loginWindow :: duration where "loginWindow = 1 * Minute"
definition auditLimit :: int where "auditLimit = 50"

definition newAdmin :: "db \<Rightarrow> (bytes \<Rightarrow> bytes) \<Rightarrow> bool \<Rightarrow> AdminServer" where
  "newAdmin d hmac enrollments =
     \<lparr>adm_db = d, adm_limiter = newLoginLimiter loginLimit loginWindow, adm_nonces = [],
      adm_hmac = hmac, adm_enrollments = enrollments\<rparr>"

text \<open>The answers of the world to one request; one reading of the clock serves it.\<close>

record adm_env =
  a_now :: time
  a_ip :: string
  a_argon :: argon2
  a_ord :: "api_key_row list \<Rightarrow> api_key_row list"
  a_qfault :: "string option"
  a_ifault :: "string option"
  a_fault :: "string option"
  a_rfault :: "string option"
  a_event_fault :: "string option"
  a_uuid :: string
  a_key_rand :: bytes
  a_salt :: "bytes option"
  a_nonce_rand :: "bytes option"
  a_nonce_ord :: "nonceStore \<Rightarrow> nonceStore"
  a_v4sign :: "claims \<Rightarrow> string"
  a_nodes :: "NodeView list"
  a_claims :: "NodeView list option"
  a_static :: "string \<Rightarrow> bytes option"

datatype page =
    LoginPage
  | HomePage "NodeView list" nat
  | NodesFragment "NodeView list"
  | NodesPage "NodeView list"
  | NodeDetail NodeView
  | AuditPage "Entry list" "AdminEvent list"
  | KeysPage "APIKey list" string
  | KeyCreated string
  | WorkerKeysPage "EnrollmentToken list" string
  | WorkerKeyCreated string string

datatype cookie_op = NoCookie | SetCookie string | ClearCookie

datatype adm_response = Page page | Text int string | Redirect string cookie_op | Script bytes string | Panicked

text \<open>\<open>Panicked\<close> is a nil dereference. \<open>QueryEscape\<close> is \<open>url.QueryEscape\<close>.\<close>

definition unreserved :: "char \<Rightarrow> bool" where
  "unreserved c \<longleftrightarrow> c \<in> set ''ABCDEFGHIJKLMNOPQRSTUVWXYZabcdefghijklmnopqrstuvwxyz0123456789-_.~''"

definition QueryEscape :: "string \<Rightarrow> string" where
  "QueryEscape s =
     concat (map (\<lambda>c. if unreserved c then [c] else if c = CHR '' '' then ''+''
                     else let n = (of_char c :: nat)
                          in [CHR ''%'', ''0123456789ABCDEF'' ! (n div 16), ''0123456789ABCDEF'' ! (n mod 16)]) s)"

section \<open>Login and the session guard\<close>

definition blank_event :: AdminEvent where
  "blank_event = \<lparr>ae_ID = 0, ae_Event = '''', ae_APIKeyID = '''', ae_RemoteIP = '''', ae_StatusCode = 0, ae_Detail = '''', ae_CreatedAt = 0\<rparr>"

text \<open>An admin event whose error the handler drops.\<close>

definition record_event :: "adm_env \<Rightarrow> AdminEvent \<Rightarrow> AdminServer \<Rightarrow> AdminServer" where
  "record_event env e s =
     (case RecordAdminEvent (a_event_fault env) (a_now env) e (adm_db s) of
        Inl _ \<Rightarrow> s
      | Inr d \<Rightarrow> s\<lparr>adm_db := d\<rparr>)"

definition login_event :: "adm_env \<Rightarrow> string \<Rightarrow> string \<Rightarrow> int \<Rightarrow> AdminEvent" where
  "login_event env name keyID st =
     blank_event\<lparr>ae_Event := name, ae_APIKeyID := keyID, ae_RemoteIP := a_ip env, ae_StatusCode := st\<rparr>"

definition loginForm :: adm_response where
  "loginForm = Page LoginPage"

definition loginSubmit :: "adm_env \<Rightarrow> string \<Rightarrow> AdminServer \<Rightarrow> adm_response \<times> AdminServer" where
  "loginSubmit env password s =
     (let (ok, lim) = Allow (a_now env) (a_ip env) (adm_limiter s); s1 = s\<lparr>adm_limiter := lim\<rparr>
      in if \<not> ok then
           (Text 429 ''too many login attempts'', record_event env (login_event env ''login_throttled'' '''' 429) s1)
         else
           let token = strings_TrimSpace password
           in if token = '''' then
                (Text 401 ''missing api key'', record_event env (login_event env ''login_failed'' '''' 401) s1)
              else
                (case APIKey_Verify (a_argon env) (a_ord env) (a_now env) (a_qfault env) (a_ifault env) token (adm_db s1) of
                   Inl _ \<Rightarrow>
                     (Text 401 ''invalid admin key'', record_event env (login_event env ''login_failed'' '''' 401) s1)
                 | Inr ak \<Rightarrow>
                     if key_Role ak \<noteq> ''admin'' then
                       (Text 401 ''invalid admin key'',
                        record_event env (login_event env ''login_failed'' (key_ID ak) 401) s1)
                     else
                       (Redirect ''/admin'' (SetCookie (issueSessionCookie (adm_hmac s1) (a_now env) (key_ID ak))),
                        record_event env (login_event env ''login_ok'' (key_ID ak) 303) s1)))"

definition logout :: adm_response where
  "logout = Redirect ''/admin/login'' ClearCookie"

text \<open>The guard in front of every page but the login: the key id of the session, or the redirect.\<close>

definition requireSession :: "adm_env \<Rightarrow> string \<Rightarrow> AdminServer \<Rightarrow> adm_response + string" where
  "requireSession env cookie s =
     (case verifySessionCookie (adm_hmac s) (a_now env) cookie of
        None \<Rightarrow> Inl (Redirect ''/admin/login'' NoCookie)
      | Some akID \<Rightarrow>
          (case APIKey_ActiveByID (a_now env) (a_qfault env) akID (adm_db s) of
             Inr True \<Rightarrow> Inr akID
           | _ \<Rightarrow> Inl (Redirect ''/admin/login'' NoCookie)))"

section \<open>The fleet\<close>

text \<open>\<open>ns\<close> and \<open>cs\<close> are what the router's two snapshots return; the second may not be wired.\<close>

definition fleetView :: "NodeView list \<Rightarrow> NodeView list option \<Rightarrow> NodeView list" where
  "fleetView ns cs =
     (case cs of
        None \<Rightarrow> ns
      | Some claimed \<Rightarrow> ns @ filter (\<lambda>c. nv_ID c \<notin> nv_ID ` set ns) claimed)"

definition home :: "NodeView list \<Rightarrow> NodeView list option \<Rightarrow> page" where
  "home ns cs =
     (let fleet = fleetView ns cs in HomePage fleet (length (filter (\<lambda>n. nv_Status n = ''online'') fleet)))"

definition isFragmentRequest :: "string \<Rightarrow> string \<Rightarrow> bool" where
  "isFragmentRequest hx_request hx_boosted \<longleftrightarrow> hx_request = ''true'' \<and> hx_boosted \<noteq> ''true''"

definition nodesPage :: "string \<Rightarrow> string \<Rightarrow> NodeView list \<Rightarrow> NodeView list option \<Rightarrow> page" where
  "nodesPage hx_request hx_boosted ns cs =
     (if isFragmentRequest hx_request hx_boosted then NodesFragment (fleetView ns cs)
      else NodesPage (fleetView ns cs))"

definition nodeDetailPage :: "string \<Rightarrow> NodeView list \<Rightarrow> NodeView list option \<Rightarrow> adm_response" where
  "nodeDetailPage i ns cs =
     (case List.find (\<lambda>n. nv_ID n = i) (fleetView ns cs) of
        Some n \<Rightarrow> Page (NodeDetail n)
      | None \<Rightarrow> Text 404 ''node not found'')"

definition auditPage :: "adm_env \<Rightarrow> AdminServer \<Rightarrow> adm_response" where
  "auditPage env s =
     (case Recent (a_qfault env) (a_ifault env) auditLimit '''' (adm_db s) of
        Inl _ \<Rightarrow> Text 500 ''audit query failed''
      | Inr es \<Rightarrow>
          (case RecentAdminEvents (a_fault env) (a_rfault env) auditLimit (adm_db s) of
             Inl _ \<Rightarrow> Text 500 ''admin audit query failed''
           | Inr events \<Rightarrow> Page (AuditPage es events)))"

section \<open>API keys\<close>

definition keysPage :: "adm_env \<Rightarrow> string \<Rightarrow> AdminServer \<Rightarrow> adm_response" where
  "keysPage env err s =
     (case APIKey_List (a_qfault env) (adm_db s) of
        Inl _ \<Rightarrow> Text 500 ''key list query failed''
      | Inr keys \<Rightarrow> Page (KeysPage keys err))"

definition put_nonce :: "adm_env \<Rightarrow> string \<Rightarrow> AdminServer \<Rightarrow> string option \<times> AdminServer" where
  "put_nonce env raw s =
     (case nonce_put (a_nonce_ord env) (a_nonce_rand env) (a_now env) (a_now env) raw (adm_nonces s) of
        (n, m) \<Rightarrow> (n, s\<lparr>adm_nonces := m\<rparr>))"

definition keysCreate :: "adm_env \<Rightarrow> string \<Rightarrow> AdminServer \<Rightarrow> adm_response \<times> AdminServer" where
  "keysCreate env form_name s =
     (let name = strings_TrimSpace form_name
      in if name = '''' then (Redirect (''/admin/keys?error='' @ QueryEscape ''name is required'') NoCookie, s)
         else
           let raw = GenerateAPIKey (a_key_rand env)
           in (case APIKey_Create (a_argon env) (a_salt env) (a_uuid env) (a_now env) (a_fault env) name raw (adm_db s) of
                 Inl _ \<Rightarrow> (Text 500 ''key create failed'', s)
               | Inr (ak, d) \<Rightarrow>
                   let s1 = record_event env (login_event env ''key_created'' (key_ID ak) 200) (s\<lparr>adm_db := d\<rparr>);
                       (nonce, s2) = put_nonce env raw s1
                   in (case nonce of
                         None \<Rightarrow> (Text 500 ''key create failed'', s2)
                       | Some n \<Rightarrow> (Redirect (''/admin/keys/created?nonce='' @ QueryEscape n) NoCookie, s2))))"

definition keyCreatedPage :: "adm_env \<Rightarrow> string \<Rightarrow> AdminServer \<Rightarrow> adm_response \<times> AdminServer" where
  "keyCreatedPage env nonce s =
     (case nonce_take (a_now env) nonce (adm_nonces s) of
        (None, m) \<Rightarrow> (Redirect ''/admin/keys'' NoCookie, s\<lparr>adm_nonces := m\<rparr>)
      | (Some raw, m) \<Rightarrow> (Page (KeyCreated raw), s\<lparr>adm_nonces := m\<rparr>))"

definition keyRevoke :: "adm_env \<Rightarrow> string \<Rightarrow> string \<Rightarrow> AdminServer \<Rightarrow> adm_response \<times> AdminServer" where
  "keyRevoke env sessionID i s =
     (if i = sessionID then
        (Redirect (''/admin/keys?error='' @ QueryEscape ''cannot revoke the key of your own session'') NoCookie, s)
      else
        (case APIKey_Revoke (a_now env) (a_fault env) (a_rfault env) i (adm_db s) of
           (Some _, d) \<Rightarrow> (Redirect (''/admin/keys?error='' @ QueryEscape ''no such key'') NoCookie, s\<lparr>adm_db := d\<rparr>)
         | (None, d) \<Rightarrow>
             (Redirect ''/admin/keys'' NoCookie,
              record_event env (login_event env ''key_revoked'' i 200) (s\<lparr>adm_db := d\<rparr>))))"

section \<open>Worker enrollment tokens\<close>

definition workerKeyTTLs :: "(string \<times> string \<times> duration) list" where
  "workerKeyTTLs =
     [(''24h'', ''1 day'', 24 * Hour), (''72h'', ''3 days'', 72 * Hour), (''168h'', ''7 days'', 168 * Hour),
      (''720h'', ''1 month'', 720 * Hour), (''2160h'', ''3 months'', 2160 * Hour), (''none'', ''No expiry'', 0)]"

definition workerKeyTTL :: "string \<Rightarrow> duration option" where
  "workerKeyTTL v =
     (let v' = (if v = '''' then ''none'' else v)
      in map_option (snd \<circ> snd) (List.find (\<lambda>t. fst t = v') workerKeyTTLs))"

definition workerKeysPage :: "adm_env \<Rightarrow> string \<Rightarrow> AdminServer \<Rightarrow> adm_response" where
  "workerKeysPage env err s =
     (if adm_enrollments s then
        (case Enrollment_List (a_qfault env) (adm_db s) of
           Inl _ \<Rightarrow> Text 500 ''enrollment token list query failed''
         | Inr toks \<Rightarrow> Page (WorkerKeysPage toks err))
      else Page (WorkerKeysPage [] err))"

definition workerKeysCreate :: "adm_env \<Rightarrow> string \<Rightarrow> string \<Rightarrow> AdminServer \<Rightarrow> adm_response \<times> AdminServer" where
  "workerKeysCreate env form_node form_ttl s =
     (let node = strings_TrimSpace form_node
      in if node = '''' then (Redirect (''/admin/worker-keys?error='' @ QueryEscape ''node name is required'') NoCookie, s)
         else
           (case workerKeyTTL form_ttl of
              None \<Rightarrow> (Redirect (''/admin/worker-keys?error='' @ QueryEscape ''unknown expiry choice'') NoCookie, s)
            | Some ttl \<Rightarrow>
                if \<not> adm_enrollments s then (Panicked, s) else
                (case Enrollment_Create (a_v4sign env) (a_uuid env) (a_now env) (a_now env) (a_fault env) node ttl (adm_db s) of
                   Inl _ \<Rightarrow> (Text 500 ''enrollment token create failed'', s)
                 | Inr (et, raw, d) \<Rightarrow>
                     let s1 = record_event env
                           (blank_event\<lparr>ae_Event := ''enrollment_created'',
                              ae_Detail := tok_ID et @ '' ('' @ tok_NodeName et @ '')'',
                              ae_RemoteIP := a_ip env, ae_StatusCode := 200\<rparr>) (s\<lparr>adm_db := d\<rparr>);
                         (nonce, s2) = put_nonce env raw s1
                     in (case nonce of
                           None \<Rightarrow> (Text 500 ''enrollment token create failed'', s2)
                         | Some n \<Rightarrow>
                             (Redirect (''/admin/worker-keys/created?node='' @ QueryEscape (tok_NodeName et)
                                @ ''&nonce='' @ QueryEscape n) NoCookie, s2)))))"

definition workerKeyCreatedPage :: "adm_env \<Rightarrow> string \<Rightarrow> string \<Rightarrow> AdminServer \<Rightarrow> adm_response \<times> AdminServer" where
  "workerKeyCreatedPage env node nonce s =
     (case nonce_take (a_now env) nonce (adm_nonces s) of
        (None, m) \<Rightarrow> (Redirect ''/admin/worker-keys'' NoCookie, s\<lparr>adm_nonces := m\<rparr>)
      | (Some raw, m) \<Rightarrow> (Page (WorkerKeyCreated node raw), s\<lparr>adm_nonces := m\<rparr>))"

definition workerKeyRevoke :: "adm_env \<Rightarrow> string \<Rightarrow> AdminServer \<Rightarrow> adm_response \<times> AdminServer" where
  "workerKeyRevoke env i s =
     (if \<not> adm_enrollments s then (Panicked, s) else
      case Enrollment_Revoke (a_fault env) (a_rfault env) i (adm_db s) of
        (Some _, d) \<Rightarrow> (Redirect (''/admin/worker-keys?error='' @ QueryEscape ''no such token'') NoCookie, s\<lparr>adm_db := d\<rparr>)
      | (None, d) \<Rightarrow>
          (Redirect ''/admin/worker-keys'' NoCookie,
           record_event env (blank_event\<lparr>ae_Event := ''enrollment_revoked'', ae_Detail := i,
              ae_RemoteIP := a_ip env, ae_StatusCode := 200\<rparr>) (s\<lparr>adm_db := d\<rparr>)))"

section \<open>The routes\<close>

text \<open>
  \<open>staticJS\<close> (\<open>static.go\<close>): an embedded script and its \<open>Cache-Control\<close>; \<open>a_static\<close> are the
  embedded files.
\<close>

definition staticJS :: "adm_env \<Rightarrow> string \<Rightarrow> bool \<Rightarrow> adm_response" where
  "staticJS env name immutable =
     (case a_static env (''static/'' @ name) of
        None \<Rightarrow> Text 404 ''not found''
      | Some data \<Rightarrow> Script data (if immutable then ''public, max-age=31536000, immutable'' else ''no-cache''))"

text \<open>
  \<open>registerRoutes\<close>: the two scripts, login and logout are reachable by anyone, every other route
  goes through the guard first. A request is the route with the parameters its handler reads.
\<close>

datatype adm_request =
    GetHtmx
  | GetCopyJS
  | GetLogin
  | PostLogin string
  | PostLogout
  | GetHome
  | GetNodes string string
  | GetNode string
  | GetAudit
  | GetKeys string
  | PostKeys string
  | GetKeyCreated string
  | PostKeyRevoke string
  | GetWorkerKeys string
  | PostWorkerKeys string string
  | GetWorkerKeyCreated string string
  | PostWorkerKeyRevoke string

fun guarded :: "adm_env \<Rightarrow> string \<Rightarrow> adm_request \<Rightarrow> AdminServer \<Rightarrow> adm_response \<times> AdminServer" where
  "guarded env keyID GetHome s = (Page (home (a_nodes env) (a_claims env)), s)"
| "guarded env keyID (GetNodes hx boosted) s = (Page (nodesPage hx boosted (a_nodes env) (a_claims env)), s)"
| "guarded env keyID (GetNode i) s = (nodeDetailPage i (a_nodes env) (a_claims env), s)"
| "guarded env keyID GetAudit s = (auditPage env s, s)"
| "guarded env keyID (GetKeys err) s = (keysPage env err s, s)"
| "guarded env keyID (PostKeys name) s = keysCreate env name s"
| "guarded env keyID (GetKeyCreated n) s = keyCreatedPage env n s"
| "guarded env keyID (PostKeyRevoke i) s = keyRevoke env keyID i s"
| "guarded env keyID (GetWorkerKeys err) s = (workerKeysPage env err s, s)"
| "guarded env keyID (PostWorkerKeys node ttl) s = workerKeysCreate env node ttl s"
| "guarded env keyID (GetWorkerKeyCreated node n) s = workerKeyCreatedPage env node n s"
| "guarded env keyID (PostWorkerKeyRevoke i) s = workerKeyRevoke env i s"
| "guarded env keyID _ s = (Text 404 ''Not Found'', s)"

definition registerRoutes :: "adm_env \<Rightarrow> string \<Rightarrow> adm_request \<Rightarrow> AdminServer \<Rightarrow> adm_response \<times> AdminServer" where
  "registerRoutes env cookie req s =
     (case req of
        GetHtmx \<Rightarrow> (staticJS env ''htmx.min.js'' True, s)
      | GetCopyJS \<Rightarrow> (staticJS env ''copy.js'' False, s)
      | GetLogin \<Rightarrow> (loginForm, s)
      | PostLogin password \<Rightarrow> loginSubmit env password s
      | PostLogout \<Rightarrow> (logout, s)
      | _ \<Rightarrow>
          (case requireSession env cookie s of
             Inl r \<Rightarrow> (r, s)
           | Inr keyID \<Rightarrow> guarded env keyID req s))"

text \<open>One request of a run: its environment, the cookie it carries and the route.\<close>

type_synonym adm_call = "adm_env \<times> string \<times> adm_request"

definition adm_step :: "adm_call \<Rightarrow> AdminServer \<Rightarrow> AdminServer" where
  "adm_step c s = (case c of (env, cookie, req) \<Rightarrow> snd (registerRoutes env cookie req s))"

fun public_route :: "adm_request \<Rightarrow> bool" where
  "public_route GetHtmx = True"
| "public_route GetCopyJS = True"
| "public_route GetLogin = True"
| "public_route (PostLogin _) = True"
| "public_route PostLogout = True"
| "public_route _ = False"

section \<open>What the handlers leave alone\<close>

lemma record_event_other [simp]:
  "api_keys (adm_db (record_event env e s)) = api_keys (adm_db s)"
  "node_enrollment_tokens (adm_db (record_event env e s)) = node_enrollment_tokens (adm_db s)"
  "adm_nonces (record_event env e s) = adm_nonces s"
  "adm_hmac (record_event env e s) = adm_hmac s"
  "adm_limiter (record_event env e s) = adm_limiter s"
  by (auto simp: record_event_def RecordAdminEvent_def insert_admin_event_def split: sum.splits option.splits if_splits)

lemma put_nonce_db [simp]: "adm_db (snd (put_nonce env raw s)) = adm_db s"
  by (simp add: put_nonce_def split: prod.splits)

lemma loginSubmit_tables [simp]:
  "api_keys (adm_db (snd (loginSubmit env pw s))) = api_keys (adm_db s)"
  "node_enrollment_tokens (adm_db (snd (loginSubmit env pw s))) = node_enrollment_tokens (adm_db s)"
  by (auto simp: loginSubmit_def Let_def split: prod.splits sum.splits)

lemma created_pages_db [simp]:
  "adm_db (snd (keyCreatedPage env n s)) = adm_db s"
  "adm_db (snd (workerKeyCreatedPage env node n s)) = adm_db s"
  by (auto simp: keyCreatedPage_def workerKeyCreatedPage_def split: prod.splits option.splits)

text \<open>A key operation that was not performed at all is one that failed.\<close>

abbreviation key_noop :: key_op where "key_noop \<equiv> MakeAdmin (Some ''not run'') ''''"
abbreviation token_noop :: token_op where "token_noop \<equiv> RevokeToken (Some ''not run'') None ''''"

lemma noops [simp]: "key_step argon key_noop d = d" "token_step v4sign token_noop d = d"
  by (simp_all add: update_api_key_def Enrollment_Revoke_db)

lemma keysCreate_tables:
  "\<exists>op. api_keys (adm_db (snd (keysCreate env name s))) = api_keys (key_step (a_argon env) op (adm_db s)) \<and>
     (\<forall>t f rf k. op \<noteq> RevokeKey t f rf k)"
  "node_enrollment_tokens (adm_db (snd (keysCreate env name s))) = node_enrollment_tokens (adm_db s)"
proof -
  let ?op = "CreateKey (a_salt env) (a_uuid env) (a_now env) (a_fault env) (strings_TrimSpace name) (GenerateAPIKey (a_key_rand env))"
  show "\<exists>op. api_keys (adm_db (snd (keysCreate env name s))) = api_keys (key_step (a_argon env) op (adm_db s)) \<and>
     (\<forall>t f rf k. op \<noteq> RevokeKey t f rf k)"
  proof (cases "strings_TrimSpace name = ''''")
    case True
    then show ?thesis
      by (intro exI [of _ key_noop]) (simp add: keysCreate_def update_api_key_def)
  next
    case False
    then show ?thesis
      by (intro exI [of _ ?op])
        (auto simp: keysCreate_def Let_def put_nonce_def split: sum.splits prod.splits option.splits)
  qed
  show "node_enrollment_tokens (adm_db (snd (keysCreate env name s))) = node_enrollment_tokens (adm_db s)"
    by (auto simp: keysCreate_def Let_def put_nonce_def dest!: APIKey_Create_InrD split: sum.splits prod.splits option.splits)
qed

lemma keyRevoke_tables:
  "api_keys (adm_db (snd (keyRevoke env me i s))) =
     (if i = me then api_keys (adm_db s)
      else api_keys (key_step (a_argon env) (RevokeKey (a_now env) (a_fault env) (a_rfault env) i) (adm_db s)))"
  "node_enrollment_tokens (adm_db (snd (keyRevoke env me i s))) = node_enrollment_tokens (adm_db s)"
  using APIKey_Revoke_db [of "a_now env" "a_fault env" "a_rfault env" i "adm_db s"]
  by (auto simp: keyRevoke_def split: prod.splits option.splits if_splits)

lemma workerKeysCreate_tables:
  "api_keys (adm_db (snd (workerKeysCreate env node ttl s))) = api_keys (adm_db s)"
  "\<exists>op. node_enrollment_tokens (adm_db (snd (workerKeysCreate env node ttl s))) =
     node_enrollment_tokens (token_step (a_v4sign env) op (adm_db s))"
proof -
  show "api_keys (adm_db (snd (workerKeysCreate env node ttl s))) = api_keys (adm_db s)"
    by (auto simp: workerKeysCreate_def Let_def put_nonce_def
        dest!: Enrollment_Create_InrD split: sum.splits prod.splits option.splits)
  show "\<exists>op. node_enrollment_tokens (adm_db (snd (workerKeysCreate env node ttl s))) =
     node_enrollment_tokens (token_step (a_v4sign env) op (adm_db s))"
  proof (cases "strings_TrimSpace node = '''' \<or> workerKeyTTL ttl = None \<or> \<not> adm_enrollments s")
    case True
    then show ?thesis
      by (intro exI [of _ token_noop])
        (auto simp: workerKeysCreate_def Enrollment_Revoke_db Let_def split: option.splits)
  next
    case False
    then show ?thesis
      by (intro exI [of _ "CreateToken (a_uuid env) (a_now env) (a_now env) (a_fault env) (strings_TrimSpace node)
            (the (workerKeyTTL ttl))"])
        (auto simp: workerKeysCreate_def Let_def put_nonce_def split: sum.splits prod.splits option.splits)
  qed
qed

lemma workerKeyRevoke_tables:
  "api_keys (adm_db (snd (workerKeyRevoke env i s))) = api_keys (adm_db s)"
  "node_enrollment_tokens (adm_db (snd (workerKeyRevoke env i s))) =
     (if adm_enrollments s then
        node_enrollment_tokens (token_step (a_v4sign env) (RevokeToken (a_fault env) (a_rfault env) i) (adm_db s))
      else node_enrollment_tokens (adm_db s))"
  using Enrollment_Revoke_db [of "a_fault env" "a_rfault env" i "adm_db s"]
  by (auto simp: workerKeyRevoke_def split: prod.splits option.splits if_splits)

lemmas handler_tables =
  keysCreate_tables keyRevoke_tables workerKeysCreate_tables workerKeyRevoke_tables

lemma guarded_key_op:
  "\<exists>op. api_keys (adm_db (snd (guarded env me req s))) = api_keys (key_step (a_argon env) op (adm_db s)) \<and>
     (\<forall>t f rf. op \<noteq> RevokeKey t f rf me)"
proof -
  have idle: "\<exists>op. api_keys (adm_db s) = api_keys (key_step (a_argon env) op (adm_db s)) \<and>
      (\<forall>t f rf. op \<noteq> RevokeKey t f rf me)"
    by (rule exI [of _ key_noop]) (simp add: update_api_key_def)
  show ?thesis
  proof (cases req)
    case (PostKeys name)
    then show ?thesis
      using keysCreate_tables(1) [of env name s] by auto
  next
    case (PostKeyRevoke i)
    then show ?thesis
      using idle by (cases "i = me") (auto simp: keyRevoke_tables simp del: key_step.simps)
  qed (use idle in \<open>simp_all add: handler_tables\<close>)
qed

lemma guarded_token_op:
  "\<exists>op. node_enrollment_tokens (adm_db (snd (guarded env me req s))) =
     node_enrollment_tokens (token_step (a_v4sign env) op (adm_db s))"
proof -
  have idle: "\<exists>op. node_enrollment_tokens (adm_db s) = node_enrollment_tokens (token_step (a_v4sign env) op (adm_db s))"
    by (rule exI [of _ token_noop]) (simp add: Enrollment_Revoke_db)
  show ?thesis
  proof (cases req)
    case (PostWorkerKeys node ttl)
    then show ?thesis
      using workerKeysCreate_tables(2) [of env node ttl s] by simp
  next
    case (PostWorkerKeyRevoke i)
    then show ?thesis
      using idle by (cases "adm_enrollments s") (auto simp: workerKeyRevoke_tables simp del: token_step.simps)
  qed (use idle in \<open>simp_all add: handler_tables\<close>)
qed

lemma registerRoutes_cases:
  obtains (idle) "snd (registerRoutes env cookie req s) = s"
  | (login) pw where "req = PostLogin pw" "registerRoutes env cookie req s = loginSubmit env pw s"
  | (session) k where "requireSession env cookie s = Inr k" "registerRoutes env cookie req s = guarded env k req s"
  by (cases req; cases "requireSession env cookie s") (auto simp: registerRoutes_def loginForm_def)

lemma key_tables_cong:
  assumes "api_keys d = api_keys d'"
  shows "key_revoked d k = key_revoked d' k" "key_active t k d = key_active t k d'"
  using assms by (simp_all add: key_revoked_def key_active_iff)

lemma token_tables_cong:
  assumes "node_enrollment_tokens d = node_enrollment_tokens d'"
  shows "token_revoked d k = token_revoked d' k" "token_active t k d = token_active t k d'"
  using assms by (simp_all add: token_revoked_def token_active_iff)

lemma adm_step_key_revoked:
  assumes "key_revoked (adm_db s) k"
  shows "key_revoked (adm_db (adm_step c s)) k"
proof -
  obtain env cookie req where c: "c = (env, cookie, req)"
    by (cases c)
  show ?thesis
  proof (cases rule: registerRoutes_cases [of env cookie req s])
    case (session me)
    then show ?thesis
      using guarded_key_op [of env me req s] key_revoked_step [OF assms]
      by (auto simp: c adm_step_def cong: key_tables_cong)
  qed (use assms in \<open>auto simp: c adm_step_def cong: key_tables_cong\<close>)
qed

lemma adm_step_token_revoked:
  assumes "token_revoked (adm_db s) k"
  shows "token_revoked (adm_db (adm_step c s)) k"
proof -
  obtain env cookie req where c: "c = (env, cookie, req)"
    by (cases c)
  show ?thesis
  proof (cases rule: registerRoutes_cases [of env cookie req s])
    case (session me)
    then show ?thesis
      using guarded_token_op [of env me req s] token_revoked_step [OF assms]
      by (auto simp: c adm_step_def cong: token_tables_cong)
  qed (use assms in \<open>auto simp: c adm_step_def cong: token_tables_cong\<close>)
qed

text \<open>The dashboard as a whole is a credential store: no request undoes a revocation.\<close>

interpretation dashboard_keys: credential_store
  "\<lambda>s k. key_revoked (adm_db s) k" "\<lambda>t k s. key_active t k (adm_db s)" adm_step
  by unfold_locales
    (auto intro: adm_step_key_revoked dest: api_key_store.revoked_inactive api_key_store.active_earlier)

interpretation dashboard_tokens: credential_store
  "\<lambda>s k. token_revoked (adm_db s) k" "\<lambda>t k s. token_active t k (adm_db s)" adm_step
  by unfold_locales
    (auto intro: adm_step_token_revoked dest: token_store.revoked_inactive token_store.active_earlier)

lemma dashboard_revoke_revokes:
  assumes "keyRevoke env me i s = (Redirect ''/admin/keys'' NoCookie, s')"
  shows "key_revoked (adm_db s') i"
proof -
  obtain d where d: "APIKey_Revoke (a_now env) (a_fault env) (a_rfault env) i (adm_db s) = (None, d)"
    and s': "s' = record_event env (login_event env ''key_revoked'' i 200) (s\<lparr>adm_db := d\<rparr>)"
    using assms by (auto simp: keyRevoke_def split: if_splits prod.splits option.splits)
  show ?thesis
    using APIKey_Revoke_revokes [OF d] by (simp add: s' cong: key_tables_cong)
qed

lemma dashboard_token_revoke_revokes:
  assumes "workerKeyRevoke env i s = (Redirect ''/admin/worker-keys'' NoCookie, s')"
  shows "token_revoked (adm_db s') i"
proof -
  obtain d where d: "Enrollment_Revoke (a_fault env) (a_rfault env) i (adm_db s) = (None, d)"
    and s': "\<exists>ev. s' = record_event env ev (s\<lparr>adm_db := d\<rparr>)"
    using assms by (auto simp: workerKeyRevoke_def split: if_splits prod.splits option.splits)
  show ?thesis
    using Enrollment_Revoke_revokes [OF d] s' by (auto cong: token_tables_cong)
qed

lemma key_revoked_no_session:
  assumes "key_revoked (adm_db s) i"
  shows "requireSession env cookie s \<noteq> Inr i"
proof -
  have "\<not> key_active (a_now env) i (adm_db s)"
    using assms by (rule api_key_store.revoked_inactive)
  then have "APIKey_ActiveByID (a_now env) (a_qfault env) i (adm_db s) \<noteq> Inr True"
    by (auto simp: key_active_def APIKey_ActiveByID_def split: option.splits)
  then show ?thesis
    by (auto simp: requireSession_def split: sum.splits bool.splits option.splits)
qed

lemma key_active_step:
  assumes "key_active t k d" "\<And>now f rf. op \<noteq> RevokeKey now f rf k"
  shows "key_active t k (key_step argon op d)"
proof -
  obtain r where r: "List.find (\<lambda>r. ak_id r = k) (api_keys d) = Some r" "ak_status r = ''active''"
      "\<not> expired (ak_expires_at r) t"
    using assms(1) unfolding key_active_iff by blast
  note r = r find_idE(2) [OF r(1)]
  show ?thesis
  proof (cases op)
    case (CreateKey salt uuid now fault name raw)
    then show ?thesis
      using r assms(1) by (auto simp: key_active_iff find_append dest!: APIKey_Create_InrD split: sum.splits)
  next
    case (RevokeKey now f rf j)
    then have "j \<noteq> k"
      using assms(2) by auto
    then show ?thesis
      using r RevokeKey by (auto simp: key_active_iff APIKey_Revoke_db find_update_rows)
  next
    case (MakeAdmin f j)
    then show ?thesis
      using r by (auto simp: key_active_iff update_api_key_def find_update_rows split: option.splits)
  qed
qed

lemma record_event_logs:
  assumes "a_event_fault env = None" "ae_APIKeyID e = '''' \<or> ae_APIKeyID e \<in> ak_id ` set (api_keys (adm_db s))"
  shows "\<exists>r. admin_audit_logs (adm_db (record_event env e s)) = admin_audit_logs (adm_db s) @ [r] \<and>
    ad_event r = ae_Event e \<and> ad_api_key_id r = nullable (ae_APIKeyID e) \<and> ad_remote_ip r = nullable (ae_RemoteIP e) \<and>
    ad_status_code r = ae_StatusCode e \<and> ad_detail r = nullable (ae_Detail e) \<and> ad_created_at r = a_now env"
  using assms
  by (auto simp: record_event_def RecordAdminEvent_def insert_admin_event_def fk_ok_def nullable_def)

lemma login_event_simps [simp]:
  "ae_Event (login_event env name k st) = name" "ae_APIKeyID (login_event env name k st) = k"
  "ae_RemoteIP (login_event env name k st) = a_ip env" "ae_StatusCode (login_event env name k st) = st"
  by (simp_all add: login_event_def)

text \<open>The outcome of a login attempt: the answer and the event it is recorded as.\<close>

definition login_outcome :: "adm_env \<Rightarrow> string \<Rightarrow> AdminServer \<Rightarrow> adm_response \<times> AdminEvent" where
  "login_outcome env pw s =
     (if \<not> fst (Allow (a_now env) (a_ip env) (adm_limiter s)) then
        (Text 429 ''too many login attempts'', login_event env ''login_throttled'' '''' 429)
      else if strings_TrimSpace pw = '''' then (Text 401 ''missing api key'', login_event env ''login_failed'' '''' 401)
      else
        (case APIKey_Verify (a_argon env) (a_ord env) (a_now env) (a_qfault env) (a_ifault env) (strings_TrimSpace pw) (adm_db s) of
           Inl _ \<Rightarrow> (Text 401 ''invalid admin key'', login_event env ''login_failed'' '''' 401)
         | Inr ak \<Rightarrow>
             if key_Role ak \<noteq> ''admin'' then
               (Text 401 ''invalid admin key'', login_event env ''login_failed'' (key_ID ak) 401)
             else
               (Redirect ''/admin'' (SetCookie (issueSessionCookie (adm_hmac s) (a_now env) (key_ID ak))),
                login_event env ''login_ok'' (key_ID ak) 303)))"

lemma loginSubmit_outcome:
  "loginSubmit env pw s =
     (fst (login_outcome env pw s),
      record_event env (snd (login_outcome env pw s))
        (s\<lparr>adm_limiter := snd (Allow (a_now env) (a_ip env) (adm_limiter s))\<rparr>))"
  by (cases "Allow (a_now env) (a_ip env) (adm_limiter s)")
    (auto simp: loginSubmit_def login_outcome_def Let_def split: sum.splits)

section \<open>Minting\<close>

lemma QueryEscape_append: "QueryEscape (s @ s') = QueryEscape s @ QueryEscape s'"
  by (simp add: QueryEscape_def)

lemma QueryEscape_id: "\<forall>c \<in> set s. unreserved c \<Longrightarrow> QueryEscape s = s"
  by (induction s) (simp_all add: QueryEscape_def)

lemma QueryEscape_nonce [simp]: "QueryEscape (base64_encode encodeURL b) = base64_encode encodeURL b"
proof (rule QueryEscape_id, rule ballI)
  fix c assume "c \<in> set (base64_encode encodeURL b)"
  then have "c \<in> set encodeURL"
    using base64_encode_chars [OF alphabet_ok_URL, of b] by blast
  then show "unreserved c"
    by (auto simp: encodeURL_def unreserved_def)
qed

lemma keysCreate_createdD:
  assumes "keysCreate env name s = (Redirect (''/admin/keys/created?nonce='' @ q) NoCookie, s1)"
  obtains ak d b where
    "APIKey_Create (a_argon env) (a_salt env) (a_uuid env) (a_now env) (a_fault env) (strings_TrimSpace name)
       (GenerateAPIKey (a_key_rand env)) (adm_db s) = Inr (ak, d)"
    "api_keys (adm_db s1) = api_keys d"
    "nonce_put (a_nonce_ord env) (Some b) (a_now env) (a_now env) (GenerateAPIKey (a_key_rand env)) (adm_nonces s) =
       (Some q, adm_nonces s1)"
  using assms
  by (auto simp: keysCreate_def put_nonce_def nonce_put_def Let_def split: if_splits sum.splits option.splits prod.splits)

lemma nonce_put_key: "nonce_put ord (Some b) now now' v m = (Some q, m') \<Longrightarrow> base64_encode encodeURL b = q"
  by (simp add: nonce_put_def Let_def)

lemma workerKeysCreate_refused:
  "strings_TrimSpace node = '''' \<or> workerKeyTTL ttl = None \<Longrightarrow>
   \<exists>e. workerKeysCreate env node ttl s = (Redirect (''/admin/worker-keys?error='' @ e) NoCookie, s)"
  by (cases "strings_TrimSpace node = ''''") (auto simp: workerKeysCreate_def Let_def)

lemma workerKeyTTL_eq:
  "workerKeyTTL v = map_of [('''', 0), (''24h'', 24 * Hour), (''72h'', 72 * Hour), (''168h'', 168 * Hour),
     (''720h'', 720 * Hour), (''2160h'', 2160 * Hour), (''none'', 0)] v"
  by (simp add: workerKeyTTL_def workerKeyTTLs_def Let_def)

section \<open>The merged listing\<close>

lemma claim_view_simps [simp]: "nv_ID (claim_view c) = ce_nodeID c" "nv_Status (claim_view c) = ''connecting''"
  by (simp_all add: claim_view_def)

lemma NodesSnapshot_ids:
  assumes "nodes_inv r" "NodesSnapshot now r = Inr ns"
  shows "map nv_ID ns = order r"
  using assms entries_ids [OF assms(1)] by (auto simp: NodesSnapshot_def snapshot_eq node_view_def comp_def)

lemma ClaimsSnapshot_ids:
  assumes "claims_inv r" "range_order ord"
  shows "set (map nv_ID (ClaimsSnapshot ord now r)) =
      {i. \<exists>c. map_of (claims_tbl r) i = Some c \<and> time_sub now (ce_lastAttempt c) \<le> claimExpiry}"
    and "distinct (map nv_ID (ClaimsSnapshot ord now r))"
proof -
  let ?ok = "\<lambda>c. time_sub now (ce_lastAttempt c) \<le> claimExpiry"
  let ?tbl = "filter (\<lambda>p. ?ok (snd p)) (ord (claims_tbl r))"
  have wf: "distinct (map fst (claims_tbl r))" and ident: "\<And>i c. (i, c) \<in> set (claims_tbl r) \<Longrightarrow> ce_nodeID c = i"
    using assms(1) by (auto simp: claims_inv_def map_wf_def)
  have snap: "map nv_ID (ClaimsSnapshot ord now r) = map (ce_nodeID \<circ> snd) ?tbl"
    by (simp add: ClaimsSnapshot_def registry_ClaimsSnapshot_def filter_map comp_def)
  also have keys: "\<dots> = map fst ?tbl"
    using ident by (auto simp: range_order_set [OF assms(2)])
  finally have eq: "map nv_ID (ClaimsSnapshot ord now r) = map fst ?tbl" .
  show "set (map nv_ID (ClaimsSnapshot ord now r)) = {i. \<exists>c. map_of (claims_tbl r) i = Some c \<and> ?ok c}"
    unfolding eq using wf by (force simp: range_order_set [OF assms(2)])
  have "distinct (map fst (ord (claims_tbl r)))"
    using wf assms(2) by (metis mset_map mset_eq_imp_distinct_iff range_order_def)
  then show "distinct (map nv_ID (ClaimsSnapshot ord now r))"
    unfolding eq by (rule distinct_map_filter)
qed

lemma fleetView_ids:
  "map nv_ID (fleetView ns (Some cs)) = map nv_ID ns @ filter (\<lambda>i. i \<notin> set (map nv_ID ns)) (map nv_ID cs)"
  by (simp add: fleetView_def filter_map comp_def)

section \<open>A dashboard with one admin key and one client key\<close>

definition sample_hash :: "string \<Rightarrow> string" where
  "sample_hash raw = phcEncode [7] (sample_argon (bytes_of_string raw) [7] argonTime argonMemory argonThreads argonKeyLen)"

definition sample_key_row :: "string \<Rightarrow> string \<Rightarrow> string \<Rightarrow> api_key_row" where
  "sample_key_row i role raw =
     \<lparr>ak_id = i, ak_name = i, ak_token_hash = sample_hash raw, ak_prefix = PrefixOf raw, ak_role = role,
      ak_status = ''active'', ak_expires_at = None, ak_created_at = 1, ak_updated_at = 1\<rparr>"

definition sample_admin :: AdminServer where
  "sample_admin =
     newAdmin (empty_db\<lparr>api_keys := [sample_key_row ''k1'' ''admin'' ''sk-mesh-0123456789'',
                                 sample_key_row ''k2'' ''client'' ''sk-mesh-abcdefghij'']\<rparr>) (\<lambda>b. b) True"

definition sample_adm_env :: adm_env where
  "sample_adm_env =
     \<lparr>a_now = 5, a_ip = ''10.0.0.1'', a_argon = sample_argon, a_ord = (\<lambda>rs. rs), a_qfault = None, a_ifault = None,
      a_fault = None, a_rfault = None, a_event_fault = None, a_uuid = ''u1'', a_key_rand = [1, 2], a_salt = Some [9],
      a_nonce_rand = Some [3], a_nonce_ord = (\<lambda>m. m), a_v4sign = cl_jti_text, a_nodes = [], a_claims = None, a_static = (\<lambda>_. None)\<rparr>"

definition sample_cookie :: "string \<Rightarrow> string" where
  "sample_cookie k = issueSessionCookie (\<lambda>b. b) 0 k"

lemma sample_hash_verifies: "VerifyAPIKey sample_argon raw (sample_hash raw) = Inr True"
  unfolding sample_hash_def VerifyAPIKey_phcEncode length_sample_argon by (simp add: argonKeyLen_def)

lemma sample_hash_fresh: "salt \<noteq> [7] \<Longrightarrow> phcEncode salt hash \<noteq> sample_hash raw"
  unfolding sample_hash_def
  by (metis Pair_inject phcDecode_phcEncode sum.inject(2))

lemma sample_session:
  assumes "CHR ''|'' \<notin> set k"
  shows "verifySessionCookie (\<lambda>b. b) 5 (sample_cookie k) = Some k"
  using issued_cookie_verifies [OF assms, of 0 "\<lambda>b. b" 5]
  by (simp add: sample_cookie_def sessionTTL_def unix_def)

lemma sample_admin_simps [simp]:
  "adm_hmac sample_admin = (\<lambda>b. b)" "adm_nonces sample_admin = []" "adm_enrollments sample_admin"
  "api_keys (adm_db sample_admin) = [sample_key_row ''k1'' ''admin'' ''sk-mesh-0123456789'',
     sample_key_row ''k2'' ''client'' ''sk-mesh-abcdefghij'']"
  "a_now sample_adm_env = 5"
  by (simp_all add: sample_admin_def sample_adm_env_def newAdmin_def)

lemma sample_require:
  "requireSession sample_adm_env (sample_cookie ''k1'') sample_admin = Inr ''k1''"
  by (simp add: requireSession_def sample_session APIKey_ActiveByID_def sample_key_row_def expired_def
      sample_adm_env_def)

lemma sample_active: "key_active t ''k1'' (adm_db sample_admin)"
  by (simp add: key_active_iff sample_key_row_def expired_def)

lemma sample_revoke:
  "\<exists>s1. keyRevoke sample_adm_env ''k1'' ''k2'' sample_admin = (Redirect ''/admin/keys'' NoCookie, s1) \<and> adm_hmac s1 = (\<lambda>b. b)"
proof -
  obtain d where "APIKey_Revoke 5 None None ''k2'' (adm_db sample_admin) = (None, d)"
    by (simp add: APIKey_Revoke_def update_api_key_def sample_key_row_def)
  then show ?thesis
    by (simp add: keyRevoke_def sample_adm_env_def)
qed

section \<open>Properties\<close>

text \<open>
  C25: no route but the two scripts, login and logout answers anything else than the redirect to
  the login page, or changes anything, unless the request carries a cookie with the server's MAC over a key id
  and an expiry that has not passed, and that key is active at this moment.
\<close>
theorem dashboard_guarded:
  assumes "\<not> public_route req"
    and "registerRoutes env cookie req s \<noteq> (Redirect ''/admin/login'' NoCookie, s)"
  shows "\<exists>k ex n. cookie = (k @ ''|'' @ ex) @ ''|'' @ hex_EncodeToString (adm_hmac s (bytes_of_string (k @ ''|'' @ ex))) \<and>
    ParseInt64 ex = Inr n \<and> unix (a_now env) \<le> n \<and> key_active (a_now env) k (adm_db s)"
proof -
  obtain k where k: "requireSession env cookie s = Inr k"
    using assms by (cases req) (auto simp: registerRoutes_def loginForm_def requireSession_def split: option.splits sum.splits bool.splits)
  then have v: "verifySessionCookie (adm_hmac s) (a_now env) cookie = Some k"
    and a: "APIKey_ActiveByID (a_now env) (a_qfault env) k (adm_db s) = Inr True"
    by (auto simp: requireSession_def split: option.splits sum.splits bool.splits)
  from a have "key_active (a_now env) k (adm_db s)"
    by (auto simp: key_active_def APIKey_ActiveByID_def split: option.splits)
  then show ?thesis
    using verifySessionCookie_SomeD [OF v] by blast
qed

theorem dashboard_guarded_witness:
  "\<exists>k ex n. sample_cookie ''k1'' = (k @ ''|'' @ ex) @ ''|'' @ hex_EncodeToString (bytes_of_string (k @ ''|'' @ ex)) \<and>
     ParseInt64 ex = Inr n \<and> unix 5 \<le> n \<and> key_active 5 k (adm_db sample_admin)"
proof -
  have "registerRoutes sample_adm_env (sample_cookie ''k1'') GetHome sample_admin =
      (Page (HomePage [] 0), sample_admin)"
    by (simp add: registerRoutes_def loginForm_def sample_require home_def fleetView_def)
      (simp add: sample_adm_env_def)
  then show ?thesis
    using dashboard_guarded [of GetHome sample_adm_env "sample_cookie ''k1''" sample_admin] by simp
qed

text \<open>
  Revoking a key on the dashboard ends its sessions for good: after the revocation was
  answered with the key list, and whatever requests are served in between, a request with any
  cookie of that key is sent to the login page and changes nothing.
\<close>
lemma revocation_ends_sessions:
  assumes "keyRevoke env me k s = (Redirect ''/admin/keys'' NoCookie, s1)"
    and "s2 = fold adm_step calls s1" "\<not> public_route req"
    and "verifySessionCookie (adm_hmac s2) (a_now env2) cookie = Some k"
  shows "registerRoutes env2 cookie req s2 = (Redirect ''/admin/login'' NoCookie, s2)"
proof -
  have "key_revoked (adm_db s2) k"
    unfolding assms(2) using dashboard_revoke_revokes [OF assms(1)] by (rule dashboard_keys.revoked_run)
  then have "requireSession env2 cookie s2 \<noteq> Inr k"
    by (rule key_revoked_no_session)
  then have "requireSession env2 cookie s2 = Inl (Redirect ''/admin/login'' NoCookie)"
    using assms(4) by (auto simp: requireSession_def split: sum.splits bool.splits)
  then show ?thesis
    using assms(3) by (cases req) (simp_all add: registerRoutes_def loginForm_def)
qed

lemma revocation_ends_sessions_instance:
  "\<exists>s1. keyRevoke sample_adm_env ''k1'' ''k2'' sample_admin = (Redirect ''/admin/keys'' NoCookie, s1) \<and>
     registerRoutes sample_adm_env (sample_cookie ''k2'') GetHome s1 = (Redirect ''/admin/login'' NoCookie, s1)"
proof -
  obtain s1 where s1: "keyRevoke sample_adm_env ''k1'' ''k2'' sample_admin = (Redirect ''/admin/keys'' NoCookie, s1)"
      "adm_hmac s1 = (\<lambda>b. b)"
    using sample_revoke by blast
  have "registerRoutes sample_adm_env (sample_cookie ''k2'') GetHome s1 = (Redirect ''/admin/login'' NoCookie, s1)"
    by (rule revocation_ends_sessions [OF s1(1), of s1 "[]"]) (simp_all add: s1(2) sample_session)
  with s1(1) show ?thesis by blast
qed

text \<open>
  No lock-out. A request made in the session of a key never makes that key inactive, at
  this or any other time at which it was active before.
\<close>
lemma session_key_survives:
  assumes "requireSession env cookie s = Inr k" "key_active t k (adm_db s)"
  shows "key_active t k (adm_db (snd (registerRoutes env cookie req s)))"
proof (cases rule: registerRoutes_cases [of env cookie req s])
  case (session me)
  then have me: "me = k"
    using assms(1) by simp
  obtain op where "api_keys (adm_db (snd (guarded env k req s))) = api_keys (key_step (a_argon env) op (adm_db s))"
    "\<And>now f rf. op \<noteq> RevokeKey now f rf k"
    using guarded_key_op [of env k req s] by blast
  then show ?thesis
    using key_active_step [OF assms(2), of op "a_argon env"] session(2) me by (simp cong: key_tables_cong)
qed (use assms(2) in \<open>simp_all cong: key_tables_cong\<close>)

lemma session_key_survives_instance:
  "key_active 9 ''k1'' (adm_db (snd (registerRoutes sample_adm_env (sample_cookie ''k1'') (PostKeyRevoke ''k1'') sample_admin)))"
  by (rule session_key_survives [OF sample_require sample_active])

text \<open>
  Every login attempt leaves exactly one line in the admin log, with the caller's address
  and the status it was answered with; the attempt is let in, with a session cookie for the
  key, exactly when it was not throttled and the token verifies as a key of role admin, and the
  line then names that key, which is active and not expired.
\<close>
lemma login_audited:
  assumes "row_order (a_ord env)" "a_event_fault env = None" "loginSubmit env pw s = (resp, s')"
    and ver: "ver = APIKey_Verify (a_argon env) (a_ord env) (a_now env) (a_qfault env) (a_ifault env) (strings_TrimSpace pw) (adm_db s)"
    and throttled: "throttled = (\<not> fst (Allow (a_now env) (a_ip env) (adm_limiter s)))"
    and in_ok: "let_in = (\<not> throttled \<and> strings_TrimSpace pw \<noteq> '''' \<and> (\<exists>ak. ver = Inr ak \<and> key_Role ak = ''admin''))"
  shows "\<exists>e. admin_audit_logs (adm_db s') = admin_audit_logs (adm_db s) @ [e] \<and>
    ad_remote_ip e = nullable (a_ip env) \<and> ad_created_at e = a_now env \<and>
    (if throttled then ad_event e = ''login_throttled'' \<and> resp = Text 429 ''too many login attempts'' \<and> ad_status_code e = 429
     else if let_in then
       \<exists>r \<in> set (api_keys (adm_db s)). ad_event e = ''login_ok'' \<and> ad_status_code e = 303 \<and>
         ad_api_key_id e = nullable (ak_id r) \<and>
         resp = Redirect ''/admin'' (SetCookie (issueSessionCookie (adm_hmac s) (a_now env) (ak_id r))) \<and>
         ak_role r = ''admin'' \<and> ak_status r = ''active'' \<and> \<not> expired (ak_expires_at r) (a_now env) \<and>
         VerifyAPIKey (a_argon env) (strings_TrimSpace pw) (ak_token_hash r) = Inr True
     else ad_event e = ''login_failed'' \<and> ad_status_code e = 401 \<and> (\<exists>m. resp = Text 401 m))"
proof -
  let ?e = "snd (login_outcome env pw s)"
  let ?s1 = "s\<lparr>adm_limiter := snd (Allow (a_now env) (a_ip env) (adm_limiter s))\<rparr>"
  have known: "\<exists>r \<in> set (api_keys (adm_db s)). ak = scan_verify r \<and> ak_status r = ''active'' \<and>
      \<not> expired (ak_expires_at r) (a_now env) \<and>
      VerifyAPIKey (a_argon env) (strings_TrimSpace pw) (ak_token_hash r) = Inr True" if "ver = Inr ak" for ak
    using APIKey_Verify_InrD [OF assms(1)] that unfolding ver by blast
  then have "ae_APIKeyID ?e = '''' \<or> ae_APIKeyID ?e \<in> ak_id ` set (api_keys (adm_db ?s1))"
    by (fastforce simp: login_outcome_def ver split: sum.splits)
  from record_event_logs [OF assms(2) this] obtain e where e:
    "admin_audit_logs (adm_db s') = admin_audit_logs (adm_db s) @ [e]"
    "ad_event e = ae_Event ?e" "ad_api_key_id e = nullable (ae_APIKeyID ?e)" "ad_remote_ip e = nullable (ae_RemoteIP ?e)"
    "ad_status_code e = ae_StatusCode ?e" "ad_created_at e = a_now env"
    using assms(3) by (auto simp: loginSubmit_outcome)
  have resp: "resp = fst (login_outcome env pw s)"
    using assms(3) by (simp add: loginSubmit_outcome)
  have ip: "ae_RemoteIP ?e = a_ip env"
    by (auto simp: login_outcome_def split: sum.splits)
  show ?thesis
  proof (cases "let_in")
    case True
    then obtain ak where ak: "ver = Inr ak" "key_Role ak = ''admin''" "\<not> throttled" "strings_TrimSpace pw \<noteq> ''''"
      unfolding in_ok by blast
    then obtain r where "r \<in> set (api_keys (adm_db s))" "ak = scan_verify r" "ak_status r = ''active''"
        "\<not> expired (ak_expires_at r) (a_now env)"
        "VerifyAPIKey (a_argon env) (strings_TrimSpace pw) (ak_token_hash r) = Inr True"
      using known by blast
    moreover have "login_outcome env pw s =
        (Redirect ''/admin'' (SetCookie (issueSessionCookie (adm_hmac s) (a_now env) (key_ID ak))),
         login_event env ''login_ok'' (key_ID ak) 303)"
      using ak by (simp add: login_outcome_def ver throttled)
    ultimately show ?thesis
      using e resp ip ak True by (intro exI [of _ e]) auto
  next
    case False
    then show ?thesis
      using e resp ip unfolding in_ok
      by (intro exI [of _ e]) (auto simp: login_outcome_def ver throttled split: sum.splits)
  qed
qed

lemma login_audited_instance:
  "\<exists>resp s' e. loginSubmit sample_adm_env ''sk-mesh-0123456789'' sample_admin = (resp, s') \<and>
     admin_audit_logs (adm_db s') = admin_audit_logs (adm_db sample_admin) @ [e] \<and> ad_event e = ''login_ok''"
proof -
  obtain resp s' where l: "loginSubmit sample_adm_env ''sk-mesh-0123456789'' sample_admin = (resp, s')"
    by fastforce
  have trim: "strings_TrimSpace ''sk-mesh-0123456789'' = ''sk-mesh-0123456789''"
    by code_simp
  let ?ver = "APIKey_Verify (a_argon sample_adm_env) (a_ord sample_adm_env) (a_now sample_adm_env)
    (a_qfault sample_adm_env) (a_ifault sample_adm_env) (strings_TrimSpace ''sk-mesh-0123456789'') (adm_db sample_admin)"
  have ver: "?ver = Inr (scan_verify (sample_key_row ''k1'' ''admin'' ''sk-mesh-0123456789''))"
    by (simp add: trim APIKey_Verify_def sample_adm_env_def sample_key_row_def PrefixOf_def keyPrefixLen_def
        sample_hash_verifies expired_def)
  have ok: "fst (Allow (a_now sample_adm_env) (a_ip sample_adm_env) (adm_limiter sample_admin))"
    by (simp add: Allow_def sample_admin_def newAdmin_def newLoginLimiter_def loginLimit_def Let_def)
  show ?thesis
    using l login_audited [OF _ _ l refl refl refl] ver ok trim
    by (auto simp: row_order_def sample_adm_env_def sample_key_row_def)
qed

text \<open>
  C26: a key minted on the dashboard works and is shown once. When \<open>keysCreate\<close> redirects to the
  created page, the raw key verifies as a client key with the name asked for; within five
  minutes the page of that nonce shows exactly that raw key, and a second visit shows nothing.
\<close>
theorem minted_key_revealed_once:
  assumes created: "keysCreate env name s = (Redirect (''/admin/keys/created?nonce='' @ q) NoCookie, s1)"
    and salt: "a_salt env = Some salt" and raw: "raw = GenerateAPIKey (a_key_rand env)"
    and len: "length (a_argon env (bytes_of_string raw) salt argonTime argonMemory argonThreads argonKeyLen) = 32"
    and others: "\<forall>r\<in>set (api_keys (adm_db s)). ak_prefix r = PrefixOf raw \<longrightarrow>
      VerifyAPIKey (a_argon env) raw (ak_token_hash r) = Inr False"
    and ord: "row_order ord" and nonces: "range_order (a_nonce_ord env)" "map_wf (adm_nonces s)"
  shows "(\<exists>ak. APIKey_Verify (a_argon env) ord t None itf raw (adm_db s1) = Inr ak \<and>
      key_Role ak = ''client'' \<and> key_Name ak = strings_TrimSpace name) \<and>
    fst (keyCreatedPage env2 q s1) =
      (if a_now env2 \<le> a_now env + 5 * Minute then Page (KeyCreated raw) else Redirect ''/admin/keys'' NoCookie) \<and>
    fst (keyCreatedPage env3 q (snd (keyCreatedPage env2 q s1))) = Redirect ''/admin/keys'' NoCookie"
proof -
  obtain ak d b where c: "APIKey_Create (a_argon env) (Some salt) (a_uuid env) (a_now env) (a_fault env) (strings_TrimSpace name)
       raw (adm_db s) = Inr (ak, d)"
    and rows: "api_keys (adm_db s1) = api_keys d"
    and put: "nonce_put (a_nonce_ord env) (Some b) (a_now env) (a_now env) raw (adm_nonces s) = (Some q, adm_nonces s1)"
    using created salt unfolding raw by (elim keysCreate_createdD) metis
  have "APIKey_Verify (a_argon env) ord t None itf raw (adm_db s1) = APIKey_Verify (a_argon env) ord t None itf raw d"
    by (simp add: APIKey_Verify_def rows)
  also have "\<dots> = Inr ak"
    using Create_then_Verify [OF c len others ord] .
  finally have ver: "APIKey_Verify (a_argon env) ord t None itf raw (adm_db s1) = Inr ak" .
  have "map_of (adm_nonces s1) q = Some \<lparr>no_value = raw, no_expiresAt = a_now env + nonceTTL\<rparr>"
    using nonce_put_lookup(2) [OF nonces, of "Some b" "a_now env" "a_now env" raw q, unfolded put]
      nonce_put_key [OF put] by simp
  then have page: "fst (keyCreatedPage env2 q s1) =
      (if a_now env2 \<le> a_now env + 5 * Minute then Page (KeyCreated raw) else Redirect ''/admin/keys'' NoCookie)"
    by (auto simp: keyCreatedPage_def nonce_take_def nonceTTL_def)
  have "map_of (adm_nonces (snd (keyCreatedPage env2 q s1))) q = None"
    using nonce_take_lookup(2) [of "a_now env2" q "adm_nonces s1" q]
    by (auto simp: keyCreatedPage_def split: prod.splits option.splits)
  then have "fst (keyCreatedPage env3 q (snd (keyCreatedPage env2 q s1))) = Redirect ''/admin/keys'' NoCookie"
    by (simp add: keyCreatedPage_def nonce_take_def)
  then show ?thesis
    using ver page APIKey_Create_InrD [OF c] by (auto simp: defaultKeyRole_def)
qed

theorem minted_key_revealed_once_witness:
  "\<exists>q s1. keysCreate sample_adm_env ''app'' sample_admin = (Redirect (''/admin/keys/created?nonce='' @ q) NoCookie, s1) \<and>
     fst (keyCreatedPage sample_adm_env q s1) = Page (KeyCreated (GenerateAPIKey [1, 2]))"
proof -
  have raw: "GenerateAPIKey [1, 2] = ''sk-mesh-AQI''"
    by (simp add: GenerateAPIKey_def keyLabel_def sextet_def encodeURL_def)
  have trim: "strings_TrimSpace ''app'' = ''app''"
    by code_simp
  obtain ak d where c: "APIKey_Create sample_argon (Some [9]) ''u1'' 5 None ''app'' (GenerateAPIKey [1, 2]) (adm_db sample_admin)
      = Inr (ak, d)"
    by (simp add: APIKey_Create_def HashAPIKey_def insert_api_key_def sample_key_row_def sample_hash_fresh)
  then obtain q s1 where k: "keysCreate sample_adm_env ''app'' sample_admin =
      (Redirect (''/admin/keys/created?nonce='' @ q) NoCookie, s1)"
    by (simp add: keysCreate_def sample_adm_env_def trim put_nonce_def nonce_put_def Let_def)
  have "fst (keyCreatedPage sample_adm_env q s1) = Page (KeyCreated (GenerateAPIKey [1, 2]))"
    using minted_key_revealed_once [OF k, of "[9]" "GenerateAPIKey [1, 2]" "\<lambda>rs. rs" 0 None sample_adm_env sample_adm_env]
    by (simp add: sample_adm_env_def raw length_sample_argon argonKeyLen_def sample_key_row_def PrefixOf_def keyPrefixLen_def
        row_order_def)
  with k show ?thesis by blast
qed

text \<open>
  C27: a worker token lives exactly as long as the operator chose. A blank node name or an
  expiry outside the form's list is refused without any change; otherwise, when the mint
  succeeds, the new token is active up to the chosen lifetime (a hundred years for the default)
  and not after.
\<close>
theorem worker_token_lifetime:
  assumes "workerKeysCreate env node ttl s = (resp, s1)" "adm_enrollments s"
  shows "(if strings_TrimSpace node = '''' \<or>
        ttl \<notin> {'''', ''24h'', ''72h'', ''168h'', ''720h'', ''2160h'', ''none''} then
       s1 = s \<and> (\<exists>e. resp = Redirect (''/admin/worker-keys?error='' @ e) NoCookie)
     else resp = Text 500 ''enrollment token create failed'' \<or>
       (token_active t (a_uuid env) (adm_db s1) \<longleftrightarrow>
          t \<le> a_now env + (if ttl = ''24h'' then 24 * Hour else if ttl = ''72h'' then 72 * Hour
            else if ttl = ''168h'' then 168 * Hour else if ttl = ''720h'' then 720 * Hour
            else if ttl = ''2160h'' then 2160 * Hour else 100 * 365 * 24 * Hour)))"
proof (cases "strings_TrimSpace node = '''' \<or> workerKeyTTL ttl = None")
  case True
  moreover have "ttl \<notin> {'''', ''24h'', ''72h'', ''168h'', ''720h'', ''2160h'', ''none''} \<longleftrightarrow> workerKeyTTL ttl = None"
    by (auto simp: workerKeyTTL_eq)
  ultimately show ?thesis
    using workerKeysCreate_refused [OF True, of env s] assms(1) by auto
next
  case False
  then obtain d where d: "workerKeyTTL ttl = Some d"
    by blast
  have known: "ttl \<in> {'''', ''24h'', ''72h'', ''168h'', ''720h'', ''2160h'', ''none''}"
    using d by (auto simp: workerKeyTTL_eq split: if_splits)
  show ?thesis
  proof (cases "Enrollment_Create (a_v4sign env) (a_uuid env) (a_now env) (a_now env) (a_fault env) (strings_TrimSpace node) d (adm_db s)")
    case (Inl e)
    then show ?thesis
      using assms False d known by (auto simp: workerKeysCreate_def Let_def)
  next
    case (Inr p)
    obtain et raw db' where p: "p = (et, raw, db')"
      by (cases p)
    have "node_enrollment_tokens (adm_db s1) = node_enrollment_tokens db'"
      using assms False d Inr p
      by (auto simp: workerKeysCreate_def Let_def put_nonce_def split: prod.splits option.splits)
    then have act: "token_active t (a_uuid env) (adm_db s1) \<longleftrightarrow>
        t \<le> a_now env + (if d = 0 then 100 * 365 * 24 * Hour else d)"
      using created_token_active [OF Inr [unfolded p], of t] by (simp cong: token_tables_cong)
    have "(if d = 0 then 100 * 365 * 24 * Hour else d) =
        (if ttl = ''24h'' then 24 * Hour else if ttl = ''72h'' then 72 * Hour
         else if ttl = ''168h'' then 168 * Hour else if ttl = ''720h'' then 720 * Hour
         else if ttl = ''2160h'' then 2160 * Hour else 100 * 365 * 24 * Hour)"
      using known d by (elim insertE emptyE) (simp_all add: workerKeyTTL_eq)
    with act known False show ?thesis
      by presburger
  qed
qed

theorem worker_token_lifetime_witness:
  "\<exists>resp s1. workerKeysCreate sample_adm_env ''gpu'' ''24h'' sample_admin = (resp, s1) \<and> adm_enrollments sample_admin \<and>
     token_active (24 * Hour) ''u1'' (adm_db s1) \<and> \<not> token_active (25 * Hour) ''u1'' (adm_db s1)"
proof -
  have trim: "strings_TrimSpace ''gpu'' = ''gpu''"
    by code_simp
  obtain resp s1 where w: "workerKeysCreate sample_adm_env ''gpu'' ''24h'' sample_admin = (resp, s1)"
    by fastforce
  moreover have "resp \<noteq> Text 500 ''enrollment token create failed''"
    using w by (auto simp: workerKeysCreate_def trim workerKeyTTL_eq Enrollment_Create_def insert_enrollment_def
        sample_adm_env_def sample_admin_def newAdmin_def empty_db_def put_nonce_def nonce_put_def Let_def)
  ultimately show ?thesis
    using worker_token_lifetime [OF w, of "24 * Hour"] worker_token_lifetime [OF w, of "25 * Hour"] trim
    by (auto simp: sample_adm_env_def)
qed

text \<open>
  The fleet page lists every machine once: first the registered nodes in registration
  order, then the refused workers of the last minutes that are not registered; a node's page
  exists exactly for the listed ids, and the number of nodes shown online is the number of
  registered nodes that are fresh and not degraded.
\<close>
lemma fleet_listing_complete:
  assumes "reg_reachable stale r" "NodesSnapshot now r = Inr ns" "range_order ord"
    and fleet: "fleet = fleetView ns (Some (ClaimsSnapshot ord now r))"
  shows "distinct (map nv_ID fleet) \<and> take (length (order r)) (map nv_ID fleet) = order r \<and>
    set (map nv_ID fleet) = set (order r) \<union>
      {i. \<exists>c. map_of (claims_tbl r) i = Some c \<and> time_sub now (ce_lastAttempt c) \<le> claimExpiry} \<and>
    (nodeDetailPage i ns (Some (ClaimsSnapshot ord now r)) = Text 404 ''node not found'' \<longleftrightarrow> i \<notin> set (map nv_ID fleet)) \<and>
    home ns (Some (ClaimsSnapshot ord now r)) = HomePage fleet (length (filter (\<lambda>n. nv_Status n = ''online'') ns))"
proof -
  have inv: "nodes_inv r" "claims_inv r"
    using reachable_inv [OF assms(1)] by auto
  note ids = NodesSnapshot_ids [OF inv(1) assms(2)] and cl = ClaimsSnapshot_ids [OF inv(2) assms(3), of now]
  have eq: "map nv_ID fleet = order r @ filter (\<lambda>i. i \<notin> set (order r)) (map nv_ID (ClaimsSnapshot ord now r))"
    using fleetView_ids [of ns] by (simp only: fleet ids)
  have "distinct (map nv_ID fleet)"
    using cl(2) inv(1) unfolding eq by (auto simp: nodes_inv_def distinct_filter)
  moreover have "nodeDetailPage i ns (Some (ClaimsSnapshot ord now r)) = Text 404 ''node not found'' \<longleftrightarrow> i \<notin> set (map nv_ID fleet)"
    by (auto simp: nodeDetailPage_def fleet [symmetric] find_None_iff find_Some_iff split: option.splits)
  moreover have "filter (\<lambda>n. nv_Status n = ''online'') fleet = filter (\<lambda>n. nv_Status n = ''online'') ns"
    by (auto simp: fleet fleetView_def ClaimsSnapshot_def filter_empty_conv)
  ultimately show ?thesis
    using cl(1) unfolding eq by (auto simp: home_def Let_def fleet [symmetric])
qed

lemma fleet_listing_complete_instance:
  "\<exists>ns. NodesSnapshot 0 sample_registry = Inr ns \<and>
     take 2 (map nv_ID (fleetView ns (Some (ClaimsSnapshot rev 0 sample_registry)))) = [''a'', ''b'']"
proof -
  obtain ns where ns: "NodesSnapshot 0 sample_registry = Inr ns"
    by (simp add: NodesSnapshot_def snapshot_def sample_simps)
  have "order sample_registry = [''a'', ''b'']"
    by (simp add: sample_simps)
  then show ?thesis
    using ns fleet_listing_complete [OF sample_reachable ns range_order_rev refl] by (auto simp: numeral_2_eq_2)
qed

end
