(* ===== verification/Pages.thy ===== *)
theory Pages
  imports Admin
begin

text \<open>
  The HTML of the dashboard: the templates of \<open>admin/templates.go\<close> with the functions they call, the
  escaping \<open>html/template\<close> inserts, and the headers of \<open>cspHeader\<close>.

  A template is the list of its pieces: literal text, and holes with the value shown there and the
  context in which \<open>html/template\<close> escapes it. The contexts are \<open>InText\<close> (element content),
  \<open>InRCDATA\<close> (the title), \<open>InAttr\<close> (a quoted attribute) and \<open>InURL\<close> (the path of a quoted
  \<open>href\<close> or \<open>action\<close>). White space that a trim marker removes is not in the literals. Long
  literals are constants of their own.

  The main theorem reads a page with an HTML tokenizer: every value stands in the context it was
  escaped for, a URL with a value in it starts with a path of the dashboard, and the markup of the
  page is that of the page with all values removed, so no value can open or close a tag or an
  attribute.
\<close>

section \<open>Escaping\<close>

definition nl :: string where "nl = [CHR 0x0A]"
definition em_dash :: string where "em_dash = [CHR 0xE2, CHR 0x80, CHR 0x94]"
definition ellipsis :: string where "ellipsis = [CHR 0xE2, CHR 0x80, CHR 0xA6]"
definition replacement_char :: string where "replacement_char = [CHR 0xEF, CHR 0xBF, CHR 0xBD]"

text \<open>\<open>htmlReplacementTable\<close> of \<open>html/template\<close>; bytes outside the table are copied.\<close>

definition htmlReplacementTable :: "(char \<times> string) list" where
  "htmlReplacementTable =
     [(CHR 0x00, replacement_char), (CHR 0x22, ''&#34;''), (CHR ''&'', ''&amp;''), (CHR 0x27, ''&#39;''),
      (CHR ''+'', ''&#43;''), (CHR ''<'', ''&lt;''), (CHR ''>'', ''&gt;'')]"

definition html_char :: "char \<Rightarrow> string" where
  "html_char c = (case map_of htmlReplacementTable c of None \<Rightarrow> [c] | Some r \<Rightarrow> r)"

definition htmlReplacer :: "string \<Rightarrow> string" where
  "htmlReplacer s = concat (map html_char s)"

text \<open>\<open>processURLOnto\<close> with \<open>norm\<close>: what is kept, and \<open>%xx\<close> for every other byte.\<close>

definition isHex :: "char \<Rightarrow> bool" where
  "isHex c \<longleftrightarrow> c \<in> set ''0123456789abcdefABCDEF''"

definition url_kept :: "char \<Rightarrow> bool" where
  "url_kept c \<longleftrightarrow> unreserved c \<or> c \<in> set ''!#$&*+,/:;=?@[]''"

definition percent_lower :: "char \<Rightarrow> string" where
  "percent_lower c = (let n = (of_char c :: nat) in [CHR ''%'', hextable ! (n div 16), hextable ! (n mod 16)])"

fun urlNormalizer :: "string \<Rightarrow> string" where
  "urlNormalizer [] = []"
| "urlNormalizer (c # s) =
     (if url_kept c \<or> (c = CHR ''%'' \<and> 2 \<le> length s \<and> isHex (s ! 0) \<and> isHex (s ! 1)) then [c]
      else percent_lower c) @ urlNormalizer s"

datatype esc_ctx = InText | InRCDATA | InAttr | InURL

fun escape :: "esc_ctx \<Rightarrow> string \<Rightarrow> string" where
  "escape InURL v = htmlReplacer (urlNormalizer v)"
| "escape _ v = htmlReplacer v"

datatype piece = Lit string | Hole esc_ctx string

fun piece_html :: "piece \<Rightarrow> string" where
  "piece_html (Lit l) = l"
| "piece_html (Hole c v) = escape c v"

definition render :: "piece list \<Rightarrow> string" where
  "render ps = concat (map piece_html ps)"

section \<open>The functions of the templates\<close>

text \<open>
  \<open>pg_time\<close> is \<open>Format(time.RFC3339)\<close>, \<open>pg_float\<close> the verb \<open>%.1f\<close> on the bits of a float,
  \<open>pg_lower\<close> is \<open>strings.ToLower\<close> outside ASCII, and \<open>pg_horizon\<close> is fifty years from now.
\<close>

record page_env =
  pg_time :: "time \<Rightarrow> string"
  pg_float :: "float64 \<Rightarrow> string"
  pg_lower :: "string \<Rightarrow> string"
  pg_horizon :: time

definition ToLower :: "page_env \<Rightarrow> string \<Rightarrow> string" where
  "ToLower env s =
     (if \<forall>c\<in>set s. (of_char c :: nat) < 128
      then map (\<lambda>c. if CHR ''A'' \<le> c \<and> c \<le> CHR ''Z'' then char_of ((of_char c :: nat) + 32) else c) s
      else pg_lower env s)"

definition orDash :: "string \<Rightarrow> string" where
  "orDash s = (if s = '''' then em_dash else s)"

definition shortID :: "string \<Rightarrow> string" where
  "shortID s = (if 8 < length s then take 8 s @ ellipsis else s)"

definition statusLabel :: "NodeView \<Rightarrow> string" where
  "statusLabel n =
     (if nv_ClaimReason n = '''' then nv_Status n else nv_Status n @ '' ('' @ nv_ClaimReason n @ '')'')"

fun joinComma :: "string list \<Rightarrow> string" where
  "joinComma [] = ''''"
| "joinComma [x] = x"
| "joinComma (x # xs) = x @ '', '' @ joinComma xs"

definition bool_text :: "bool \<Rightarrow> string" where
  "bool_text b = (if b then ''true'' else ''false'')"

section \<open>The templates\<close>

definition base_1 :: string where
  \<open>base_1 =
     ''<!DOCTYPE html>'' @ nl @ ''<html lang="en">'' @ nl @ ''<head>'' @ nl @ ''<meta charset="utf-8"/>'' @ nl
     @ ''<meta name="viewport" content="width=device-width, initial-scale=1"/>'' @ nl @ ''<title>''\<close>

definition base_2 :: string where
  \<open>base_2 =
     '' '' @ em_dash @ '' linguine admin</title>'' @ nl @ ''<script src="/admin/static/htmx.min.js"></script>'' @ nl
     @ ''<script src="/admin/static/copy.js" defer></script>'' @ nl @ ''<style>'' @ nl
     @ ''body { font: 14px/1.5 -apple-system, "Segoe UI", Roboto, sans-serif; margin: 0; color: #1f2328; ''
     @ ''background: #f6f8fa; }'' @ nl
     @ ''header { background: #24292f; color: #fff; padding: 12px 24px; display: flex; gap: 20px; align-i''
     @ ''tems: center; }'' @ nl @ ''header a { color: #8b949e; text-decoration: none; }'' @ nl
     @ ''header a:hover { color: #fff; }'' @ nl @ ''header .brand { font-weight: 600; margin-right: auto; }'' @ nl
     @ ''main { max-width: 1100px; margin: 0 auto; padding: 24px; }'' @ nl
     @ ''h1 { margin: 0 0 16px; font-size: 22px; }'' @ nl @ ''h2 { margin: 0 0 12px; font-size: 18px; }'' @ nl
     @ ''table { border-collapse: collapse; width: 100%; background: #fff; box-shadow: 0 1px 3px rgba(0,0''
     @ '',0,.08); border-radius: 8px; overflow: hidden; }'' @ nl
     @ ''th, td { padding: 10px 14px; text-align: left; border-bottom: 1px solid #d0d7de; }'' @ nl
     @ ''th { background: #f6f8fa; font-size: 12px; text-transform: uppercase; letter-spacing: .04em; col''
     @ ''or: #57606a; }'' @ nl @ ''td { font-variant-numeric: tabular-nums; }'' @ nl
     @ ''.status { padding: 2px 8px; border-radius: 999px; font-size: 12px; font-weight: 600; }'' @ nl
     @ ''.status.online { background: #dafbe1; color: #1a7f37; }'' @ nl
     @ ''.status.stale { background: #fff8c5; color: #9a6700; }'' @ nl
     @ ''.status.degraded { background: #fff8c5; color: #9a6700; }'' @ nl
     @ ''.status.connecting { background: #ddf4ff; color: #0969da; }'' @ nl
     @ ''.status.offline { background: #ffebe9; color: #cf222e; }'' @ nl
     @ ''.status.active { background: #dafbe1; color: #1a7f37; }'' @ nl
     @ ''.status.revoked { background: #ffebe9; color: #cf222e; }'' @ nl
     @ ''.status.expired { background: #eff1f3; color: #57606a; }'' @ nl
     @ ''.error { background: #ffebe9; border: 1px solid #ff818266; color: #cf222e; border-radius: 8px; p''
     @ ''adding: 10px 14px; margin-bottom: 16px; }'' @ nl
     @ ''.key-reveal { font-family: ui-monospace, SFMono-Regular, Menlo, Consolas, monospace; background:''
     @ '' #fff; border: 1px solid #d0d7de; border-radius: 8px; padding: 14px 16px; word-break: break-all;''
     @ '' user-select: all; }'' @ nl
     @ ''.card { background: #fff; border: 1px solid #d0d7de; border-radius: 8px; padding: 20px; margin-b''
     @ ''ottom: 20px; }'' @ nl @ ''.metrics { display: flex; gap: 20px; }'' @ nl
     @ ''.metric { background: #fff; border: 1px solid #d0d7de; border-radius: 8px; padding: 16px 20px; f''
     @ ''lex: 1; }'' @ nl @ ''.metric .v { font-size: 28px; font-weight: 700; }'' @ nl
     @ ''.metric .l { color: #57606a; font-size: 12px; text-transform: uppercase; letter-spacing: .04em; '' @ ''}'' @ nl
     @ ''form { display: flex; flex-direction: column; gap: 12px; max-width: 320px; }'' @ nl
     @ ''input, select { padding: 8px 10px; border: 1px solid #d0d7de; border-radius: 6px; font: inherit;''
     @ '' background: #fff; }'' @ nl
     @ ''.snippet { font-family: ui-monospace, SFMono-Regular, Menlo, Consolas, monospace; background: #f''
     @ ''ff; border: 1px solid #d0d7de; border-radius: 8px; padding: 14px 16px; overflow-x: auto; font-si''
     @ ''ze: 13px; }'' @ nl
     @ ''button { padding: 8px 16px; border: 0; border-radius: 6px; background: #1f6feb; color: #fff; fon''
     @ ''t: inherit; font-weight: 600; cursor: pointer; }'' @ nl @ ''.muted { color: #57606a; }'' @ nl
     @ ''a { color: #0969da; }'' @ nl @ ''</style>'' @ nl @ ''</head>'' @ nl @ ''<body hx-boost="true">'' @ nl
     @ ''<header>'' @ nl @ ''<span class="brand">linguine</span>'' @ nl @ ''<a href="/admin">Dashboard</a>'' @ nl
     @ ''<a href="/admin/nodes">Nodes</a>'' @ nl @ ''<a href="/admin/audit">Audit log</a>'' @ nl
     @ ''<a href="/admin/keys">API keys</a>'' @ nl @ ''<a href="/admin/worker-keys">Worker keys</a>'' @ nl
     @ ''<form method="post" action="/admin/logout" style="display:inline"><button type="submit" style="b''
     @ ''ackground:#636c76">Sign out</button></form>'' @ nl @ ''</header>'' @ nl @ ''<main>'' @ nl\<close>

definition login_content_1 :: string where
  \<open>login_content_1 =
     nl @ ''<h1>Sign in</h1>'' @ nl @ ''<form method="post" action="/admin/login">'' @ nl
     @ ''<label>Admin API key <input type="password" name="password" placeholder="sk-mesh-'' @ ellipsis
     @ ''" autofocus/></label>'' @ nl @ ''<button type="submit">Sign in</button>'' @ nl @ ''</form>'' @ nl
     @ ''<p class="muted">Use <code>linguine admin create-key --name &lt;label&gt; --role admin</code> to''
     @ '' create an admin key.</p>'' @ nl\<close>

definition home_content_2 :: string where
  \<open>home_content_2 =
     ''</div><div class="l">Nodes total</div></div>'' @ nl @ ''<div class="metric"><div class="v">''\<close>

definition home_content_3 :: string where
  \<open>home_content_3 =
     ''</div><div class="l">Online</div></div>'' @ nl @ ''<div class="metric"><div class="v">''\<close>

definition home_content_4 :: string where
  \<open>home_content_4 =
     ''</div><div class="l">Offline / stale</div></div>'' @ nl @ ''</div>'' @ nl @ ''<h2>Fleet</h2>'' @ nl
     @ ''<table><thead><tr><th>Node</th><th>Status</th><th>Active model</th><th>Active requests</th><th>L''
     @ ''ast heartbeat</th></tr></thead><tbody>''\<close>

definition home_content_5 :: string where
  \<open>home_content_5 =
     nl @ ''<tr><td colspan="5" class="muted">No workers enrolled.</td></tr>''\<close>

definition nodes_table_1 :: string where
  \<open>nodes_table_1 =
     nl @ ''<table hx-trigger="every 5s" hx-get="/admin/nodes" hx-target="this" hx-swap="outerHTML"><thead><''
     @ ''tr><th>Node</th><th>Status</th><th>Active model</th><th>VRAM free / total (MB)</th><th>Active re''
     @ ''qs</th><th>Est. TPS</th><th>Catalog</th><th>Last heartbeat</th></tr></thead><tbody>''\<close>

definition nodes_table_2 :: string where
  \<open>nodes_table_2 =
     nl @ ''<tr><td colspan="8" class="muted">No workers enrolled.</td></tr>''\<close>

definition nodeDetail_content_2 :: string where
  \<open>nodeDetail_content_2 =
     ''</h1>'' @ nl @ ''<div class="card"><h2>State</h2>'' @ nl @ ''<table><tbody>'' @ nl
     @ ''<tr><th>Status</th><td><span class="status ''\<close>

definition nodeDetail_content_10 :: string where
  \<open>nodeDetail_content_10 =
     ''</td></tr>'' @ nl @ ''</tbody></table></div>'' @ nl @ ''<div class="card"><h2>Catalog</h2><p>''\<close>

definition audit_content_1 :: string where
  \<open>audit_content_1 =
     nl @ ''<h1>Request audit log</h1>'' @ nl
     @ ''<table><thead><tr><th>Time</th><th>API key</th><th>Node</th><th>Model req / served</th><th>Strea''
     @ ''med</th><th>Status</th><th>Duration (ms)</th></tr></thead><tbody>''\<close>

definition audit_content_2 :: string where
  \<open>audit_content_2 =
     nl @ ''<tr><td colspan="7" class="muted">No requests recorded yet.</td></tr>''\<close>

definition audit_content_13 :: string where
  \<open>audit_content_13 =
     nl @ ''</tbody></table>'' @ nl @ ''<h2>Admin auth events</h2>'' @ nl
     @ ''<table><thead><tr><th>Time</th><th>Event</th><th>API key</th><th>Detail</th><th>Remote IP</th><t''
     @ ''h>Status</th></tr></thead><tbody>''\<close>

definition audit_content_14 :: string where
  \<open>audit_content_14 =
     nl @ ''<tr><td colspan="6" class="muted">No admin events recorded yet.</td></tr>''\<close>

definition keys_content_3 :: string where
  \<open>keys_content_3 =
     nl @ ''<h1>API keys</h1>'' @ nl @ ''<div class="card">'' @ nl @ ''<h2>Create a client key</h2>'' @ nl
     @ ''<form method="post" action="/admin/keys">'' @ nl
     @ ''<label>Name <input type="text" name="name" placeholder="e.g. prod-app" required/></label>'' @ nl
     @ ''<button type="submit">Create key</button>'' @ nl @ ''</form>'' @ nl
     @ ''<p class="muted">The raw key is shown once, immediately after creation. Client keys only '' @ em_dash
     @ '' create admin keys with the CLI.</p>'' @ nl @ ''</div>'' @ nl
     @ ''<table><thead><tr><th>Name</th><th>Prefix</th><th>Role</th><th>Status</th><th>Created</th><th>Ex''
     @ ''pires</th><th></th></tr></thead><tbody>''\<close>

definition keys_content_4 :: string where
  \<open>keys_content_4 =
     nl @ ''<tr><td colspan="7" class="muted">No API keys yet.</td></tr>''\<close>

definition keys_content_16 :: string where
  \<open>keys_content_16 =
     ''/revoke" style="display:inline;max-width:none"><button type="submit" style="background:#cf222e;p''
     @ ''adding:4px 10px;font-size:12px">Revoke</button></form>''\<close>

definition keyCreated_content_1 :: string where
  \<open>keyCreated_content_1 =
     nl @ ''<h1>Key created</h1>'' @ nl @ ''<p>Store this key securely now '' @ em_dash
     @ '' it is shown <strong>only this once</strong> and cannot be retrieved again.</p>'' @ nl
     @ ''<div class="key-reveal" id="key-reveal">''\<close>

definition keyCreated_content_2 :: string where
  \<open>keyCreated_content_2 =
     ''</div>'' @ nl @ ''<button type="button" data-copy="#key-reveal">Copy key to clipboard</button>'' @ nl
     @ ''<p><a href="/admin/keys">Back to API keys</a></p>'' @ nl\<close>

definition workerKeys_content_3 :: string where
  \<open>workerKeys_content_3 =
     nl @ ''<h1>Worker keys</h1>'' @ nl @ ''<div class="card">'' @ nl @ ''<h2>Create a worker enrolment token</h2>'' @ nl
     @ ''<form method="post" action="/admin/worker-keys">'' @ nl
     @ ''<label>Node name <input type="text" name="node" placeholder="e.g. gpu-melbourne-01" required/></'' @ ''label>''
     @ nl @ ''<label>Expires in <select name="ttl">'' @ nl\<close>

definition workerKeys_content_9 :: string where
  \<open>workerKeys_content_9 =
     ''</select></label>'' @ nl @ ''<button type="submit">Create token</button>'' @ nl @ ''</form>'' @ nl
     @ ''<p class="muted">The raw token is shown once, immediately after creation, with a ready-to-paste ''
     @ ''worker config. Worker keys enrol machines on the mesh '' @ em_dash
     @ '' client keys for <code>/v1</code> requests live on the API keys page.</p>'' @ nl @ ''</div>'' @ nl
     @ ''<table><thead><tr><th>Node</th><th>Status</th><th>Created</th><th>Expires</th><th></th></tr></th''
     @ ''ead><tbody>''\<close>

definition workerKeys_content_10 :: string where
  \<open>workerKeys_content_10 =
     nl @ ''<tr><td colspan="5" class="muted">No worker keys yet.</td></tr>''\<close>

definition workerKeyCreated_content_2 :: string where
  \<open>workerKeyCreated_content_2 =
     ''</strong>. Store it securely now '' @ em_dash
     @ '' it is shown <strong>only this once</strong> and cannot be retrieved again.</p>'' @ nl
     @ ''<div class="key-reveal" id="key-reveal">''\<close>

definition workerKeyCreated_content_3 :: string where
  \<open>workerKeyCreated_content_3 =
     ''</div>'' @ nl @ ''<button type="button" data-copy="#key-reveal">Copy token to clipboard</button>'' @ nl
     @ ''<h2>Worker config</h2>'' @ nl
     @ ''<p class="muted">Paste into the worker's TOML, set <code>router.nng_addr</code> to this router's''
     @ '' mesh address, then start the worker:</p>'' @ nl @ ''<pre class="snippet">node_id = "''\<close>

definition workerKeyCreated_content_5 :: string where
  \<open>workerKeyCreated_content_5 =
     ''"'' @ nl @ nl @ ''[router]'' @ nl @ ''nng_addr = "wss://&lt;router-host&gt;:9000/mesh"'' @ nl @ nl @ ''[engine]''
     @ nl @ ''url = "http://127.0.0.1:8080/v1/chat/completions"</pre>'' @ nl
     @ ''<p><a href="/admin/worker-keys">Back to worker keys</a></p>'' @ nl\<close>

definition base :: "string \<Rightarrow> piece list \<Rightarrow> piece list" where
  \<open>base title content =
     [Lit base_1, Hole InRCDATA (title),
      Lit base_2] @
     content @ [Lit (nl @ ''</main>'' @ nl @ ''</body>'' @ nl @ ''</html>'')]\<close>

definition login_content :: "piece list" where
  \<open>login_content =
     [Lit login_content_1]\<close>

definition home_content :: "page_env \<Rightarrow> NodeView list \<Rightarrow> nat \<Rightarrow> piece list" where
  \<open>home_content env ns online =
     [Lit (nl @ ''<div class="metrics">'' @ nl @ ''<div class="metric"><div class="v">''), Hole InText (FormatInt (int (length ns))),
      Lit home_content_2, Hole InText (FormatInt (int online)),
      Lit home_content_3, Hole InText (FormatInt (int (length ns) - int online)),
      Lit home_content_4] @
     (if ns = [] then [Lit home_content_5] else []) @
     [Lit nl] @
     concat (map (\<lambda>x. [Lit (nl @ ''<tr><td><a href="/admin/nodes/''), Hole InURL (nv_ID x),
      Lit ''">'', Hole InText (nv_ID x),
      Lit ''</a></td><td><span class="status '', Hole InAttr (ToLower env (nv_Status x)),
      Lit ''">'', Hole InText (statusLabel x),
      Lit ''</span></td><td>'', Hole InText (orDash (nv_ActiveModel x)),
      Lit ''</td><td>'', Hole InText (FormatInt (nv_ActiveRequests x)),
      Lit ''</td><td>'', Hole InText (pg_time env (nv_LastHeartbeat x)),
      Lit ''</td></tr>'']) ns) @
     [Lit (nl @ ''</tbody></table>'' @ nl)]\<close>

definition nodes_table :: "page_env \<Rightarrow> NodeView list \<Rightarrow> piece list" where
  \<open>nodes_table env ns =
     [Lit nodes_table_1] @
     (if ns = [] then [Lit nodes_table_2] else []) @
     [Lit nl] @
     concat (map (\<lambda>x. [Lit (nl @ ''<tr><td><a href="/admin/nodes/''), Hole InURL (nv_ID x),
      Lit ''">'', Hole InText (nv_ID x),
      Lit ''</a></td><td><span class="status '', Hole InAttr (ToLower env (nv_Status x)),
      Lit ''">'', Hole InText (statusLabel x),
      Lit ''</span></td><td>'', Hole InText (orDash (nv_ActiveModel x)),
      Lit ''</td><td>'', Hole InText (FormatInt (uint (nv_VRAMFreeMB x))),
      Lit '' / '', Hole InText (FormatInt (uint (nv_VRAMTotalMB x))),
      Lit ''</td><td>'', Hole InText (FormatInt (nv_ActiveRequests x)),
      Lit ''</td><td>'', Hole InText (pg_float env (nv_EstimatedTPS x)),
      Lit ''</td><td>'', Hole InText (joinComma (nv_Catalog x)),
      Lit ''</td><td>'', Hole InText (pg_time env (nv_LastHeartbeat x)),
      Lit ''</td></tr>'']) ns) @
     [Lit (nl @ ''</tbody></table>'' @ nl)]\<close>

definition nodes_content :: "page_env \<Rightarrow> NodeView list \<Rightarrow> piece list" where
  \<open>nodes_content env ns =
     [Lit (nl @ ''<h1>Node inventory</h1>'' @ nl)] @
     nodes_table env ns @ [Lit nl]\<close>

definition nodeDetail_content :: "page_env \<Rightarrow> NodeView \<Rightarrow> piece list" where
  \<open>nodeDetail_content env n =
     [Lit (nl @ ''<h1>''), Hole InText (nv_ID n),
      Lit nodeDetail_content_2, Hole InAttr (ToLower env (nv_Status n)),
      Lit ''">'', Hole InText (nv_Status n),
      Lit (''</span></td></tr>'' @ nl @ ''<tr><th>Active model</th><td>''), Hole InText (orDash (nv_ActiveModel n)),
      Lit (''</td></tr>'' @ nl @ ''<tr><th>VRAM free / total (MB)</th><td>''), Hole InText (FormatInt (uint (nv_VRAMFreeMB n))),
      Lit '' / '', Hole InText (FormatInt (uint (nv_VRAMTotalMB n))),
      Lit (''</td></tr>'' @ nl @ ''<tr><th>Active requests</th><td>''), Hole InText (FormatInt (nv_ActiveRequests n)),
      Lit (''</td></tr>'' @ nl @ ''<tr><th>Estimated TPS</th><td>''), Hole InText (pg_float env (nv_EstimatedTPS n)),
      Lit (''</td></tr>'' @ nl @ ''<tr><th>Last heartbeat</th><td>''), Hole InText (pg_time env (nv_LastHeartbeat n)),
      Lit nodeDetail_content_10, Hole InText (joinComma (nv_Catalog n)),
      Lit (''</p></div>'' @ nl)]\<close>

definition audit_content :: "page_env \<Rightarrow> Entry list \<Rightarrow> AdminEvent list \<Rightarrow> piece list" where
  \<open>audit_content env es aes =
     [Lit audit_content_1] @
     (if es = [] then [Lit audit_content_2] else []) @
     [Lit nl] @
     concat (map (\<lambda>x. [Lit (nl @ ''<tr><td>''), Hole InText (pg_time env (en_CreatedAt x)),
      Lit ''</td><td class="muted">'', Hole InText (shortID (en_APIKeyID x)),
      Lit ''</td><td>'', Hole InText (orDash (en_NodeID x)),
      Lit ''</td><td>'', Hole InText (orDash (en_ModelRequested x)),
      Lit '' / '', Hole InText (orDash (en_ModelServed x)),
      Lit ''</td><td>'', Hole InText (bool_text (en_WasStreamed x)),
      Lit ''</td><td>'', Hole InText (FormatInt (en_StatusCode x)),
      Lit ''</td><td>'', Hole InText (FormatInt (en_TotalDurationMs x)),
      Lit ''</td></tr>'']) es) @
     [Lit audit_content_13] @
     (if aes = [] then [Lit audit_content_14] else []) @
     [Lit nl] @
     concat (map (\<lambda>x. [Lit (nl @ ''<tr><td>''), Hole InText (pg_time env (ae_CreatedAt x)),
      Lit ''</td><td>'', Hole InText (ae_Event x),
      Lit ''</td><td class="muted">'', Hole InText (shortID (ae_APIKeyID x)),
      Lit ''</td><td>'', Hole InText (orDash (ae_Detail x)),
      Lit ''</td><td>'', Hole InText (orDash (ae_RemoteIP x)),
      Lit ''</td><td>'', Hole InText (FormatInt (ae_StatusCode x)),
      Lit ''</td></tr>'']) aes) @
     [Lit (nl @ ''</tbody></table>'' @ nl)]\<close>

definition keys_content :: "page_env \<Rightarrow> APIKey list \<Rightarrow> string \<Rightarrow> piece list" where
  \<open>keys_content env ks err =
     (if err = '''' then [] else [Lit (nl @ ''<div class="error">''), Hole InText (err),
      Lit ''</div>'']) @
     [Lit keys_content_3] @
     (if ks = [] then [Lit keys_content_4] else []) @
     [Lit nl] @
     concat (map (\<lambda>x. [Lit (nl @ ''<tr><td>''), Hole InText (key_Name x),
      Lit ''</td><td class="muted">'', Hole InText (key_Prefix x),
      Lit (ellipsis @ ''</td><td>''), Hole InText (key_Role x),
      Lit ''</td><td><span class="status '', Hole InAttr (ToLower env (key_Status x)),
      Lit ''">'', Hole InText (key_Status x),
      Lit ''</span></td><td>'', Hole InText (pg_time env (key_CreatedAt x)),
      Lit ''</td><td>''] @
     (case key_ExpiresAt x of Some t \<Rightarrow> [Hole InText (pg_time env t)] | None \<Rightarrow> [Lit em_dash]) @
     [Lit ''</td><td>''] @
     (if key_Status x = ''active'' then [Lit ''<form method="post" action="/admin/keys/'', Hole InURL (key_ID x),
      Lit keys_content_16] else []) @
     [Lit ''</td></tr>'']) ks) @
     [Lit (nl @ ''</tbody></table>'' @ nl)]\<close>

definition keyCreated_content :: "string \<Rightarrow> piece list" where
  \<open>keyCreated_content raw =
     [Lit keyCreated_content_1, Hole InText (raw),
      Lit keyCreated_content_2]\<close>

definition workerKeys_content :: "page_env \<Rightarrow> EnrollmentToken list \<Rightarrow> string \<Rightarrow> piece list" where
  \<open>workerKeys_content env toks err =
     (if err = '''' then [] else [Lit (nl @ ''<div class="error">''), Hole InText (err),
      Lit ''</div>'']) @
     [Lit workerKeys_content_3] @
     concat (map (\<lambda>x. [Lit ''<option value="'', Hole InAttr (fst x),
      Lit ''"''] @
     (if fst x = ''none'' then [Lit '' selected''] else []) @
     [Lit ''>'', Hole InText (fst (snd x)),
      Lit (''</option>'' @ nl)]) workerKeyTTLs) @
     [Lit workerKeys_content_9] @
     (if toks = [] then [Lit workerKeys_content_10] else []) @
     [Lit nl] @
     concat (map (\<lambda>x. [Lit (nl @ ''<tr><td>''), Hole InText (tok_NodeName x),
      Lit ''</td><td><span class="status '', Hole InAttr (ToLower env (tok_Status x)),
      Lit ''">'', Hole InText (tok_Status x),
      Lit ''</span></td><td>'', Hole InText (pg_time env (tok_CreatedAt x)),
      Lit ''</td><td>''] @
     (case tok_ExpiresAt x of Some t \<Rightarrow> (if pg_horizon env < t then [Lit ''never''] else [Hole InText (pg_time env t)]) | None \<Rightarrow> [Lit em_dash]) @
     [Lit ''</td><td>''] @
     (if tok_Status x = ''active'' then [Lit ''<form method="post" action="/admin/worker-keys/'', Hole InURL (tok_ID x),
      Lit keys_content_16] else []) @
     [Lit ''</td></tr>'']) toks) @
     [Lit (nl @ ''</tbody></table>'' @ nl)]\<close>

definition workerKeyCreated_content :: "string \<Rightarrow> string \<Rightarrow> piece list" where
  \<open>workerKeyCreated_content node raw =
     [Lit (nl @ ''<h1>Worker key created</h1>'' @ nl @ ''<p>Enrolment token for <strong>''), Hole InText (node),
      Lit workerKeyCreated_content_2, Hole InText (raw),
      Lit workerKeyCreated_content_3, Hole InText (node),
      Lit (''"'' @ nl @ ''enrollment_token = "''), Hole InText (raw),
      Lit workerKeyCreated_content_5]\<close>

section \<open>The pages\<close>

text \<open>
  \<open>renderPage\<close> executes the template of a page inside \<open>base\<close>; the result is the pieces it writes, in
  order. Execution fails on a missing field or a failing writer only, and there is neither: the
  fields are those of the structs below and the writer is a \<open>strings.Builder\<close>.
\<close>

definition renderPage :: "string \<Rightarrow> piece list \<Rightarrow> piece list" where
  "renderPage title content = base title content"

definition loginPage :: "piece list" where
  "loginPage = renderPage ''Sign in'' login_content"

definition homePage :: "page_env \<Rightarrow> NodeView list \<Rightarrow> nat \<Rightarrow> piece list" where
  "homePage env ns online = renderPage ''Dashboard'' (home_content env ns online)"

definition nodesPage_html :: "page_env \<Rightarrow> NodeView list \<Rightarrow> piece list" where
  "nodesPage_html env ns = renderPage ''Nodes'' (nodes_content env ns)"

definition nodesFragment :: "page_env \<Rightarrow> NodeView list \<Rightarrow> piece list" where
  "nodesFragment env ns = nodes_table env ns"

definition nodeDetailPage_html :: "page_env \<Rightarrow> NodeView \<Rightarrow> piece list" where
  "nodeDetailPage_html env n = renderPage (nv_ID n) (nodeDetail_content env n)"

definition keysPage_html :: "page_env \<Rightarrow> APIKey list \<Rightarrow> string \<Rightarrow> piece list" where
  "keysPage_html env keys errFlash = renderPage ''API keys'' (keys_content env keys errFlash)"

definition keyCreatedPage_html :: "string \<Rightarrow> piece list" where
  "keyCreatedPage_html raw = renderPage ''Key created'' (keyCreated_content raw)"

definition workerKeysPage_html :: "page_env \<Rightarrow> EnrollmentToken list \<Rightarrow> string \<Rightarrow> piece list" where
  "workerKeysPage_html env toks errFlash = renderPage ''Worker keys'' (workerKeys_content env toks errFlash)"

definition workerKeyCreatedPage_html :: "string \<Rightarrow> string \<Rightarrow> piece list" where
  "workerKeyCreatedPage_html nodeName raw =
     renderPage ''Worker key created'' (workerKeyCreated_content nodeName raw)"

definition auditPage_html :: "page_env \<Rightarrow> Entry list \<Rightarrow> AdminEvent list \<Rightarrow> piece list" where
  "auditPage_html env es aes = renderPage ''Audit log'' (audit_content env es aes)"

text \<open>The page a handler of Admin answers with, rendered.\<close>

fun page_pieces :: "page_env \<Rightarrow> page \<Rightarrow> piece list" where
  "page_pieces env LoginPage = loginPage"
| "page_pieces env (HomePage ns online) = homePage env ns online"
| "page_pieces env (NodesFragment ns) = nodesFragment env ns"
| "page_pieces env (NodesPage ns) = nodesPage_html env ns"
| "page_pieces env (NodeDetail n) = nodeDetailPage_html env n"
| "page_pieces env (AuditPage es aes) = auditPage_html env es aes"
| "page_pieces env (KeysPage keys err) = keysPage_html env keys err"
| "page_pieces env (KeyCreated raw) = keyCreatedPage_html raw"
| "page_pieces env (WorkerKeysPage toks err) = workerKeysPage_html env toks err"
| "page_pieces env (WorkerKeyCreated node raw) = workerKeyCreatedPage_html node raw"

definition page_html :: "page_env \<Rightarrow> page \<Rightarrow> string" where
  "page_html env p = render (page_pieces env p)"

section \<open>Headers\<close>

text \<open>
  The headers that the handlers and \<open>cspHeader\<close> set by name: \<open>cspHeader\<close> is run for every route
  but the two scripts, which are registered before it; the two pages that reveal a secret are not
  to be stored.
\<close>

definition cspHeader :: "(string \<times> string) list" where
  "cspHeader =
     [(''Content-Security-Policy'',
       ''default-src '' @ [CHR 0x27] @ ''self'' @ [CHR 0x27] @ ''; script-src '' @ [CHR 0x27] @ ''self'' @ [CHR 0x27]
       @ ''; style-src '' @ [CHR 0x27] @ ''unsafe-inline'' @ [CHR 0x27] @ ''; connect-src '' @ [CHR 0x27] @ ''self''
       @ [CHR 0x27] @ ''; form-action '' @ [CHR 0x27] @ ''self'' @ [CHR 0x27]),
      (''Referrer-Policy'', ''same-origin'')]"

fun static_route :: "adm_request \<Rightarrow> bool" where
  "static_route GetHtmx = True"
| "static_route GetCopyJS = True"
| "static_route _ = False"

fun handler_headers :: "adm_response \<Rightarrow> (string \<times> string) list" where
  "handler_headers (Page (KeyCreated _)) = [(''Cache-Control'', ''no-store'')]"
| "handler_headers (Page (WorkerKeyCreated _ _)) = [(''Cache-Control'', ''no-store'')]"
| "handler_headers (Page _) = []"
| "handler_headers (Script _ cache) =
     [(''Content-Type'', ''application/javascript; charset=utf-8''), (''Cache-Control'', cache)]"
| "handler_headers _ = []"

definition response_headers :: "adm_request \<Rightarrow> adm_response \<Rightarrow> (string \<times> string) list" where
  "response_headers req r = (if static_route req then [] else cspHeader) @ handler_headers r"

section \<open>Reading a page\<close>

text \<open>
  The states of an HTML tokenizer that the templates use: text, inside a tag, and inside a
  double-quoted attribute value. \<open>final\<close> is the state at the end of a text and \<open>markup\<close> every
  character of it that is neither text nor part of an attribute value.
\<close>

datatype html_state = Data | InTag | InValue

fun html_step :: "html_state \<Rightarrow> char \<Rightarrow> html_state" where
  "html_step Data c = (if c = CHR ''<'' then InTag else Data)"
| "html_step InTag c = (if c = CHR ''>'' then Data else if c = CHR 0x22 then InValue else InTag)"
| "html_step InValue c = (if c = CHR 0x22 then InTag else InValue)"

fun final :: "html_state \<Rightarrow> string \<Rightarrow> html_state" where
  "final st [] = st"
| "final st (c # cs) = final (html_step st c) cs"

fun markup :: "html_state \<Rightarrow> string \<Rightarrow> string" where
  "markup st [] = []"
| "markup st (c # cs) =
     (if st = InTag \<or> html_step st c \<noteq> st then [c] else []) @ markup (html_step st c) cs"

text \<open>The page with every value removed.\<close>

fun blank :: "piece \<Rightarrow> piece" where
  "blank (Lit l) = Lit l"
| "blank (Hole c v) = Hole c ''''"

definition skeleton :: "piece list \<Rightarrow> string" where
  "skeleton ps = render (map blank ps)"

text \<open>
  Whether every value stands where its escaper belongs: \<open>placed\<close> goes through the pieces with the
  tokenizer's state. A value in a URL has to follow a literal that ends in a path of the dashboard.
\<close>

definition own_path :: "string \<Rightarrow> bool" where
  "own_path l \<longleftrightarrow>
     list_ex (\<lambda>p. drop (length l - length p) l = p)
       [''href='' @ [CHR 0x22] @ ''/admin/nodes/'', ''action='' @ [CHR 0x22] @ ''/admin/keys/'',
        ''action='' @ [CHR 0x22] @ ''/admin/worker-keys/'']"

fun fits :: "esc_ctx \<Rightarrow> html_state \<Rightarrow> bool" where
  "fits InText st \<longleftrightarrow> st = Data"
| "fits InRCDATA st \<longleftrightarrow> st = Data"
| "fits InAttr st \<longleftrightarrow> st = InValue"
| "fits InURL st \<longleftrightarrow> False"

fun placed :: "html_state \<Rightarrow> piece list \<Rightarrow> html_state option" where
  "placed st [] = Some st"
| "placed st (Lit l # Hole InURL v # ps) =
     (if final st l = InValue \<and> own_path l then placed InValue ps else None)"
| "placed st (Lit l # ps) = placed (final st l) ps"
| "placed st (Hole c v # ps) = (if fits c st then placed st ps else None)"

text \<open>What a browser shows for an escaped value.\<close>

function html_unescape :: "string \<Rightarrow> string" where
  "html_unescape s =
     (case s of
        [] \<Rightarrow> []
      | c # cs \<Rightarrow>
          (case List.find (\<lambda>(d, e). prefix e s) (tl htmlReplacementTable) of
             Some (d, e) \<Rightarrow> d # html_unescape (drop (length e - 1) cs)
           | None \<Rightarrow> c # html_unescape cs))"
  by pat_completeness auto
termination by (relation "measure length") auto

declare html_unescape.simps [simp del]

section \<open>Values are inert\<close>

lemma htmlReplacer_simps [simp]:
  "htmlReplacer [] = []"
  "htmlReplacer (c # s) = html_char c @ htmlReplacer s"
  by (simp_all add: htmlReplacer_def)

lemma html_char_inert: "CHR ''<'' \<notin> set (html_char c)" "CHR 0x22 \<notin> set (html_char c)"
  by (auto simp: html_char_def htmlReplacementTable_def replacement_char_def)

lemma htmlReplacer_inert [simp]:
  "CHR ''<'' \<notin> set (htmlReplacer v)" "CHR 0x22 \<notin> set (htmlReplacer v)"
  by (induction v) (simp_all add: html_char_inert)

lemma escape_inert [simp]: "CHR ''<'' \<notin> set (escape c v)" "CHR 0x22 \<notin> set (escape c v)"
  by (cases c; simp)+

lemma final_append [simp]: "final st (a @ b) = final (final st a) b"
  by (induction a arbitrary: st) auto

lemma markup_append [simp]: "markup st (a @ b) = markup st a @ markup (final st a) b"
  by (induction a arbitrary: st) auto

lemma inert_value:
  assumes "CHR ''<'' \<notin> set v" "CHR 0x22 \<notin> set v" "st \<noteq> InTag"
  shows "final st v = st \<and> markup st v = []"
  using assms
proof (induction v)
  case (Cons c v)
  then have "html_step st c = st"
    by (cases st) auto
  then show ?case
    using Cons by simp
qed simp

lemma escape_value [simp]:
  "final InValue (escape c v) = InValue" "final Data (escape c v) = Data"
  "markup InValue (escape c v) = []" "markup Data (escape c v) = []"
  using inert_value [of "escape c v"] by simp_all

declare escape.simps [simp del]

lemma fits_cases: "fits c st \<Longrightarrow> st = Data \<or> st = InValue"
  by (cases c) auto

lemma render_simps [simp]:
  "render [] = []"
  "render (p # ps) = piece_html p @ render ps"
  by (simp_all add: render_def)

lemma skeleton_simps [simp]:
  "skeleton [] = []"
  "skeleton (Lit l # ps) = l @ skeleton ps"
  "skeleton (Hole c v # ps) = escape c '''' @ skeleton ps"
  by (simp_all add: skeleton_def)

text \<open>A page whose values are in their places has the markup of its skeleton.\<close>

lemma placed_inert:
  "placed st ps = Some st' \<Longrightarrow>
     final st (render ps) = st' \<and> markup st (render ps) = markup st (skeleton ps)"
  by (induction st ps rule: placed.induct) (auto split: if_splits dest!: fits_cases)

text \<open>Rules that follow the structure of a template.\<close>

lemma placed_Lit [simp]: "placed (final st l) qs = Some st' \<Longrightarrow> placed st (Lit l # qs) = Some st'"
  by (cases "(st, Lit l # qs)" rule: placed.cases) auto

lemma placed_append [simp]:
  "placed st ps = Some st \<Longrightarrow> placed st qs = Some st' \<Longrightarrow> placed st (ps @ qs) = Some st'"
proof -
  have "placed st0 ps = Some st1 \<Longrightarrow> placed st1 qs = Some st' \<Longrightarrow> placed st0 (ps @ qs) = Some st'" for st0 st1
    by (induction st0 ps rule: placed.induct) (auto split: if_splits)
  then show "placed st ps = Some st \<Longrightarrow> placed st qs = Some st' \<Longrightarrow> placed st (ps @ qs) = Some st'" .
qed

lemma placed_if [simp]:
  "(b \<Longrightarrow> placed st ps = Some st') \<Longrightarrow> (\<not> b \<Longrightarrow> placed st qs = Some st') \<Longrightarrow>
     placed st (if b then ps else qs) = Some st'"
  by simp

lemma placed_option [simp]:
  "(\<And>t. placed st (f t) = Some st') \<Longrightarrow> placed st qs = Some st' \<Longrightarrow>
     placed st (case x of None \<Rightarrow> qs | Some t \<Rightarrow> f t) = Some st'"
  by (cases x) auto

lemma placed_rows [simp]:
  assumes "\<And>x. x \<in> set xs \<Longrightarrow> placed Data (f x) = Some Data"
  shows "placed Data (concat (map f xs)) = Some Data"
  using assms by (induction xs) auto

text \<open>The literals of the templates end outside every tag, or inside the attribute a value follows in.\<close>

lemmas text_defs = nl_def em_dash_def ellipsis_def

lemma literals_closed [simp]:
  "final Data base_1 = Data"
  "final Data base_2 = Data"
  "final Data login_content_1 = Data"
  "final Data home_content_2 = Data"
  "final Data home_content_3 = Data"
  "final Data home_content_4 = Data"
  "final Data home_content_5 = Data"
  "final Data nodes_table_1 = Data"
  "final Data nodes_table_2 = Data"
  "final Data nodeDetail_content_2 = InValue"
  "final Data nodeDetail_content_10 = Data"
  "final Data audit_content_1 = Data"
  "final Data audit_content_2 = Data"
  "final Data audit_content_13 = Data"
  "final Data audit_content_14 = Data"
  "final Data keys_content_3 = Data"
  "final Data keys_content_4 = Data"
  "final InValue keys_content_16 = Data"
  "final Data keyCreated_content_1 = Data"
  "final Data keyCreated_content_2 = Data"
  "final Data workerKeys_content_3 = Data"
  "final Data workerKeys_content_9 = Data"
  "final Data workerKeys_content_10 = Data"
  "final Data workerKeyCreated_content_2 = Data"
  "final Data workerKeyCreated_content_3 = Data"
  "final Data workerKeyCreated_content_5 = Data"
  by (simp_all add: base_1_def base_2_def login_content_1_def home_content_2_def home_content_3_def home_content_4_def
      home_content_5_def nodes_table_1_def nodes_table_2_def nodeDetail_content_2_def nodeDetail_content_10_def
      audit_content_1_def audit_content_2_def audit_content_13_def audit_content_14_def keys_content_3_def
      keys_content_4_def keys_content_16_def keyCreated_content_1_def keyCreated_content_2_def
      workerKeys_content_3_def workerKeys_content_9_def workerKeys_content_10_def workerKeyCreated_content_2_def
      workerKeyCreated_content_3_def workerKeyCreated_content_5_def text_defs)

lemma login_placed: "placed Data login_content = Some Data"
  by (simp add: login_content_def)

lemma home_placed: "placed Data (home_content env ns online) = Some Data"
  by (simp add: home_content_def own_path_def text_defs)

lemma nodes_table_placed: "placed Data (nodes_table env ns) = Some Data"
  by (simp add: nodes_table_def own_path_def text_defs)

lemma nodes_placed: "placed Data (nodes_content env ns) = Some Data"
  by (simp add: nodes_content_def nodes_table_placed text_defs)

lemma nodeDetail_placed: "placed Data (nodeDetail_content env n) = Some Data"
  by (simp add: nodeDetail_content_def text_defs)

lemma audit_placed: "placed Data (audit_content env es aes) = Some Data"
  by (simp add: audit_content_def text_defs)

lemma keys_placed: "placed Data (keys_content env ks err) = Some Data"
  by (simp add: keys_content_def own_path_def text_defs)

lemma keyCreated_placed: "placed Data (keyCreated_content raw) = Some Data"
  by (simp add: keyCreated_content_def)

lemma workerKeys_placed: "placed Data (workerKeys_content env toks err) = Some Data"
  by (simp add: workerKeys_content_def own_path_def text_defs)

lemma workerKeyCreated_placed: "placed Data (workerKeyCreated_content node raw) = Some Data"
  by (simp add: workerKeyCreated_content_def text_defs)

lemma base_placed: "placed Data content = Some Data \<Longrightarrow> placed Data (base title content) = Some Data"
  by (simp add: base_def text_defs)

lemma page_placed: "placed Data (page_pieces env p) = Some Data"
  by (cases p)
    (simp_all add: loginPage_def homePage_def nodesPage_html_def nodesFragment_def nodeDetailPage_html_def
      keysPage_html_def keyCreatedPage_html_def workerKeysPage_html_def workerKeyCreatedPage_html_def
      auditPage_html_def renderPage_def base_placed login_placed home_placed nodes_table_placed nodes_placed
      nodeDetail_placed audit_placed keys_placed keyCreated_placed workerKeys_placed workerKeyCreated_placed)

section \<open>Values are shown as they are\<close>

definition show_nul :: "char \<Rightarrow> string" where
  "show_nul c = (if c = CHR 0x00 then replacement_char else [c])"

lemma unescape_nil [simp]: "html_unescape [] = []"
  by (subst html_unescape.simps) simp

lemma unescape_plain: "c \<noteq> CHR ''&'' \<Longrightarrow> html_unescape (c # s) = c # html_unescape s"
  by (subst html_unescape.simps) (simp add: htmlReplacementTable_def)

lemma unescape_entities:
  "html_unescape (''&#34;'' @ s) = CHR 0x22 # html_unescape s"
  "html_unescape (''&amp;'' @ s) = CHR ''&'' # html_unescape s"
  "html_unescape (''&#39;'' @ s) = CHR 0x27 # html_unescape s"
  "html_unescape (''&#43;'' @ s) = CHR ''+'' # html_unescape s"
  "html_unescape (''&lt;'' @ s) = CHR ''<'' # html_unescape s"
  "html_unescape (''&gt;'' @ s) = CHR ''>'' # html_unescape s"
  by (subst html_unescape.simps, simp add: htmlReplacementTable_def)+

lemma html_char_simps:
  "html_char (CHR 0x00) = replacement_char"
  "html_char (CHR 0x22) = ''&#34;''"
  "html_char (CHR ''&'') = ''&amp;''"
  "html_char (CHR 0x27) = ''&#39;''"
  "html_char (CHR ''+'') = ''&#43;''"
  "html_char (CHR ''<'') = ''&lt;''"
  "html_char (CHR ''>'') = ''&gt;''"
  "c \<notin> set ([CHR 0x00, CHR 0x22, CHR 0x27] @ ''&+<>'') \<Longrightarrow> html_char c = [c]"
  by (simp_all add: html_char_def htmlReplacementTable_def)

lemma unescape_html_char: "html_unescape (html_char c @ s) = show_nul c @ html_unescape s"
proof (cases "c \<in> set ([CHR 0x00, CHR 0x22, CHR 0x27] @ ''&+<>'')")
  case True
  then consider "c = CHR 0x00" | "c = CHR 0x22" | "c = CHR 0x27" | "c = CHR ''&''" | "c = CHR ''+''"
    | "c = CHR ''<''" | "c = CHR ''>''"
    by auto
  then show ?thesis
    using unescape_entities [of s]
    by cases (simp_all add: html_char_simps show_nul_def replacement_char_def unescape_plain)
qed (auto simp: html_char_simps show_nul_def unescape_plain)

lemma unescape_htmlReplacer: "html_unescape (htmlReplacer v) = concat (map show_nul v)"
  by (induction v) (simp_all add: unescape_html_char)

section \<open>Properties\<close>

fun secret_page :: "page \<Rightarrow> bool" where
  "secret_page (KeyCreated _) = True"
| "secret_page (WorkerKeyCreated _ _) = True"
| "secret_page _ = False"

lemma secret_not_stored:
  "(''Cache-Control'', ''no-store'') \<in> set (cspHeader @ handler_headers (Page p)) \<longleftrightarrow> secret_page p"
  by (cases p) (simp_all add: cspHeader_def)

lemma pages_not_static: "fst (registerRoutes aenv cookie req s) = Page p \<Longrightarrow> \<not> static_route req"
  by (cases req) (auto simp: registerRoutes_def loginForm_def staticJS_def split: option.splits)

text \<open>
  C24: whatever request the dashboard answers with a page, in whatever state and session: every value
  on the page stands in the context it was escaped for and every URL with a value in it starts with
  a path of the dashboard; the page ends outside every tag; its markup is the markup of the page with
  all values removed, so neither a node name, a model name a client asked for, a catalog entry nor
  an error message can open a tag or leave an attribute; the response carries the content security
  policy, and it forbids storing exactly when the page shows a secret. An escaped value is shown as
  it is, NUL apart.
\<close>

theorem dashboard_pages_inert:
  "(case fst (registerRoutes aenv cookie req s) of
      Page p \<Rightarrow>
        placed Data (page_pieces env p) = Some Data \<and>
        final Data (page_html env p) = Data \<and>
        markup Data (page_html env p) = markup Data (skeleton (page_pieces env p)) \<and>
        set cspHeader \<subseteq> set (response_headers req (Page p)) \<and>
        ((''Cache-Control'', ''no-store'') \<in> set (response_headers req (Page p)) \<longleftrightarrow> secret_page p)
    | _ \<Rightarrow> True) \<and>
   html_unescape (escape InText v) = concat (map show_nul v)"
proof -
  have "placed Data (page_pieces env p) = Some Data \<and>
      final Data (page_html env p) = Data \<and>
      markup Data (page_html env p) = markup Data (skeleton (page_pieces env p)) \<and>
      set cspHeader \<subseteq> set (response_headers req (Page p)) \<and>
      ((''Cache-Control'', ''no-store'') \<in> set (response_headers req (Page p)) \<longleftrightarrow> secret_page p)"
    if "fst (registerRoutes aenv cookie req s) = Page p" for p
    using page_placed [of env p] placed_inert [OF page_placed [of env p]] pages_not_static [OF that]
      secret_not_stored [of p]
    by (simp add: page_html_def response_headers_def)
  then show ?thesis
    by (auto simp: unescape_htmlReplacer escape.simps split: adm_response.split)
qed

text \<open>
  The link to a node is built with the URL normaliser of \<open>html/template\<close>, which leaves reserved
  characters as they are and percent-encodes others, while the handler compares the path parameter
  with the name as it is.
\<close>

lemma node_link_differs:
  "escape InURL ''gpu 1'' = ''gpu%201''"
  "escape InURL ''gpu/1'' = ''gpu/1''"
  "escape InURL ''gpu?1'' = ''gpu?1''"
  by (simp_all add: escape.simps url_kept_def unreserved_def percent_lower_def hextable_def html_char_simps)

text \<open>Identifiers made of letters, digits and the four unreserved marks are their own URL.\<close>

lemma unreserved_not_special:
  "unreserved c \<Longrightarrow> c \<notin> set ([CHR 0x00, CHR 0x22, CHR 0x27] @ ''&+<>'')"
  by (auto simp: unreserved_def)

lemma link_exact: "list_all unreserved v \<Longrightarrow> escape InURL v = v"
proof (induction v)
  case (Cons c v)
  then show ?case
    using html_char_simps(8) [OF unreserved_not_special, of c] by (simp add: escape.simps url_kept_def)
qed (simp add: escape.simps)

end
