(* ===== verification/Config.thy ===== *)
theory Config
  imports Url
begin

text \<open>
  Configuration of the two programs, \<open>src/internal/config/config.go\<close>: the records, the
  defaults, the optional TOML file, the environment overrides and the validation. The TOML
  decoder is a parameter (\<open>unmarshal\<close>: the record after decoding, or its error).
\<close>

section \<open>The records\<close>

record TLSFiles =
  tls_Enabled :: bool
  tls_CertFile :: string
  tls_KeyFile :: string
  tls_CAFile :: string

record HTTPConfig =
  http_Listen :: string
  http_TLS :: TLSFiles

record DBConfig =
  db_Path :: string

record SignerConfig =
  signer_KeyPath :: string

record NNGConfig =
  nng_Listen :: string
  nng_TLS :: TLSFiles

record AdminConfig =
  admin_Listen :: string
  admin_SessionSecretPath :: string

record RouterConfig =
  rc_HTTP :: HTTPConfig
  rc_DB :: DBConfig
  rc_Signer :: SignerConfig
  rc_NNG :: NNGConfig
  rc_Admin :: AdminConfig

record WorkerRouterConfig =
  wr_NNGAddr :: string
  wr_TLSCAFile :: string
  wr_TLSFingerprint :: string
  wr_HTTPProxy :: string

record WorkerEngineConfig =
  we_URL :: string

record WorkerConfig =
  wc_NodeID :: string
  wc_EnrollmentToken :: string
  wc_Router :: WorkerRouterConfig
  wc_Engine :: WorkerEngineConfig

datatype config_err =
    ReadConfig string string
  | ParseConfig string string
  | HTTPTLSIncomplete
  | MeshTLSIncomplete
  | MeshScheme string
  | Required string
  | BadProxy url_err

definition no_tls :: TLSFiles where
  "no_tls = \<lparr>tls_Enabled = False, tls_CertFile = '''', tls_KeyFile = '''', tls_CAFile = ''''\<rparr>"

definition defaultRouterConfig :: RouterConfig where
  "defaultRouterConfig =
     \<lparr>rc_HTTP = \<lparr>http_Listen = ''0.0.0.0:8443'', http_TLS = no_tls\<rparr>,
      rc_DB = \<lparr>db_Path = ''linguine.db''\<rparr>,
      rc_Signer = \<lparr>signer_KeyPath = ''linguine-signer.key''\<rparr>,
      rc_NNG = \<lparr>nng_Listen = ''ws://127.0.0.1:9000/mesh'', nng_TLS = no_tls\<rparr>,
      rc_Admin = \<lparr>admin_Listen = ''127.0.0.1:8444'', admin_SessionSecretPath = ''linguine-admin.key''\<rparr>\<rparr>"

definition defaultWorkerConfig :: WorkerConfig where
  "defaultWorkerConfig =
     \<lparr>wc_NodeID = '''', wc_EnrollmentToken = '''',
      wc_Router = \<lparr>wr_NNGAddr = ''wss://127.0.0.1:9000/mesh'', wr_TLSCAFile = '''', wr_TLSFingerprint = '''', wr_HTTPProxy = ''''\<rparr>,
      wc_Engine = \<lparr>we_URL = ''http://127.0.0.1:8080/v1/chat/completions''\<rparr>\<rparr>"

section \<open>File and environment\<close>

definition readTOML ::
  "(bytes \<Rightarrow> 'c \<Rightarrow> string + 'c) \<Rightarrow> (string \<Rightarrow> read_result) \<Rightarrow> string \<Rightarrow> 'c \<Rightarrow> config_err + 'c" where
  "readTOML unmarshal file path dst =
     (if path = '''' then Inr dst
      else case file path of
             ReadNotExist \<Rightarrow> Inr dst
           | ReadFail m \<Rightarrow> Inl (ReadConfig path m)
           | ReadOk data \<Rightarrow>
               (case unmarshal data dst of
                  Inl m \<Rightarrow> Inl (ParseConfig path m)
                | Inr c \<Rightarrow> Inr c))"

type_synonym environ = "string \<Rightarrow> string option"

definition envStr :: "environ \<Rightarrow> string \<Rightarrow> string \<Rightarrow> string" where
  "envStr env key dst = (case env key of Some v \<Rightarrow> v | None \<Rightarrow> dst)"

text \<open>
  \<open>strings.ToLower\<close> is modelled on ASCII letters: the words compared with contain neither
  \<open>i\<close> nor \<open>k\<close>, the only ASCII letters that are the lower case of another character.
\<close>

definition parseBoolEnv :: "string \<Rightarrow> bool option" where
  "parseBoolEnv v =
     (let w = map ascii_lower v
      in if w \<in> {''true'', ''1'', ''yes'', ''on''} then Some True
         else if w \<in> {''false'', ''0'', ''no'', ''off''} then Some False
         else None)"

definition envBool :: "environ \<Rightarrow> string \<Rightarrow> bool \<Rightarrow> bool" where
  "envBool env key dst =
     (case env key of
        Some v \<Rightarrow> (case parseBoolEnv v of Some b \<Rightarrow> b | None \<Rightarrow> dst)
      | None \<Rightarrow> dst)"

definition applyRouterEnv :: "environ \<Rightarrow> RouterConfig \<Rightarrow> RouterConfig" where
  "applyRouterEnv env c =
     \<lparr>rc_HTTP = \<lparr>http_Listen = envStr env ''LINGUINE_ROUTER_HTTP_LISTEN'' (http_Listen (rc_HTTP c)),
        http_TLS = \<lparr>tls_Enabled = envBool env ''LINGUINE_ROUTER_HTTP_TLS_ENABLED'' (tls_Enabled (http_TLS (rc_HTTP c))),
          tls_CertFile = envStr env ''LINGUINE_ROUTER_HTTP_TLS_CERT'' (tls_CertFile (http_TLS (rc_HTTP c))),
          tls_KeyFile = envStr env ''LINGUINE_ROUTER_HTTP_TLS_KEY'' (tls_KeyFile (http_TLS (rc_HTTP c))),
          tls_CAFile = envStr env ''LINGUINE_ROUTER_HTTP_TLS_CA'' (tls_CAFile (http_TLS (rc_HTTP c)))\<rparr>\<rparr>,
      rc_DB = \<lparr>db_Path = envStr env ''LINGUINE_ROUTER_DB_PATH'' (db_Path (rc_DB c))\<rparr>,
      rc_Signer = \<lparr>signer_KeyPath = envStr env ''LINGUINE_ROUTER_SIGNER_KEY_PATH'' (signer_KeyPath (rc_Signer c))\<rparr>,
      rc_NNG = \<lparr>nng_Listen = envStr env ''LINGUINE_ROUTER_NNG_LISTEN'' (nng_Listen (rc_NNG c)),
        nng_TLS = \<lparr>tls_Enabled = tls_Enabled (nng_TLS (rc_NNG c)),
          tls_CertFile = envStr env ''LINGUINE_ROUTER_NNG_TLS_CERT'' (tls_CertFile (nng_TLS (rc_NNG c))),
          tls_KeyFile = envStr env ''LINGUINE_ROUTER_NNG_TLS_KEY'' (tls_KeyFile (nng_TLS (rc_NNG c))),
          tls_CAFile = envStr env ''LINGUINE_ROUTER_NNG_TLS_CA'' (tls_CAFile (nng_TLS (rc_NNG c)))\<rparr>\<rparr>,
      rc_Admin = \<lparr>admin_Listen = envStr env ''LINGUINE_ROUTER_ADMIN_LISTEN'' (admin_Listen (rc_Admin c)),
        admin_SessionSecretPath = envStr env ''LINGUINE_ROUTER_ADMIN_SESSION_SECRET_PATH'' (admin_SessionSecretPath (rc_Admin c))\<rparr>\<rparr>"

definition applyWorkerEnv :: "environ \<Rightarrow> WorkerConfig \<Rightarrow> WorkerConfig" where
  "applyWorkerEnv env c =
     \<lparr>wc_NodeID = envStr env ''LINGUINE_WORKER_NODE_ID'' (wc_NodeID c),
      wc_EnrollmentToken = envStr env ''LINGUINE_WORKER_ENROLLMENT_TOKEN'' (wc_EnrollmentToken c),
      wc_Router = \<lparr>wr_NNGAddr = envStr env ''LINGUINE_WORKER_ROUTER_NNG_ADDR'' (wr_NNGAddr (wc_Router c)),
        wr_TLSCAFile = envStr env ''LINGUINE_WORKER_ROUTER_TLS_CA'' (wr_TLSCAFile (wc_Router c)),
        wr_TLSFingerprint = envStr env ''LINGUINE_WORKER_ROUTER_TLS_FINGERPRINT'' (wr_TLSFingerprint (wc_Router c)),
        wr_HTTPProxy = envStr env ''LINGUINE_WORKER_ROUTER_HTTP_PROXY'' (wr_HTTPProxy (wc_Router c))\<rparr>,
      wc_Engine = \<lparr>we_URL = envStr env ''LINGUINE_WORKER_ENGINE_URL'' (we_URL (wc_Engine c))\<rparr>\<rparr>"

section \<open>Validation and loading\<close>

definition RouterConfig_Validate :: "RouterConfig \<Rightarrow> config_err option" where
  "RouterConfig_Validate c =
     (let ht = http_TLS (rc_HTTP c); nt = nng_TLS (rc_NNG c); listen = nng_Listen (rc_NNG c)
      in if tls_Enabled ht \<and> (tls_CertFile ht = '''' \<or> tls_KeyFile ht = '''') then Some HTTPTLSIncomplete
         else if prefix ''wss://'' listen then
           (if (tls_CertFile nt = '''') \<noteq> (tls_KeyFile nt = '''') then Some MeshTLSIncomplete else None)
         else if prefix ''ws://'' listen then None
         else Some (MeshScheme listen))"

definition WorkerConfig_Validate :: "WorkerConfig \<Rightarrow> config_err option" where
  "WorkerConfig_Validate c =
     (if wc_NodeID c = '''' then Some (Required ''node_id'')
      else if wc_EnrollmentToken c = '''' then Some (Required ''enrollment_token'')
      else if wr_NNGAddr (wc_Router c) = '''' then Some (Required ''router.nng_addr'')
      else if we_URL (wc_Engine c) = '''' then Some (Required ''engine.url'')
      else if wr_HTTPProxy (wc_Router c) \<noteq> '''' then (case url_Parse (wr_HTTPProxy (wc_Router c)) of Inl e \<Rightarrow> Some (BadProxy e) | Inr _ \<Rightarrow> None)
      else None)"

definition LoadRouter ::
  "(bytes \<Rightarrow> RouterConfig \<Rightarrow> string + RouterConfig) \<Rightarrow> (string \<Rightarrow> read_result) \<Rightarrow> environ \<Rightarrow> string \<Rightarrow>
   config_err + RouterConfig" where
  "LoadRouter unmarshal file env path =
     (case readTOML unmarshal file path defaultRouterConfig of
        Inl e \<Rightarrow> Inl e
      | Inr c \<Rightarrow>
          let c' = applyRouterEnv env c
          in (case RouterConfig_Validate c' of Some e \<Rightarrow> Inl e | None \<Rightarrow> Inr c'))"

definition LoadWorker ::
  "(bytes \<Rightarrow> WorkerConfig \<Rightarrow> string + WorkerConfig) \<Rightarrow> (string \<Rightarrow> read_result) \<Rightarrow>
   environ \<Rightarrow> string \<Rightarrow> config_err + WorkerConfig" where
  "LoadWorker unmarshal file env path =
     (case readTOML unmarshal file path defaultWorkerConfig of
        Inl e \<Rightarrow> Inl e
      | Inr c \<Rightarrow>
          let c' = applyWorkerEnv env c
          in (case WorkerConfig_Validate c' of Some e \<Rightarrow> Inl e | None \<Rightarrow> Inr c'))"

section \<open>Layers\<close>

text \<open>
  What both programs rely on: a configuration is built in layers, the environment over the file
  over the defaults, and validated last.
\<close>

locale layered_config =
  fixes defaults :: 'c
    and apply_env :: "environ \<Rightarrow> 'c \<Rightarrow> 'c"
    and validate :: "'c \<Rightarrow> config_err option"
    and load :: "(bytes \<Rightarrow> 'c \<Rightarrow> string + 'c) \<Rightarrow> (string \<Rightarrow> read_result) \<Rightarrow> environ \<Rightarrow> string \<Rightarrow> config_err + 'c"
  assumes load_Inr: "load unmarshal file env path = Inr c \<longleftrightarrow>
      (\<exists>c0. readTOML unmarshal file path defaults = Inr c0 \<and> c = apply_env env c0 \<and> validate c = None)"
    and load_Inl: "load unmarshal file env path = Inl e \<longleftrightarrow>
      readTOML unmarshal file path defaults = Inl e \<or>
      (\<exists>c0. readTOML unmarshal file path defaults = Inr c0 \<and> validate (apply_env env c0) = Some e)"
    and env_idem: "apply_env env (apply_env env c) = apply_env env c"
    and env_empty: "apply_env (\<lambda>_. None) c = c"
begin

lemma loaded_valid: "load unmarshal file env path = Inr c \<Longrightarrow> validate c = None"
  by (auto simp: load_Inr)

lemma loaded_env_wins: "load unmarshal file env path = Inr c \<Longrightarrow> apply_env env c = c"
  by (auto simp: load_Inr env_idem)

lemma no_file: "path = '''' \<or> file path = ReadNotExist \<Longrightarrow> readTOML unmarshal file path d = Inr d"
  by (auto simp: readTOML_def)

lemma loaded_without_file:
  assumes "path = '''' \<or> file path = ReadNotExist"
  shows "load unmarshal file env path =
    (case validate (apply_env env defaults) of None \<Rightarrow> Inr (apply_env env defaults) | Some e \<Rightarrow> Inl e)"
  using no_file [of path "file" unmarshal defaults, OF assms]
  by (cases "validate (apply_env env defaults)") (auto simp: load_Inr load_Inl)

lemma bad_file:
  "path \<noteq> '''' \<Longrightarrow> file path = ReadFail m \<Longrightarrow> load unmarshal file env path = Inl (ReadConfig path m)"
  by (auto simp: load_Inl readTOML_def)

lemma unset_env_keeps_file:
  assumes "path \<noteq> ''''" "file path = ReadOk data" "unmarshal data defaults = Inr c" "validate c = None"
  shows "load unmarshal file (\<lambda>_. None) path = Inr c"
  using assms by (auto simp: load_Inr readTOML_def env_empty)

end

lemma envStr_idem [simp]: "envStr env k (envStr env k d) = envStr env k d"
  by (simp add: envStr_def split: option.splits)

lemma envBool_idem [simp]: "envBool env k (envBool env k d) = envBool env k d"
  by (simp add: envBool_def split: option.splits)

lemma env_unset [simp]: "envStr (\<lambda>_. None) k d = d" "envBool (\<lambda>_. None) k b = b"
  by (simp_all add: envStr_def envBool_def)

interpretation router_config: layered_config defaultRouterConfig applyRouterEnv RouterConfig_Validate LoadRouter
proof unfold_locales
  show "applyRouterEnv env (applyRouterEnv env c) = applyRouterEnv env c" for env c
    by (simp add: applyRouterEnv_def)
  show "applyRouterEnv (\<lambda>_. None) c = c" for c
    by (simp add: applyRouterEnv_def)
qed (auto simp: LoadRouter_def Let_def split: sum.splits option.splits)

interpretation worker_config: layered_config defaultWorkerConfig applyWorkerEnv WorkerConfig_Validate LoadWorker
proof unfold_locales
  show "applyWorkerEnv env (applyWorkerEnv env c) = applyWorkerEnv env c" for env c
    by (simp add: applyWorkerEnv_def)
  show "applyWorkerEnv (\<lambda>_. None) c = c" for c
    by (simp add: applyWorkerEnv_def)
qed (auto simp: LoadWorker_def Let_def split: sum.splits option.splits)

lemma RouterConfig_Validate_None:
  "RouterConfig_Validate c = None \<longleftrightarrow>
     (tls_Enabled (http_TLS (rc_HTTP c)) \<longrightarrow>
        tls_CertFile (http_TLS (rc_HTTP c)) \<noteq> '''' \<and> tls_KeyFile (http_TLS (rc_HTTP c)) \<noteq> '''') \<and>
     (prefix ''ws://'' (nng_Listen (rc_NNG c)) \<or>
      prefix ''wss://'' (nng_Listen (rc_NNG c)) \<and>
        (tls_CertFile (nng_TLS (rc_NNG c)) = '''' \<longleftrightarrow> tls_KeyFile (nng_TLS (rc_NNG c)) = ''''))"
proof -
  have "\<not> (prefix ''wss://'' l \<and> prefix ''ws://'' l)" for l
    by (auto simp: prefix_def)
  then show ?thesis
    by (auto simp: RouterConfig_Validate_def Let_def split: if_splits)
qed

section \<open>Properties\<close>

text \<open>The documented variables of the router and the setting each of them overrides.\<close>

definition router_settings :: "(string \<times> (RouterConfig \<Rightarrow> string)) list" where
  "router_settings =
     [(''LINGUINE_ROUTER_HTTP_LISTEN'', \<lambda>c. http_Listen (rc_HTTP c)),
      (''LINGUINE_ROUTER_HTTP_TLS_CERT'', \<lambda>c. tls_CertFile (http_TLS (rc_HTTP c))),
      (''LINGUINE_ROUTER_HTTP_TLS_KEY'', \<lambda>c. tls_KeyFile (http_TLS (rc_HTTP c))),
      (''LINGUINE_ROUTER_HTTP_TLS_CA'', \<lambda>c. tls_CAFile (http_TLS (rc_HTTP c))),
      (''LINGUINE_ROUTER_DB_PATH'', \<lambda>c. db_Path (rc_DB c)),
      (''LINGUINE_ROUTER_SIGNER_KEY_PATH'', \<lambda>c. signer_KeyPath (rc_Signer c)),
      (''LINGUINE_ROUTER_NNG_LISTEN'', \<lambda>c. nng_Listen (rc_NNG c)),
      (''LINGUINE_ROUTER_NNG_TLS_CERT'', \<lambda>c. tls_CertFile (nng_TLS (rc_NNG c))),
      (''LINGUINE_ROUTER_NNG_TLS_KEY'', \<lambda>c. tls_KeyFile (nng_TLS (rc_NNG c))),
      (''LINGUINE_ROUTER_NNG_TLS_CA'', \<lambda>c. tls_CAFile (nng_TLS (rc_NNG c))),
      (''LINGUINE_ROUTER_ADMIN_LISTEN'', \<lambda>c. admin_Listen (rc_Admin c)),
      (''LINGUINE_ROUTER_ADMIN_SESSION_SECRET_PATH'', \<lambda>c. admin_SessionSecretPath (rc_Admin c))]"

lemma applyRouterEnv_settings:
  "c = applyRouterEnv env c0 \<longleftrightarrow>
     (\<forall>(var, get) \<in> set router_settings. get c = (case env var of Some v \<Rightarrow> v | None \<Rightarrow> get c0)) \<and>
     tls_Enabled (http_TLS (rc_HTTP c)) = envBool env ''LINGUINE_ROUTER_HTTP_TLS_ENABLED'' (tls_Enabled (http_TLS (rc_HTTP c0))) \<and>
     tls_Enabled (nng_TLS (rc_NNG c)) = tls_Enabled (nng_TLS (rc_NNG c0))"
  by (auto simp: router_settings_def applyRouterEnv_def simp flip: envStr_def)



text \<open>
  A worker configuration that loads names the node, its enrollment token, the router and
  the engine, and a proxy, if any, that is a URL; set variables have won. A worker without a
  node id, whatever else is configured, is refused.
\<close>
lemma worker_config_sound:
  assumes "LoadWorker unmarshal file env path = Inr c"
  shows "wc_NodeID c \<noteq> '''' \<and> wc_EnrollmentToken c \<noteq> '''' \<and> wr_NNGAddr (wc_Router c) \<noteq> '''' \<and>
    we_URL (wc_Engine c) \<noteq> '''' \<and>
    (wr_HTTPProxy (wc_Router c) = '''' \<or> \<not> isl (url_Parse (wr_HTTPProxy (wc_Router c)))) \<and>
    applyWorkerEnv env c = c \<and>
    LoadWorker unmarshal file (env(''LINGUINE_WORKER_NODE_ID'' \<mapsto> '''')) path = Inl (Required ''node_id'')"
proof -
  have "WorkerConfig_Validate c = None"
    using assms by (rule worker_config.loaded_valid)
  then have valid: "wc_NodeID c \<noteq> '''' \<and> wc_EnrollmentToken c \<noteq> '''' \<and> wr_NNGAddr (wc_Router c) \<noteq> '''' \<and>
      we_URL (wc_Engine c) \<noteq> '''' \<and> (wr_HTTPProxy (wc_Router c) = '''' \<or> \<not> isl (url_Parse (wr_HTTPProxy (wc_Router c))))"
    by (auto simp: WorkerConfig_Validate_def split: if_splits sum.splits)
  obtain c0 where "readTOML unmarshal file path defaultWorkerConfig = Inr c0"
    using assms by (auto simp: worker_config.load_Inr)
  moreover have "WorkerConfig_Validate (applyWorkerEnv (env(''LINGUINE_WORKER_NODE_ID'' \<mapsto> '''')) c0) =
      Some (Required ''node_id'')"
    by (simp add: WorkerConfig_Validate_def applyWorkerEnv_def envStr_def)
  ultimately have "LoadWorker unmarshal file (env(''LINGUINE_WORKER_NODE_ID'' \<mapsto> '''')) path = Inl (Required ''node_id'')"
    by (auto simp: worker_config.load_Inl)
  with valid show ?thesis
    using worker_config.loaded_env_wins [OF assms] by (intro conjI) simp_all
qed

lemma worker_config_sound_instance:
  "\<exists>c. LoadWorker (\<lambda>_ d. Inr d) (\<lambda>_. ReadNotExist)
        [''LINGUINE_WORKER_NODE_ID'' \<mapsto> ''gpu-1'', ''LINGUINE_WORKER_ENROLLMENT_TOKEN'' \<mapsto> ''t''] '''' = Inr c \<and>
     wc_NodeID c \<noteq> '''' \<and> wc_EnrollmentToken c \<noteq> ''''"
proof -
  obtain c where l: "LoadWorker (\<lambda>_ d. Inr d) (\<lambda>_. ReadNotExist)
      [''LINGUINE_WORKER_NODE_ID'' \<mapsto> ''gpu-1'', ''LINGUINE_WORKER_ENROLLMENT_TOKEN'' \<mapsto> ''t''] '''' = Inr c"
    by (simp add: LoadWorker_def readTOML_def Let_def WorkerConfig_Validate_def applyWorkerEnv_def envStr_def
        defaultWorkerConfig_def)
  from worker_config_sound [OF l] l show ?thesis by blast
qed

end
