(* ===== verification/Net.thy ===== *)
theory Net
  imports Encoding
begin

text \<open>
  IP addresses as \<open>net.ParseIP\<close> of the standard library reads them: dotted quads without leading
  zeros, and the groups of IPv6 with one ellipsis and an embedded dotted quad at the end. An address
  is its sixteen bytes, an IPv4 one in its mapped form. The start-up warnings of Commands rest on it.
\<close>

section \<open>IPv4\<close>

text \<open>\<open>parseIPv4Fields\<close>: the value and the number of digits of the current field, and the fields before it.\<close>

fun ipv4_fields :: "nat \<Rightarrow> nat \<Rightarrow> nat list \<Rightarrow> string \<Rightarrow> nat list option" where
  "ipv4_fields val digLen fs [] = (if length fs < 3 then None else Some (fs @ [val]))"
| "ipv4_fields val digLen fs (c # s) =
     (case char_digit c of
        Some d \<Rightarrow>
          if digLen = 1 \<and> val = 0 then None
          else if val * 10 + d > 255 then None
          else ipv4_fields (val * 10 + d) (Suc digLen) fs s
      | None \<Rightarrow>
          if c = CHR ''.'' then
            if digLen = 0 \<or> s = [] then None
            else if length fs = 3 then None
            else ipv4_fields 0 0 (fs @ [val]) s
          else None)"

definition v4_mapped :: "nat list \<Rightarrow> nat list" where
  "v4_mapped fs = replicate 10 0 @ [255, 255] @ fs"

section \<open>IPv6\<close>

text \<open>The hexadecimal digits a group starts with: how many, their value, and the text behind them.\<close>

fun hex_group :: "nat \<Rightarrow> nat \<Rightarrow> string \<Rightarrow> (nat \<times> nat \<times> string) option" where
  "hex_group off acc [] = Some (off, acc, [])"
| "hex_group off acc (c # s) =
     (case fromHexChar c of
        None \<Rightarrow> Some (off, acc, c # s)
      | Some v \<Rightarrow> if off > 3 then None else hex_group (Suc off) (acc * 16 + v) s)"

text \<open>
  The loop over the groups, at most \<open>n\<close> of them: the bytes so far, the position of the ellipsis,
  and the text that is left.
\<close>

fun ipv6_groups :: "nat \<Rightarrow> nat list \<Rightarrow> nat option \<Rightarrow> string \<Rightarrow> (nat list \<times> nat option \<times> string) option" where
  "ipv6_groups 0 ip ell s = Some (ip, ell, s)"
| "ipv6_groups (Suc n) ip ell s =
     (case hex_group 0 0 s of
        None \<Rightarrow> None
      | Some (off, acc, rest) \<Rightarrow>
          if off = 0 then None
          else
            (case rest of
               [] \<Rightarrow> Some (ip @ [acc div 256, acc mod 256], ell, [])
             | c # cs \<Rightarrow>
                 if c = CHR ''.'' then
                   if ell = None \<and> length ip \<noteq> 12 then None
                   else if length ip + 4 > 16 then None
                   else map_option (\<lambda>fs. (ip @ fs, ell, [])) (ipv4_fields 0 0 [] s)
                 else if c \<noteq> CHR '':'' then None
                 else
                   (case cs of
                      [] \<Rightarrow> None
                    | d # ds \<Rightarrow>
                        let ip' = ip @ [acc div 256, acc mod 256]
                        in if d = CHR '':'' then
                             if ell \<noteq> None then None
                             else if ds = [] then Some (ip', Some (length ip'), [])
                             else ipv6_groups n ip' (Some (length ip')) ds
                           else ipv6_groups n ip' ell cs)))"

definition expand_ellipsis :: "nat list \<times> nat option \<times> string \<Rightarrow> nat list option" where
  "expand_ellipsis r =
     (case r of
        (ip, ell, s) \<Rightarrow>
          if s \<noteq> [] then None
          else if length ip < 16 then
            (case ell of None \<Rightarrow> None | Some e \<Rightarrow> Some (take e ip @ replicate (16 - length ip) 0 @ drop e ip))
          else if ell \<noteq> None then None
          else Some ip)"

text \<open>\<open>ParseIP\<close> refuses an address with a zone.\<close>

definition parseIPv6 :: "string \<Rightarrow> nat list option" where
  "parseIPv6 s =
     (if CHR ''%'' \<in> set s then None
      else if take 2 s = ''::'' then
        (if drop 2 s = [] then Some (replicate 16 0)
         else Option.bind (ipv6_groups 8 [] (Some 0) (drop 2 s)) expand_ellipsis)
      else Option.bind (ipv6_groups 8 [] None s) expand_ellipsis)"

text \<open>The first dot, colon or percent sign decides.\<close>

definition ParseIP :: "string \<Rightarrow> nat list option" where
  "ParseIP s =
     (case dropWhile (\<lambda>c. c \<notin> {CHR ''.'', CHR '':'', CHR ''%''}) s of
        [] \<Rightarrow> None
      | c # _ \<Rightarrow>
          if c = CHR ''.'' then map_option v4_mapped (ipv4_fields 0 0 [] s)
          else if c = CHR '':'' then parseIPv6 s
          else None)"

definition IsLoopback :: "nat list \<Rightarrow> bool" where
  "IsLoopback ip =
     (if take 12 ip = replicate 10 0 @ [255, 255] then ip ! 12 = 127
      else ip = replicate 15 0 @ [1])"

section \<open>Dotted quads are read back\<close>

definition dotted :: "nat \<Rightarrow> nat \<Rightarrow> nat \<Rightarrow> nat \<Rightarrow> string" where
  "dotted a b c d = format_nat a @ ''.'' @ format_nat b @ ''.'' @ format_nat c @ ''.'' @ format_nat d"

lemma ipv4_fields_format:
  "n < 256 \<Longrightarrow> ipv4_fields 0 0 fs (format_nat n @ s) = ipv4_fields n (length (format_nat n)) fs s"
proof (induction n arbitrary: s rule: format_nat.induct)
  case (1 n)
  show ?case
  proof (cases "n < 10")
    case False
    then have "0 < n div 10" "n div 10 < 256" "n div 10 * 10 + n mod 10 = n"
      using "1.prems" by auto
    moreover have "format_nat n = format_nat (n div 10) @ [digit_char (n mod 10)]"
      using False by (simp add: format_nat.simps [of n])
    ultimately show ?thesis
      using "1.IH" [of "digit_char (n mod 10) # s"] False "1.prems" by simp
  qed (simp add: format_nat.simps [of n])
qed

lemma ipv4_fields_field:
  assumes "n < 256" "length fs < 3" "s \<noteq> []"
  shows "ipv4_fields 0 0 fs (format_nat n @ CHR ''.'' # s) = ipv4_fields 0 0 (fs @ [n]) s"
  using assms by (simp add: ipv4_fields_format char_digit_def)

lemma ipv4_fields_dotted:
  assumes "a < 256" "b < 256" "c < 256" "d < 256"
  shows "ipv4_fields 0 0 [] (dotted a b c d) = Some [a, b, c, d]"
  using assms ipv4_fields_format [of d "[a, b, c]" "[]"] by (simp add: dotted_def ipv4_fields_field)

lemma format_nat_no: "char_digit x = None \<Longrightarrow> x \<notin> set (format_nat n)"
  by (auto dest!: format_nat_digits)

lemma dotted_chars: "set (dotted a b c d) \<subseteq> {x. x = CHR ''.'' \<or> char_digit x \<noteq> None}"
  using format_nat_no by (auto simp: dotted_def)

lemma ParseIP_dotted:
  assumes "a < 256" "b < 256" "c < 256" "d < 256"
  shows "ParseIP (dotted a b c d) = Some (v4_mapped [a, b, c, d])"
proof -
  have "x \<in> set (format_nat a) \<Longrightarrow> x \<notin> {CHR ''.'', CHR '':'', CHR ''%''}" for x
    using format_nat_no [of x a] by (auto simp: char_digit_def)
  then have "dropWhile (\<lambda>c. c \<notin> {CHR ''.'', CHR '':'', CHR ''%''}) (dotted a b c d) =
      ''.'' @ format_nat b @ ''.'' @ format_nat c @ ''.'' @ format_nat d"
    unfolding dotted_def by (subst dropWhile_append2) auto
  then show ?thesis
    using ipv4_fields_dotted [OF assms] by (simp add: ParseIP_def)
qed

lemma IsLoopback_v4: "IsLoopback (v4_mapped [a, b, c, d]) \<longleftrightarrow> a = 127"
  by (simp add: IsLoopback_def v4_mapped_def nth_append)

lemmas ipv6_groups_numeral = ipv6_groups.simps(2) [of "pred_numeral k" for k, folded numeral_eq_Suc]

text \<open>The forms of the IPv6 loopback address.\<close>

lemma ParseIP_samples:
  "ParseIP ''::1'' = Some (replicate 15 0 @ [1])"
  "ParseIP ''0:0:0:0:0:0:0:1'' = Some (replicate 15 0 @ [1])"
  "ParseIP ''::ffff:127.0.0.2'' = Some (v4_mapped [127, 0, 0, 2])"
  "ParseIP ''fe80::1'' = Some ([254, 128] @ replicate 13 0 @ [1])"
  "ParseIP ''127.0.0.01'' = None" "ParseIP ''1:2:3:4:5:6:7::8'' = None" "ParseIP ''localhost'' = None"
  by (simp_all add: ParseIP_def parseIPv6_def expand_ellipsis_def v4_mapped_def fromHexChar_def char_digit_def
      Let_def ipv6_groups_numeral)
    (simp_all add: eval_nat_numeral)

end
