(* ===== verification/Commands.thy ===== *)
theory Commands
  imports Config Net Auth Worker
begin

text \<open>
  The router's command line, \<open>src/cmd/linguine/main.go\<close>: flag parsing and dispatch, the three
  admin commands on the database, the start-up sequence of \<open>serve\<close> with its deferred clean-up,
  the mesh listener's TLS configuration and the warnings about exposed listeners.
\<close>

section \<open>Flags\<close>

text \<open>
  \<open>flag.FlagSet.Parse\<close> for string, duration and boolean flags: \<open>kinds\<close> are the flags defined,
  \<open>ok\<close> says whether a value parses for its kind. The result is the values set, the latest
  winning, and the remaining arguments.
\<close>

datatype flag_kind = StringFlag | DurationFlag | BoolFlag

datatype flag_err = BadSyntax string | NotDefined string | HelpWanted | NeedsArgument string | InvalidValue string string

datatype flag_arg = Positional | Terminator | Malformed | Flag string "string option"

definition split_flag :: "string \<Rightarrow> flag_arg" where
  "split_flag s =
     (if length s < 2 \<or> s ! 0 \<noteq> CHR ''-'' then Positional
      else if s = ''--'' then Terminator
      else
        let arg = (if s ! 1 = CHR ''-'' then drop 2 s else drop 1 s)
        in if arg = '''' \<or> arg ! 0 = CHR ''-'' \<or> arg ! 0 = CHR ''='' then Malformed
           else Flag (takeWhile (\<lambda>c. c \<noteq> CHR ''='') arg)
                  (if CHR ''='' \<in> set arg then Some (tl (dropWhile (\<lambda>c. c \<noteq> CHR ''='') arg)) else None))"

definition undefined_flag :: "string \<Rightarrow> flag_err" where
  "undefined_flag name = (if name = ''help'' \<or> name = ''h'' then HelpWanted else NotDefined name)"

definition true_value :: string where "true_value = ''true''"

fun parse_flags ::
  "(string \<Rightarrow> flag_kind option) \<Rightarrow> (flag_kind \<Rightarrow> string \<Rightarrow> bool) \<Rightarrow> string list \<Rightarrow> (string, string) gomap \<Rightarrow>
   flag_err + (string, string) gomap \<times> string list" where
  "parse_flags kinds ok [] vals = Inr (vals, [])"
| "parse_flags kinds ok (s # args) vals =
     (case split_flag s of
        Positional \<Rightarrow> Inr (vals, s # args)
      | Terminator \<Rightarrow> Inr (vals, args)
      | Malformed \<Rightarrow> Inl (BadSyntax s)
      | Flag name given \<Rightarrow>
          (case kinds name of
             None \<Rightarrow> Inl (undefined_flag name)
           | Some k \<Rightarrow>
               (case (if k = BoolFlag \<and> given = None then Some true_value else given) of
                  Some value \<Rightarrow>
                    if ok k value then parse_flags kinds ok args (AList.update name value vals)
                    else Inl (InvalidValue name value)
                | None \<Rightarrow>
                    (case args of
                       [] \<Rightarrow> Inl (NeedsArgument name)
                     | value # args' \<Rightarrow>
                         if ok k value then parse_flags kinds ok args' (AList.update name value vals)
                         else Inl (InvalidValue name value)))))"

definition flag_value :: "string \<Rightarrow> string \<Rightarrow> (string, string) gomap \<Rightarrow> string" where
  "flag_value name dflt vals = (case map_of vals name of Some v \<Rightarrow> v | None \<Rightarrow> dflt)"

text \<open>\<open>flag.ExitOnError\<close>.\<close>

definition flag_exit :: "flag_err \<Rightarrow> nat" where
  "flag_exit e = (if e = HelpWanted then 0 else 2)"

section \<open>Dispatch\<close>

datatype command = RunServe string | RunAdmin string "string list" | PrintVersion | ShowUsage | ExitWith nat

definition main_flags :: "string \<Rightarrow> flag_kind option" where
  "main_flags = [''config'' \<mapsto> StringFlag]"

definition linguine_main :: "string list \<Rightarrow> command" where
  "linguine_main argv =
     (case parse_flags main_flags (\<lambda>_ _. True) argv [] of
        Inl e \<Rightarrow> ExitWith (flag_exit e)
      | Inr (vals, args) \<Rightarrow>
          let path = flag_value ''config'' '''' vals
          in (case args of
                [] \<Rightarrow> RunServe path
              | c # rest \<Rightarrow>
                  if c = ''serve'' then RunServe path
                  else if c = ''admin'' then RunAdmin path rest
                  else if c = ''version'' then PrintVersion
                  else if c = ''-h'' \<or> c = ''--help'' \<or> c = ''help'' then ShowUsage
                  else ExitWith 2))"

section \<open>The admin commands\<close>

datatype cli_err =
    CliMsg string
  | CliConfig config_err
  | CliOpenStore string
  | CliAuth string auth_err
  | CliSQL string sql_err

datatype cli_result =
    CliExit nat
  | CliError cli_err
  | KeyPrinted string string string string
  | TokenPrinted string string string
  | RevokedPrinted string

record 'k cli_env =
  c_unmarshal :: "bytes \<Rightarrow> RouterConfig \<Rightarrow> string + RouterConfig"
  c_environ :: environ
  c_open_fault :: "string option"
  c_now :: time
  c_uuid :: string
  c_argon :: argon2
  c_salt :: "bytes option"
  c_key_rand :: bytes
  c_fault :: "string option"
  c_role_fault :: "string option"
  c_rfault :: "string option"
  c_duration :: "string \<Rightarrow> duration option"
  c_fromHex :: "string \<Rightarrow> 'k option"
  c_gen :: "bytes option"
  c_write_ok :: bool
  c_sign :: "'k \<Rightarrow> claims \<Rightarrow> string"

text \<open>What the commands act on: the database and the files.\<close>

record cli_world =
  cw_db :: db
  cw_file :: "string \<Rightarrow> read_result"

text \<open>The commands share this: load the configuration, open the store, run, close the store.\<close>

definition with_store ::
  "'k cli_env \<Rightarrow> string \<Rightarrow> (RouterConfig \<Rightarrow> cli_world \<Rightarrow> cli_result \<times> cli_world) \<Rightarrow> cli_world \<Rightarrow> cli_result \<times> cli_world" where
  "with_store env path body w =
     (case LoadRouter (c_unmarshal env) (cw_file w) (c_environ env) path of
        Inl e \<Rightarrow> (CliError (CliConfig e), w)
      | Inr cfg \<Rightarrow>
          (case c_open_fault env of
             Some m \<Rightarrow> (CliError (CliOpenStore m), w)
           | None \<Rightarrow> body cfg w))"

text \<open>\<open>adminCreateKey\<close> once the store is open.\<close>

definition create_key :: "'k cli_env \<Rightarrow> string \<Rightarrow> string \<Rightarrow> cli_world \<Rightarrow> cli_result \<times> cli_world" where
  "create_key env name role w =
     (let raw = GenerateAPIKey (c_key_rand env)
      in (case APIKey_Create (c_argon env) (c_salt env) (c_uuid env) (c_now env) (c_fault env) name raw (cw_db w) of
            Inl e \<Rightarrow> (CliError (CliAuth ''create api key'' e), w)
          | Inr (ak, d1) \<Rightarrow>
              if role = ''admin'' then
                (case update_api_key (c_role_fault env) (key_ID ak) (\<lambda>r. r\<lparr>ak_role := ''admin''\<rparr>) d1 of
                   Inl e \<Rightarrow> (CliError (CliSQL ''set admin role'' e), w\<lparr>cw_db := d1\<rparr>)
                 | Inr (d2, _) \<Rightarrow> (KeyPrinted raw (key_ID ak) (key_Name ak) role, w\<lparr>cw_db := d2\<rparr>))
              else (KeyPrinted raw (key_ID ak) (key_Name ak) role, w\<lparr>cw_db := d1\<rparr>)))"

definition adminCreateKey :: "'k cli_env \<Rightarrow> string \<Rightarrow> string list \<Rightarrow> cli_world \<Rightarrow> cli_result \<times> cli_world" where
  "adminCreateKey env path args w =
     (case parse_flags [''name'' \<mapsto> StringFlag, ''role'' \<mapsto> StringFlag] (\<lambda>_ _. True) args [] of
        Inl e \<Rightarrow> (CliExit (flag_exit e), w)
      | Inr (vals, _) \<Rightarrow>
          let name = flag_value ''name'' '''' vals; role = flag_value ''role'' ''client'' vals
          in if name = '''' then (CliError (CliMsg ''--name is required''), w)
             else if role \<noteq> ''client'' \<and> role \<noteq> ''admin'' then (CliError (CliMsg ''--role must be client or admin''), w)
             else with_store env path (\<lambda>cfg. create_key env name role) w)"

definition adminCreateEnrollment :: "'k cli_env \<Rightarrow> string \<Rightarrow> string list \<Rightarrow> cli_world \<Rightarrow> cli_result \<times> cli_world" where
  "adminCreateEnrollment env path args w =
     (case parse_flags [''node'' \<mapsto> StringFlag, ''ttl'' \<mapsto> DurationFlag]
             (\<lambda>k v. k = DurationFlag \<longrightarrow> c_duration env v \<noteq> None) args [] of
        Inl e \<Rightarrow> (CliExit (flag_exit e), w)
      | Inr (vals, _) \<Rightarrow>
          let node = flag_value ''node'' '''' vals;
              ttl = (case map_of vals ''ttl'' of None \<Rightarrow> 0 | Some v \<Rightarrow> the (c_duration env v))
          in if node = '''' then (CliError (CliMsg ''--node is required''), w)
             else
               with_store env path (\<lambda>cfg w.
                 let keyPath = signer_KeyPath (rc_Signer cfg);
                     (signer, content) = LoadOrCreateSigner (c_fromHex env) (cw_file w keyPath) (c_gen env) (c_write_ok env);
                     w1 = (case content of None \<Rightarrow> w | Some bs \<Rightarrow> w\<lparr>cw_file := (cw_file w)(keyPath := ReadOk bs)\<rparr>)
                 in (case signer of
                       Inl e \<Rightarrow> (CliError (CliAuth ''load signer'' e), w1)
                     | Inr k \<Rightarrow>
                         (case Enrollment_Create (c_sign env k) (c_uuid env) (c_now env) (c_now env) (c_fault env) node ttl (cw_db w1) of
                            Inl e \<Rightarrow> (CliError (CliAuth ''create enrollment token'' e), w1)
                          | Inr (et, tok, d1) \<Rightarrow> (TokenPrinted tok (tok_ID et) (tok_NodeName et), w1\<lparr>cw_db := d1\<rparr>)))) w)"

definition adminRevokeKey :: "'k cli_env \<Rightarrow> string \<Rightarrow> string list \<Rightarrow> cli_world \<Rightarrow> cli_result \<times> cli_world" where
  "adminRevokeKey env path args w =
     (case parse_flags [''id'' \<mapsto> StringFlag] (\<lambda>_ _. True) args [] of
        Inl e \<Rightarrow> (CliExit (flag_exit e), w)
      | Inr (vals, _) \<Rightarrow>
          let i = flag_value ''id'' '''' vals
          in if i = '''' then (CliError (CliMsg ''--id is required''), w)
             else
               with_store env path (\<lambda>cfg w.
                 (case APIKey_Revoke (c_now env) (c_fault env) (c_rfault env) i (cw_db w) of
                    (Some e, d1) \<Rightarrow> (CliError (CliAuth '''' e), w\<lparr>cw_db := d1\<rparr>)
                  | (None, d1) \<Rightarrow> (RevokedPrinted i, w\<lparr>cw_db := d1\<rparr>))) w)"

definition admin_command :: "'k cli_env \<Rightarrow> string \<Rightarrow> string list \<Rightarrow> cli_world \<Rightarrow> cli_result \<times> cli_world" where
  "admin_command env path args w =
     (case args of
        [] \<Rightarrow> (CliError (CliMsg ''admin requires a subcommand''), w)
      | c # rest \<Rightarrow>
          if c = ''create-key'' then adminCreateKey env path rest w
          else if c = ''create-enrollment-token'' then adminCreateEnrollment env path rest w
          else if c = ''revoke-key'' then adminRevokeKey env path rest w
          else (CliError (CliMsg ''unknown admin command''), w))"

section \<open>Exposed listeners\<close>

text \<open>\<open>net.SplitHostPort\<close>: the host and the port, or \<open>None\<close> for any of its address errors.\<close>

definition SplitHostPort :: "string \<Rightarrow> (string \<times> string) option" where
  "SplitHostPort hostport =
     (case split_last CHR '':'' hostport of
        None \<Rightarrow> None
      | Some (before, port) \<Rightarrow>
          if hostport ! 0 = CHR ''['' then
            (if CHR '']'' \<notin> set hostport then None
             else
               let host = takeWhile (\<lambda>c. c \<noteq> CHR '']'') (tl hostport)
               in if before \<noteq> ''['' @ host @ '']'' then None
                  else if CHR ''['' \<in> set host \<or> CHR ''['' \<in> set port \<or> CHR '']'' \<in> set port then None
                  else Some (host, port))
          else if CHR '':'' \<in> set before then None
          else if CHR ''['' \<in> set hostport \<or> CHR '']'' \<in> set hostport then None
          else Some (before, port))"

definition isLoopbackHostPort :: "string \<Rightarrow> bool" where
  "isLoopbackHostPort addr =
     (let host = strings_TrimSpace (case SplitHostPort addr of Some (h, _) \<Rightarrow> h | None \<Rightarrow> addr)
      in if host = '''' then False
         else if host \<in> {''127.0.0.1'', ''::1'', ''localhost''} then True
         else (case ParseIP host of Some ip \<Rightarrow> IsLoopback ip | None \<Rightarrow> False))"

definition isPlaintextMeshNonLoopback :: "string \<Rightarrow> bool" where
  "isPlaintextMeshNonLoopback addr =
     (if \<not> prefix ''ws://'' addr then False
      else case url_Parse addr of
             Inl _ \<Rightarrow> False
           | Inr u \<Rightarrow> \<not> isLoopbackHostPort (url_Host u))"

datatype warning = WarnHTTP string | WarnAdmin string | WarnMesh string

definition warnInsecureConfig :: "RouterConfig \<Rightarrow> warning list" where
  "warnInsecureConfig cfg =
     (if \<not> tls_Enabled (http_TLS (rc_HTTP cfg)) \<and> \<not> isLoopbackHostPort (http_Listen (rc_HTTP cfg))
      then [WarnHTTP (http_Listen (rc_HTTP cfg))] else []) @
     (if \<not> isLoopbackHostPort (admin_Listen (rc_Admin cfg))
      then [WarnAdmin (admin_Listen (rc_Admin cfg))] else []) @
     (if isPlaintextMeshNonLoopback (nng_Listen (rc_NNG cfg))
      then [WarnMesh (nng_Listen (rc_NNG cfg))] else [])"

section \<open>Starting the router\<close>

text \<open>\<open>buildMeshServerTLS\<close>: the configuration or the error, and the files written.\<close>

definition mesh_cert_files :: "TLSFiles \<Rightarrow> string \<times> string" where
  "mesh_cert_files t =
     (if tls_CertFile t = '''' then ''linguine-mesh-cert.pem'' else tls_CertFile t,
      if tls_KeyFile t = '''' then ''linguine-mesh-key.pem'' else tls_KeyFile t)"

definition buildMeshServerTLS ::
  "(bytes \<Rightarrow> bytes) \<Rightarrow> (bytes \<Rightarrow> bytes \<Rightarrow> string + bytes list) \<Rightarrow> (string \<Rightarrow> read_result) \<Rightarrow> generation \<Rightarrow> TLSFiles \<Rightarrow>
   (tls_err + tls_config \<times> string) \<times> (string \<times> bytes) list" where
  "buildMeshServerTLS sha256 keypair file g t =
     (case mesh_cert_files t of
        (certFile, keyFile) \<Rightarrow>
          (case LoadOrCreateSelfSignedCert sha256 keypair file g certFile keyFile of
             (Inl e, ws) \<Rightarrow> (Inl e, ws)
           | (Inr (cert, fp, generated), ws) \<Rightarrow>
               (Inr (\<lparr>tc_MinVersion = VersionTLS12, tc_Certificates = [cert], tc_ServerName = '''', tc_RootCAs = None,
                      tc_InsecureSkipVerify = False, tc_pin = None\<rparr>, fp), ws)))"

text \<open>
  \<open>tlsConfig\<close> of \<open>src/internal/router/server.go\<close>: the HTTP listener's certificate, and whether
  clients have to present one that verifies against a CA.
\<close>

record http_tls =
  ht_Certificates :: "bytes list list"
  ht_ClientCAs :: "bytes option"
  ht_RequireClientCert :: bool

definition http_tlsConfig ::
  "(bytes \<Rightarrow> bytes \<Rightarrow> string + bytes list) \<Rightarrow> (bytes \<Rightarrow> bool) \<Rightarrow> (string \<Rightarrow> read_result) \<Rightarrow> TLSFiles \<Rightarrow> tls_err + http_tls" where
  "http_tlsConfig keypair pool file t =
     (case (file (tls_CertFile t), file (tls_KeyFile t)) of
        (ReadOk certPEM, ReadOk keyPEM) \<Rightarrow>
          (case keypair certPEM keyPEM of
             Inl m \<Rightarrow> Inl (LoadServerKeypair m)
           | Inr cert \<Rightarrow>
               let cfg = \<lparr>ht_Certificates = [cert], ht_ClientCAs = None, ht_RequireClientCert = False\<rparr>
               in if tls_CAFile t = '''' then Inr cfg
                  else (case file (tls_CAFile t) of
                          ReadOk caPEM \<Rightarrow>
                            if pool caPEM then Inr (cfg\<lparr>ht_ClientCAs := Some caPEM, ht_RequireClientCert := True\<rparr>)
                            else Inl NoCertsInCA
                        | _ \<Rightarrow> Inl ReadCA))
      | _ \<Rightarrow> Inl (LoadServerKeypair ''file''))"

text \<open>
  \<open>serve\<close> as the sequence of what it acquires, starts and releases; a deferred \<open>Close\<close> is the
  action that ends the scope it was deferred in. The faults are those of the calls, in order.
\<close>

datatype http_serving = ServingPlain | ServingTLS http_tls | NotServing

datatype act =
    OpenedStore | ClosedStore | StartedAudit | ClosedAudit | CreatedMesh | ClosedMesh
  | MeshListening endpoint | RouterStarted http_serving | AdminStarted | SignalReceived | HTTPShutdown

datatype serve_err =
    ServeConfig config_err
  | ServeFault string string
  | ServeSigner auth_err
  | ServeMesh mesh_err
  | ServeTLS tls_err

record serve_faults =
  sf_open :: "string option"
  sf_signer :: "auth_err option"
  sf_mesh :: "mesh_err option"
  sf_tls :: "tls_err + tls_config"
  sf_listen :: conn_faults
  sf_start :: "string option"
  sf_http :: "tls_err + http_tls"
  sf_secret :: "string option"
  sf_admin :: "string option"
  sf_shutdown :: "string option"
  sf_close :: "mesh_err option"

text \<open>
  \<open>Start\<close> and \<open>Shutdown\<close> of the router (\<open>src/internal/router/server.go\<close>). The TLS configuration
  is built after \<open>Start\<close> has returned; when that fails, the failure is logged and nothing is
  served. \<open>sf_http\<close> is what \<open>http_tlsConfig\<close> makes of the configured files.
\<close>

definition router_Start :: "serve_faults \<Rightarrow> RouterConfig \<Rightarrow> string + http_serving" where
  "router_Start sf cfg =
     (case sf_start sf of
        Some m \<Rightarrow> Inl m
      | None \<Rightarrow>
          Inr (if tls_Enabled (http_TLS (rc_HTTP cfg)) then
                 (case sf_http sf of Inl _ \<Rightarrow> NotServing | Inr c \<Rightarrow> ServingTLS c)
               else ServingPlain))"

definition router_Shutdown :: "serve_faults \<Rightarrow> serve_err option \<times> act list" where
  "router_Shutdown sf =
     (case sf_shutdown sf of
        Some m \<Rightarrow> (Some (ServeFault ''http shutdown'' m), [])
      | None \<Rightarrow> (map_option ServeMesh (sf_close sf), [HTTPShutdown, ClosedMesh]))"

text \<open>\<open>Start\<close> of the dashboard (\<open>src/internal/admin/server.go\<close>): the error of its listener, if any.\<close>

definition admin_Start :: "serve_faults \<Rightarrow> string option" where
  "admin_Start sf = map_option (\<lambda>m. ''admin: listen: '' @ m) (sf_admin sf)"

text \<open>The scope of the mesh socket.\<close>

definition serve_mesh :: "serve_faults \<Rightarrow> RouterConfig \<Rightarrow> serve_err option \<times> act list" where
  "serve_mesh sf cfg =
     (let addr = nng_Listen (rc_NNG cfg);
          tls = (if prefix ''wss://'' addr then (case sf_tls sf of Inl e \<Rightarrow> Inl e | Inr c \<Rightarrow> Inr (Some c)) else Inr None)
      in case tls of
           Inl e \<Rightarrow> (Some (ServeTLS e), [])
         | Inr nngTLS \<Rightarrow>
             (case Listen (sf_listen sf) addr nngTLS of
                Inl e \<Rightarrow> (Some (ServeMesh e), [])
              | Inr ep \<Rightarrow>
                  (case router_Start sf cfg of
                     Inl m \<Rightarrow> (Some (ServeFault ''start router'' m), [MeshListening ep])
                   | Inr http \<Rightarrow>
                       (case sf_secret sf of
                          Some m \<Rightarrow> (Some (ServeFault ''load admin session secret'' m), [MeshListening ep, RouterStarted http])
                        | None \<Rightarrow>
                            (case admin_Start sf of
                               Some m \<Rightarrow> (Some (ServeFault ''start admin'' m), [MeshListening ep, RouterStarted http])
                             | None \<Rightarrow>
                                 (let (err, tr) = router_Shutdown sf
                                  in (err, [MeshListening ep, RouterStarted http, AdminStarted, SignalReceived] @ tr)))))))"

definition serve :: "serve_faults \<Rightarrow> config_err + RouterConfig \<Rightarrow> serve_err option \<times> act list" where
  "serve sf loaded =
     (case loaded of
        Inl e \<Rightarrow> (Some (ServeConfig e), [])
      | Inr cfg \<Rightarrow>
          (case sf_open sf of
             Some m \<Rightarrow> (Some (ServeFault ''open store'' m), [])
           | None \<Rightarrow>
               let (err, tr) =
                 (case sf_signer sf of
                    Some e \<Rightarrow> (Some (ServeSigner e), [])
                  | None \<Rightarrow>
                      let (err, tr) =
                        (case sf_mesh sf of
                           Some e \<Rightarrow> (Some (ServeMesh e), [])
                         | None \<Rightarrow> (let (err, tr) = serve_mesh sf cfg in (err, CreatedMesh # tr @ [ClosedMesh])))
                      in (err, StartedAudit # tr @ [ClosedAudit]))
               in (err, OpenedStore # tr @ [ClosedStore])))"

section \<open>Exit status\<close>

text \<open>
  The process: \<open>exitOnErr\<close> turns an error into status 1; the version and the usage text are printed
  with status 0, a flag or a command that is not known gives status 2.
\<close>

definition exitOnErr :: "'e option \<Rightarrow> nat" where
  "exitOnErr err = (case err of None \<Rightarrow> 0 | Some _ \<Rightarrow> 1)"

definition cli_status :: "cli_result \<Rightarrow> nat" where
  "cli_status r =
     (case r of
        CliExit n \<Rightarrow> n
      | CliError e \<Rightarrow> exitOnErr (Some e)
      | _ \<Rightarrow> exitOnErr (None :: cli_err option))"

definition linguine_exit ::
  "serve_faults \<Rightarrow> (string \<Rightarrow> config_err + RouterConfig) \<Rightarrow> 'k cli_env \<Rightarrow> string list \<Rightarrow> cli_world \<Rightarrow> nat \<times> cli_world" where
  "linguine_exit sf loaded env argv w =
     (case linguine_main argv of
        RunServe path \<Rightarrow> (exitOnErr (fst (serve sf (loaded path))), w)
      | RunAdmin path args \<Rightarrow> apfst cli_status (admin_command env path args w)
      | PrintVersion \<Rightarrow> (0, w)
      | ShowUsage \<Rightarrow> (0, w)
      | ExitWith n \<Rightarrow> (n, w))"

section \<open>Starting the worker\<close>

text \<open>
  \<open>src/cmd/worker/main.go\<close>.
\<close>

definition meshServerName :: "string \<Rightarrow> string" where
  "meshServerName addr = (case url_Parse addr of Inl _ \<Rightarrow> '''' | Inr u \<Rightarrow> Hostname (url_Host u))"

text \<open>\<open>strconv.ParseBool\<close>, which a boolean flag's value has to satisfy.\<close>

definition ParseBool :: "string \<Rightarrow> bool option" where
  "ParseBool s =
     (if s \<in> {''1'', ''t'', ''T'', ''TRUE'', ''true'', ''True''} then Some True
      else if s \<in> {''0'', ''f'', ''F'', ''FALSE'', ''false'', ''False''} then Some False
      else None)"

datatype worker_result =
    WorkerExit nat
  | WorkerVersion
  | WorkerConfigErr config_err
  | WorkerTLSErr tls_err
  | WorkerSocketErr mesh_err
  | WorkerReady Daemon string

record worker_env =
  k_unmarshal :: "bytes \<Rightarrow> WorkerConfig \<Rightarrow> string + WorkerConfig"
  k_file :: "string \<Rightarrow> read_result"
  k_environ :: environ
  k_pool :: "bytes \<Rightarrow> bool"
  k_new_fault :: "string option"
  k_opt_fault :: "sock_option \<Rightarrow> string option"

text \<open>The daemon that is run, and the endpoint its engine proxies to.\<close>

definition worker_daemon :: "worker_env \<Rightarrow> WorkerConfig \<Rightarrow> worker_result" where
  "worker_daemon env cfg =
     (let addr = wr_NNGAddr (wc_Router cfg);
          baseURL = strings_TrimSuffix (we_URL (wc_Engine cfg)) ''/v1/chat/completions'';
          probe = NewProbe baseURL None;
          meshTLS = (if prefix ''wss://'' addr then
                       (case ClientTLSConfig (k_pool env) (k_file env) (wr_TLSCAFile (wc_Router cfg))
                               (meshServerName addr) (wr_TLSFingerprint (wc_Router cfg)) of
                          Inl e \<Rightarrow> Inl e
                        | Inr c \<Rightarrow> Inr (Some c))
                     else Inr None)
      in case meshTLS of
           Inl e \<Rightarrow> WorkerTLSErr e
         | Inr tls \<Rightarrow>
             (case NewDaemon (k_new_fault env) (k_opt_fault env) addr (wc_NodeID cfg) (wc_EnrollmentToken cfg)
                     [WithProbe (Some probe), WithTLSConfig tls, WithProxyURL (wr_HTTPProxy (wc_Router cfg))] of
                Inl e \<Rightarrow> WorkerSocketErr e
              | Inr d \<Rightarrow> WorkerReady d (we_URL (wc_Engine cfg))))"

definition worker_main :: "worker_env \<Rightarrow> string list \<Rightarrow> worker_result" where
  "worker_main env argv =
     (case parse_flags [''config'' \<mapsto> StringFlag, ''version'' \<mapsto> BoolFlag]
             (\<lambda>k v. k = BoolFlag \<longrightarrow> ParseBool v \<noteq> None) argv [] of
        Inl e \<Rightarrow> WorkerExit (flag_exit e)
      | Inr (vals, _) \<Rightarrow>
          if map_option ParseBool (map_of vals ''version'') = Some (Some True) then WorkerVersion
          else (case LoadWorker (k_unmarshal env) (k_file env) (k_environ env) (flag_value ''config'' '''' vals) of
                  Inl e \<Rightarrow> WorkerConfigErr e
                | Inr cfg \<Rightarrow> worker_daemon env cfg))"

section \<open>Lemmas\<close>

text \<open>
  The start-up warnings see through every way of writing a loopback address: a dotted quad is
  loopback exactly when it is in 127.0.0.0/8, the IPv6 loopback address and \<open>localhost\<close> are, and an
  empty host, which listens on all interfaces, is not.
\<close>

lemma SplitHostPort_plain:
  assumes "set port \<inter> set '':[]'' = {}" "set host \<inter> set '':[]'' = {}"
  shows "SplitHostPort (host @ CHR '':'' # port) = Some (host, port)"
proof -
  have "(host @ CHR '':'' # port) ! 0 \<noteq> CHR ''[''"
    using assms(2) by (cases host) auto
  then show ?thesis
    using assms by (auto simp: SplitHostPort_def split_last_append)
qed

lemma TrimSpace_dotted: "strings_TrimSpace (dotted a b c d) = dotted a b c d"
  by (rule TrimSpace_id_chars [OF _ dotted_chars]) (simp add: space_seqs_def char_digit_def)

lemma isLoopback_dotted:
  assumes "a < 256" "b < 256" "c < 256" "d < 256" "set port \<inter> set '':[]'' = {}"
  shows "isLoopbackHostPort (dotted a b c d @ CHR '':'' # port) \<longleftrightarrow> a = 127"
proof -
  have ip: "ParseIP (dotted a b c d) = Some (v4_mapped [a, b, c, d])"
    by (rule ParseIP_dotted [OF assms(1-4)])
  have no: "set (dotted a b c d) \<inter> set '':[]'' = {}"
    using dotted_chars [of a b c d] by (auto simp: char_digit_def)
  note split = SplitHostPort_plain [OF assms(5) no]
  have "ParseIP ''127.0.0.1'' = Some (v4_mapped [127, 0, 0, 1])" "ParseIP ''localhost'' = None" "ParseIP '''' = None"
    by (simp_all add: ParseIP_samples) (simp_all add: ParseIP_def char_digit_def)
  then have "dotted a b c d \<noteq> ''''" "dotted a b c d \<noteq> ''localhost''" "dotted a b c d = ''127.0.0.1'' \<Longrightarrow> a = 127"
    using ip by (auto simp: v4_mapped_def)
  moreover have "dotted a b c d \<noteq> ''::1''"
    using no by auto
  ultimately show ?thesis
    by (auto simp: isLoopbackHostPort_def split TrimSpace_dotted ip IsLoopback_v4 Let_def)
qed


lemma isLoopback_samples:
  assumes "set port \<inter> set '':[]'' = {}"
  shows "isLoopbackHostPort (''localhost:'' @ port)" "isLoopbackHostPort (''[::1]:'' @ port)" "\<not> isLoopbackHostPort (CHR '':'' # port)"
proof -
  have "SplitHostPort (''localhost:'' @ port) = Some (''localhost'', port)" "SplitHostPort (CHR '':'' # port) = Some ('''', port)"
    using SplitHostPort_plain [OF assms, of "''localhost''"] SplitHostPort_plain [OF assms, of "''''"] by simp_all
  moreover have "SplitHostPort (''[::1]:'' @ port) = Some (''::1'', port)"
    using assms split_last_append [of "CHR '':''" port "''[::1]''"] by (auto simp: SplitHostPort_def)
  moreover have "strings_TrimSpace ''localhost'' = ''localhost''" "strings_TrimSpace ''::1'' = ''::1''" "strings_TrimSpace '''' = ''''"
    by code_simp+
  ultimately show "isLoopbackHostPort (''localhost:'' @ port)" "isLoopbackHostPort (''[::1]:'' @ port)" "\<not> isLoopbackHostPort (CHR '':'' # port)"
    by (simp_all add: isLoopbackHostPort_def)
qed

lemma meshServerName_plain:
  assumes "hostname_ok h" "port_ok p" "path_ok q"
  shows "meshServerName (''wss'' @ CHR '':'' # ''//'' @ (h @ CHR '':'' # p) @ q) = h"
  using url_Parse_plain [OF _ assms, of "''wss''"] Hostname_plain [OF assms(1,2)]
  by (simp add: meshServerName_def web_schemes_def)

lemma Listen_InrD: "Listen cf addr cfg = Inr ep \<Longrightarrow> ep_addr ep = addr \<and> ep_tls ep = cfg \<and> ep_proxy ep = None"
  by (auto simp: Listen_def split: option.splits)

lemma serve_mesh_trace:
  assumes "serve_mesh sf cfg = (err, tr)"
  shows "set tr \<inter> {OpenedStore, ClosedStore, StartedAudit, ClosedAudit, CreatedMesh} = {}"
    and "err = None \<longleftrightarrow> HTTPShutdown \<in> set tr \<and> sf_close sf = None"
    and "RouterStarted http \<in> set tr \<Longrightarrow> http = ServingPlain \<longleftrightarrow> \<not> tls_Enabled (http_TLS (rc_HTTP cfg))"
    and "MeshListening ep \<in> set tr \<Longrightarrow>
      ep_addr ep = nng_Listen (rc_NNG cfg) \<and> (ep_tls ep \<noteq> None \<longleftrightarrow> prefix ''wss://'' (nng_Listen (rc_NNG cfg)))"
  using assms unfolding serve_mesh_def Let_def admin_Start_def router_Start_def router_Shutdown_def
  by (auto split: sum.splits option.splits if_splits dest!: Listen_InrD)

lemma serve_mesh_inner:
  assumes "serve_mesh sf cfg = (err, tr)"
  obtains k ep http where "k \<in> {0, 1, 2, 4, 6}"
    "tr = take k [MeshListening ep, RouterStarted http, AdminStarted, SignalReceived, HTTPShutdown, ClosedMesh]"
proof -
  let ?steps = "\<lambda>ep http. [MeshListening ep, RouterStarted http, AdminStarted, SignalReceived, HTTPShutdown, ClosedMesh]"
  have "tr = [] \<or> (\<exists>ep. tr = [MeshListening ep]) \<or> (\<exists>ep http. tr = [MeshListening ep, RouterStarted http]) \<or>
      (\<exists>ep http. tr = [MeshListening ep, RouterStarted http, AdminStarted, SignalReceived]) \<or> (\<exists>ep http. tr = ?steps ep http)"
    using assms by (auto simp: serve_mesh_def router_Shutdown_def Let_def split: sum.splits option.splits)
  then show ?thesis
    using that [of 0] that [of 1] that [of 2] that [of 4] that [of 6] by auto
qed

lemma serve_cases:
  assumes "serve sf loaded = (err, tr)"
  obtains "err \<noteq> None" "tr = []"
  | "err \<noteq> None" "tr = [OpenedStore, ClosedStore]"
  | "err \<noteq> None" "tr = [OpenedStore, StartedAudit, ClosedAudit, ClosedStore]"
  | cfg inner where "loaded = Inr cfg" "serve_mesh sf cfg = (err, inner)"
      "tr = [OpenedStore, StartedAudit, CreatedMesh] @ inner @ [ClosedMesh, ClosedAudit, ClosedStore]"
  using assms unfolding serve_def Let_def
  by (auto split: sum.splits option.splits prod.splits)

lemma with_store_Printed:
  assumes "with_store env path body w = (res, w')" "\<And>e. res \<noteq> CliError e"
  shows "\<exists>cfg. body cfg w = (res, w')"
  using assms by (auto simp: with_store_def split: sum.splits option.splits)

lemma create_key_PrintedD:
  assumes "create_key env nm rl w = (KeyPrinted raw i name role, w')"
  shows "\<exists>ak d1. APIKey_Create (c_argon env) (c_salt env) (c_uuid env) (c_now env) (c_fault env) nm raw (cw_db w) = Inr (ak, d1) \<and>
    i = key_ID ak \<and> name = key_Name ak \<and> role = rl \<and>
    cw_db w' = (if rl = ''admin'' then d1\<lparr>api_keys := update_rows ak_id i (\<lambda>r. r\<lparr>ak_role := ''admin''\<rparr>) (api_keys d1)\<rparr> else d1)"
  using assms
  by (auto simp: create_key_def Let_def update_api_key_def split: sum.splits option.splits if_splits)

lemma adminCreateKey_PrintedD:
  assumes "adminCreateKey env path args w = (KeyPrinted raw i name role, w')"
  shows "\<exists>nm. nm \<noteq> '''' \<and> (role = ''client'' \<or> role = ''admin'') \<and> create_key env nm role w = (KeyPrinted raw i name role, w')"
proof -
  obtain vals rest where p: "parse_flags [''name'' \<mapsto> StringFlag, ''role'' \<mapsto> StringFlag] (\<lambda>_ _. True) args [] = Inr (vals, rest)"
    using assms by (auto simp: adminCreateKey_def split: sum.splits)
  let ?name = "flag_value ''name'' '''' vals" and ?role = "flag_value ''role'' ''client'' vals"
  have ok: "?name \<noteq> ''''" "?role = ''client'' \<or> ?role = ''admin''"
    using assms by (auto simp: adminCreateKey_def p Let_def split: if_splits)
  then have "with_store env path (\<lambda>cfg. create_key env ?name ?role) w = (KeyPrinted raw i name role, w')"
    using assms by (auto simp: adminCreateKey_def p Let_def)
  then have ck: "create_key env ?name ?role w = (KeyPrinted raw i name role, w')"
    using with_store_Printed by fastforce
  then have "role = ?role"
    using create_key_PrintedD by blast
  with ck ok show ?thesis by auto
qed

text \<open>Verification of a key whose row was changed in its role only.\<close>

lemma Create_promote_Verify:
  assumes create: "APIKey_Create argon (Some salt) uuid now fault name raw d = Inr (ak, d1)"
    and len: "length (argon (bytes_of_string raw) salt argonTime argonMemory argonThreads argonKeyLen) = 32"
    and others: "\<forall>r\<in>set (api_keys d). ak_prefix r = PrefixOf raw \<longrightarrow> VerifyAPIKey argon raw (ak_token_hash r) = Inr False"
    and ord: "row_order ord"
    and d2: "api_keys d2 = update_rows ak_id (key_ID ak) (\<lambda>r. r\<lparr>ak_role := role\<rparr>) (api_keys d1)"
  shows "\<exists>ak'. APIKey_Verify argon ord t None itf raw d2 = Inr ak' \<and> key_ID ak' = key_ID ak \<and> key_Name ak' = key_Name ak \<and>
    key_Role ak' = role"
proof -
  let ?h = "phcEncode salt (argon (bytes_of_string raw) salt argonTime argonMemory argonThreads argonKeyLen)"
  let ?r = "\<lparr>ak_id = uuid, ak_name = name, ak_token_hash = ?h, ak_prefix = PrefixOf raw,
    ak_role = role, ak_status = ''active'', ak_expires_at = None, ak_created_at = now, ak_updated_at = now\<rparr>"
  from APIKey_Create_InrD [OF create] have ak: "key_ID ak = uuid" "key_Name ak = name"
    and fresh: "uuid \<notin> ak_id ` set (api_keys d)"
    and rows: "api_keys d1 = api_keys d @ [?r\<lparr>ak_role := defaultKeyRole\<rparr>]"
    by (auto simp: HashAPIKey_def)
  have same: "update_rows ak_id uuid (\<lambda>r. r\<lparr>ak_role := role\<rparr>) (api_keys d) = api_keys d"
    using fresh by (force simp: update_rows_def intro!: map_idI)
  have d2': "api_keys d2 = api_keys d @ [?r]"
    using same by (simp add: d2 ak rows update_rows_def)
  have "VerifyAPIKey argon raw ?h = Inr True"
    unfolding VerifyAPIKey_phcEncode len by (simp add: argonKeyLen_def)
  then have "verify_rows argon t raw (ord (filter (\<lambda>r. ak_prefix r = PrefixOf raw) (api_keys d2))) =
      Inr (Some (scan_verify ?r))"
    using others by (intro verify_rows_unique) (auto simp: d2' row_order_set [OF ord] expired_def)
  then show ?thesis
    by (simp add: APIKey_Verify_def ak scan_verify_def)
qed

section \<open>Properties\<close>

text \<open>
  C32: starting and stopping the router. Whatever call of the start-up fails, the store, the audit
  writer and the mesh socket acquired before are released, in reverse order: the mesh socket, then
  the audit writer with its final flush, then the store. Nothing releases the two HTTP listeners on
  such a failure (the process exits): the completions server is shut down only after a signal, when
  everything had started, the dashboard's never; and that shutdown has closed the mesh socket once
  already when the deferred close comes. The mesh listener has a TLS configuration exactly when its
  address is \<open>wss\<close>, and the completions endpoint is never served in the clear when TLS is enabled.
  The command succeeds exactly when it ran until a signal, shut the HTTP server down and closed the
  mesh.
\<close>
theorem serve_releases:
  assumes "serve sf (LoadRouter unmarshal file env path) = (err, tr)"
  shows "(\<exists>n k ep http. tr = take n [OpenedStore, StartedAudit, CreatedMesh] @
        take k [MeshListening ep, RouterStarted http, AdminStarted, SignalReceived, HTTPShutdown, ClosedMesh] @
        drop (3 - n) [ClosedMesh, ClosedAudit, ClosedStore] \<and>
      n \<le> 3 \<and> k \<in> {0, 1, 2, 4, 6} \<and> (n \<noteq> 3 \<longrightarrow> k = 0)) \<and>
    (\<forall>ep. MeshListening ep \<in> set tr \<longrightarrow>
      (prefix ''wss://'' (ep_addr ep) \<and> ep_tls ep \<noteq> None \<or> prefix ''ws://'' (ep_addr ep) \<and> ep_tls ep = None)) \<and>
    (\<forall>cfg http. LoadRouter unmarshal file env path = Inr cfg \<longrightarrow> RouterStarted http \<in> set tr \<longrightarrow>
      (http = ServingPlain \<longleftrightarrow> \<not> tls_Enabled (http_TLS (rc_HTTP cfg)))) \<and>
    (err = None \<longleftrightarrow> HTTPShutdown \<in> set tr \<and> sf_close sf = None)"
  using assms
proof (cases rule: serve_cases)
  case 1
  then show ?thesis by (intro conjI exI [of _ 0] exI [of _ 0]) simp_all
next
  case 2
  then show ?thesis by (intro conjI exI [of _ 1] exI [of _ 0]) simp_all
next
  case 3
  then show ?thesis by (intro conjI exI [of _ 2] exI [of _ 0]) simp_all
next
  case (4 cfg inner)
  note tr = serve_mesh_trace [OF 4(2)]
  have scheme: "prefix ''ws://'' (nng_Listen (rc_NNG cfg)) \<or> prefix ''wss://'' (nng_Listen (rc_NNG cfg))"
    using router_config.loaded_valid [OF 4(1)] by (auto simp: RouterConfig_Validate_None)
  have "\<not> (prefix ''wss://'' l \<and> prefix ''ws://'' l)" for l
    by (auto simp: prefix_def)
  then have "\<forall>ep. MeshListening ep \<in> set tr \<longrightarrow>
      (prefix ''wss://'' (ep_addr ep) \<and> ep_tls ep \<noteq> None \<or> prefix ''ws://'' (ep_addr ep) \<and> ep_tls ep = None)"
    using scheme tr(4) by (auto simp: 4(3))
  moreover have "err = None \<longleftrightarrow> HTTPShutdown \<in> set tr \<and> sf_close sf = None"
    using tr(2) by (auto simp: 4(3))
  moreover have "\<forall>cfg http. LoadRouter unmarshal file env path = Inr cfg \<longrightarrow> RouterStarted http \<in> set tr \<longrightarrow>
      (http = ServingPlain \<longleftrightarrow> \<not> tls_Enabled (http_TLS (rc_HTTP cfg)))"
    using tr(3) 4(1) by (auto simp: 4(3))
  moreover obtain k ep http where "k \<in> {0, 1, 2, 4, 6}"
    "inner = take k [MeshListening ep, RouterStarted http, AdminStarted, SignalReceived, HTTPShutdown, ClosedMesh]"
    using serve_mesh_inner [OF 4(2)] .
  then have "tr = take 3 [OpenedStore, StartedAudit, CreatedMesh] @
        take k [MeshListening ep, RouterStarted http, AdminStarted, SignalReceived, HTTPShutdown, ClosedMesh] @
        drop (3 - 3) [ClosedMesh, ClosedAudit, ClosedStore] \<and>
      (3::nat) \<le> 3 \<and> k \<in> {0, 1, 2, 4, 6} \<and> ((3::nat) \<noteq> 3 \<longrightarrow> k = 0)"
    by (simp add: 4(3))
  ultimately show ?thesis by blast
qed

definition sample_faults :: serve_faults where
  "sample_faults =
     \<lparr>sf_open = None, sf_signer = None, sf_mesh = None, sf_tls = Inl NoCertificate,
      sf_listen = \<lparr>cf_new = None, cf_tls = None, cf_proxy = None, cf_start = None\<rparr>,
      sf_start = Some ''address in use'', sf_http = Inl NoCertificate, sf_secret = None, sf_admin = None,
      sf_shutdown = None, sf_close = None\<rparr>"

theorem serve_releases_witness:
  "\<exists>err ep. serve sample_faults (LoadRouter (\<lambda>_ d. Inr d) (\<lambda>_. ReadNotExist) (\<lambda>_. None) '''') =
       (err, [OpenedStore, StartedAudit, CreatedMesh, MeshListening ep, ClosedMesh, ClosedAudit, ClosedStore]) \<and>
     err \<noteq> None \<and> prefix ''ws://'' (ep_addr ep) \<and> ep_tls ep = None"
proof -
  have cfg: "LoadRouter (\<lambda>_ d. Inr d) (\<lambda>_. ReadNotExist) (\<lambda>_. None) '''' = Inr defaultRouterConfig"
    by (simp add: LoadRouter_def readTOML_def router_config.env_empty RouterConfig_Validate_def defaultRouterConfig_def no_tls_def)
  obtain err ep where s: "serve sample_faults (LoadRouter (\<lambda>_ d. Inr d) (\<lambda>_. ReadNotExist) (\<lambda>_. None) '''') =
      (err, [OpenedStore, StartedAudit, CreatedMesh, MeshListening ep, ClosedMesh, ClosedAudit, ClosedStore])"
    "ep_addr ep = ''ws://127.0.0.1:9000/mesh''"
    unfolding cfg
    by (auto simp: serve_def serve_mesh_def admin_Start_def router_Start_def sample_faults_def defaultRouterConfig_def Listen_def prefix_def)
  show ?thesis
    using serve_releases [OF s(1)] s by (auto simp: prefix_def)
qed

text \<open>
  A certificate that cannot be loaded does not stop the router: it runs, without an HTTP server,
  until the signal, and the command then succeeds.
\<close>

lemma bad_http_certificate_unnoticed:
  assumes "tls_Enabled (http_TLS (rc_HTTP cfg))" "\<not> prefix ''wss://'' (nng_Listen (rc_NNG cfg))"
    and "sf = sample_faults\<lparr>sf_start := None, sf_http := Inl e\<rparr>"
  shows "\<exists>tr. serve sf (Inr cfg) = (None, tr) \<and> RouterStarted NotServing \<in> set tr"
  using assms(1,2)
  by (simp add: assms(3) serve_def serve_mesh_def admin_Start_def router_Start_def router_Shutdown_def sample_faults_def Listen_def)

text \<open>
  \<open>admin create-key\<close>: the key it prints works. When the command prints a raw key, that
  key verifies, under the id and the name printed, with the role printed, which is the one asked for,
  client or admin.
\<close>
lemma cli_created_key_works:
  assumes "adminCreateKey env path args w = (KeyPrinted raw i name role, w')"
    and "c_salt env = Some salt"
    and "length (c_argon env (bytes_of_string raw) salt argonTime argonMemory argonThreads argonKeyLen) = 32"
    and "\<forall>r\<in>set (api_keys (cw_db w)). ak_prefix r = PrefixOf raw \<longrightarrow> VerifyAPIKey (c_argon env) raw (ak_token_hash r) = Inr False"
    and "row_order ord"
  shows "role \<in> {''client'', ''admin''} \<and> name \<noteq> '''' \<and>
    (\<exists>ak. APIKey_Verify (c_argon env) ord t None itf raw (cw_db w') = Inr ak \<and> key_ID ak = i \<and> key_Name ak = name \<and> key_Role ak = role)"
proof -
  obtain ak d1 where c: "APIKey_Create (c_argon env) (Some salt) (c_uuid env) (c_now env) (c_fault env) name raw (cw_db w) = Inr (ak, d1)"
    and ak: "i = key_ID ak" "name = key_Name ak" "name \<noteq> ''''"
    and role: "role = ''client'' \<and> cw_db w' = d1 \<or>
       role = ''admin'' \<and> cw_db w' = d1\<lparr>api_keys := update_rows ak_id i (\<lambda>r. r\<lparr>ak_role := ''admin''\<rparr>) (api_keys d1)\<rparr>"
  proof -
    obtain nm where nm: "nm \<noteq> ''''" "role = ''client'' \<or> role = ''admin''" "create_key env nm role w = (KeyPrinted raw i name role, w')"
      using adminCreateKey_PrintedD [OF assms(1)] by blast
    obtain ak d1 where c: "APIKey_Create (c_argon env) (Some salt) (c_uuid env) (c_now env) (c_fault env) nm raw (cw_db w) = Inr (ak, d1)"
      "i = key_ID ak" "name = key_Name ak"
      "cw_db w' = (if role = ''admin'' then d1\<lparr>api_keys := update_rows ak_id i (\<lambda>r. r\<lparr>ak_role := ''admin''\<rparr>) (api_keys d1)\<rparr> else d1)"
      using create_key_PrintedD [OF nm(3)] assms(2) by auto
    have "key_Name ak = nm"
      using APIKey_Create_InrD [OF c(1)] by auto
    then show thesis
      using that [of ak d1] c nm by (auto split: if_splits)
  qed
  from role show ?thesis
  proof
    assume r: "role = ''client'' \<and> cw_db w' = d1"
    have "APIKey_Verify (c_argon env) ord t None itf raw d1 = Inr ak" "key_Role ak = ''client''"
      using Create_then_Verify [OF c assms(3-5)] APIKey_Create_InrD [OF c] by (auto simp: defaultKeyRole_def)
    then show ?thesis
      using r ak by auto
  next
    assume r: "role = ''admin'' \<and> cw_db w' = d1\<lparr>api_keys := update_rows ak_id i (\<lambda>r. r\<lparr>ak_role := ''admin''\<rparr>) (api_keys d1)\<rparr>"
    then have "api_keys (cw_db w') = update_rows ak_id (key_ID ak) (\<lambda>r. r\<lparr>ak_role := ''admin''\<rparr>) (api_keys d1)"
      by (simp add: ak)
    from Create_promote_Verify [OF c assms(3-5) this] show ?thesis
      using r ak by auto
  qed
qed

definition sample_cli_env :: "nat cli_env" where
  "sample_cli_env =
     \<lparr>c_unmarshal = (\<lambda>_ c. Inr c), c_environ = (\<lambda>_. None), c_open_fault = None, c_now = 5, c_uuid = ''k1'',
      c_argon = sample_argon, c_salt = Some [7], c_key_rand = [1, 2], c_fault = None, c_role_fault = None, c_rfault = None,
      c_duration = (\<lambda>_. None), c_fromHex = (\<lambda>_. None), c_gen = None, c_write_ok = True, c_sign = (\<lambda>_ _. '''')\<rparr>"

definition sample_cli_world :: cli_world where
  "sample_cli_world = \<lparr>cw_db = empty_db, cw_file = (\<lambda>_. ReadNotExist)\<rparr>"

lemma sample_load: "LoadRouter (\<lambda>_ c. Inr c) (\<lambda>_. ReadNotExist) (\<lambda>_. None) '''' = Inr defaultRouterConfig"
  by (simp add: LoadRouter_def readTOML_def router_config.env_empty RouterConfig_Validate_def defaultRouterConfig_def no_tls_def)

lemma sample_create_key:
  "\<exists>w'. adminCreateKey sample_cli_env '''' [''--name'', ''ops'', ''-role=admin''] sample_cli_world =
     (KeyPrinted (GenerateAPIKey [1, 2]) ''k1'' ''ops'' ''admin'', w')"
proof -
  have "split_flag ''--name'' = Flag ''name'' None" "split_flag ''-role=admin'' = Flag ''role'' (Some ''admin'')"
    by (simp_all add: split_flag_def)
  then have "parse_flags [''name'' \<mapsto> StringFlag, ''role'' \<mapsto> StringFlag] (\<lambda>_ _. True) [''--name'', ''ops'', ''-role=admin''] [] =
      Inr ([(''name'', ''ops''), (''role'', ''admin'')], [])"
    by simp
  moreover obtain ak d where "APIKey_Create sample_argon (Some [7]) ''k1'' 5 None ''ops'' (GenerateAPIKey [1, 2]) empty_db = Inr (ak, d)"
      "key_ID ak = ''k1''" "key_Name ak = ''ops''"
    using sample_create [of "[7]" "''k1''" 5 "''ops''" "GenerateAPIKey [1, 2]"] APIKey_Create_InrD by fastforce
  ultimately show ?thesis
    by (simp add: adminCreateKey_def flag_value_def with_store_def create_key_def sample_cli_env_def sample_cli_world_def
        sample_load update_api_key_def Let_def)
qed

lemma cli_created_key_works_instance:
  "\<exists>w' ak. adminCreateKey sample_cli_env '''' [''--name'', ''ops'', ''-role=admin''] sample_cli_world =
     (KeyPrinted (GenerateAPIKey [1, 2]) ''k1'' ''ops'' ''admin'', w') \<and>
     APIKey_Verify sample_argon rev 9 None None (GenerateAPIKey [1, 2]) (cw_db w') = Inr ak \<and> key_Role ak = ''admin''"
proof -
  obtain w' where k: "adminCreateKey sample_cli_env '''' [''--name'', ''ops'', ''-role=admin''] sample_cli_world =
     (KeyPrinted (GenerateAPIKey [1, 2]) ''k1'' ''ops'' ''admin'', w')"
    using sample_create_key by blast
  have env: "c_salt sample_cli_env = Some [7]" "c_argon sample_cli_env = sample_argon" "api_keys (cw_db sample_cli_world) = []"
    by (simp_all add: sample_cli_env_def sample_cli_world_def empty_db_def)
  have "length (c_argon sample_cli_env (bytes_of_string (GenerateAPIKey [1, 2])) [7] argonTime argonMemory argonThreads argonKeyLen) = 32"
    by (simp add: env length_sample_argon argonKeyLen_def)
  from cli_created_key_works [OF k env(1) this, of rev 9 None] k show ?thesis
    by (auto simp: env row_order_def)
qed

text \<open>
  C33: a worker that starts with a \<open>wss\<close> router address dials with a verifying TLS configuration:
  the standard chain and host name check for the address's host, which is the text between the
  scheme and the port, or a fingerprint pin; any other
  address is dialled in plaintext. It runs under the configured node id and token, which are not
  empty, and advertises nothing until its catalog was fetched.
\<close>
theorem worker_dials_verified:
  assumes "worker_main env argv = WorkerReady d url" "Run cf fmt fault d = Inr (ep, S)"
  shows "ep_addr ep = dm_routerAddr d \<and> dm_nodeID d \<noteq> '''' \<and> dm_enrollmentToken d \<noteq> '''' \<and> url \<noteq> '''' \<and>
    hb_Catalog (heartbeat_of d) = [] \<and> dm_state d = ConnStateConnecting \<and>
    (if prefix ''wss://'' (dm_routerAddr d) then
       \<exists>c. ep_tls ep = Some c \<and> tc_MinVersion c = 0x0303 \<and> tc_ServerName c = meshServerName (dm_routerAddr d) \<and>
         (\<forall>h p q. hostname_ok h \<and> port_ok p \<and> path_ok q \<and> dm_routerAddr d = ''wss'' @ CHR '':'' # ''//'' @ (h @ CHR '':'' # p) @ q \<longrightarrow>
            tc_ServerName c = h) \<and>
         (tc_InsecureSkipVerify c \<longrightarrow> (\<exists>pin. tc_pin c = Some pin \<and> prefix ''sha256/'' pin))
     else ep_tls ep = None)"
proof -
  obtain cfg p where load: "LoadWorker (k_unmarshal env) (k_file env) (k_environ env) p = Inr cfg"
    and wd: "worker_daemon env cfg = WorkerReady d url"
    using assms(1) by (auto simp: worker_main_def split: sum.splits if_splits)
  have valid: "wc_NodeID cfg \<noteq> ''''" "wc_EnrollmentToken cfg \<noteq> ''''" "we_URL (wc_Engine cfg) \<noteq> ''''"
    using worker_config.loaded_valid [OF load] by (auto simp: WorkerConfig_Validate_def split: if_splits)
  obtain tls where d: "dm_routerAddr d = wr_NNGAddr (wc_Router cfg)" "dm_nodeID d = wc_NodeID cfg" "dm_tlsConfig d = tls"
      "dm_enrollmentToken d = wc_EnrollmentToken cfg" "url = we_URL (wc_Engine cfg)" "dm_state d = ConnStateConnecting"
      "map_option pb_current (dm_probe d) = Some None"
    and tls: "if prefix ''wss://'' (wr_NNGAddr (wc_Router cfg)) then
        \<exists>c. tls = Some c \<and> ClientTLSConfig (k_pool env) (k_file env) (wr_TLSCAFile (wc_Router cfg))
          (meshServerName (wr_NNGAddr (wc_Router cfg))) (wr_TLSFingerprint (wc_Router cfg)) = Inr c
      else tls = None"
    using wd by (auto simp: worker_daemon_def NewDaemon_def NewProbe_def Let_def split: sum.splits option.splits if_splits)
  have "ep_addr ep = dm_routerAddr d" "ep_tls ep = tls"
    using assms(2) d(3) by (auto simp: Run_def Dial_def split: sum.splits option.splits if_splits)
  moreover have "hb_Catalog (heartbeat_of d) = []"
    using d(7) by (auto simp: heartbeat_of_def Current_def zeroHeartbeat_def Let_def)
  moreover have "meshServerName (''wss'' @ CHR '':'' # ''//'' @ (h @ CHR '':'' # p) @ q) = h"
    if "hostname_ok h" "port_ok p" "path_ok q" for h p q
    using meshServerName_plain [OF that] .
  ultimately show ?thesis
    using d valid tls by (auto simp: VersionTLS12_def dest!: ClientTLSConfig_InrD split: if_splits)
qed

definition sample_worker_env :: worker_env where
  "sample_worker_env =
     \<lparr>k_unmarshal = (\<lambda>_ c. Inr c), k_file = (\<lambda>_. ReadNotExist),
      k_environ = [''LINGUINE_WORKER_NODE_ID'' \<mapsto> ''gpu-1'', ''LINGUINE_WORKER_ENROLLMENT_TOKEN'' \<mapsto> ''tok''],
      k_pool = (\<lambda>_. False), k_new_fault = None,
      k_opt_fault = (\<lambda>_. None)\<rparr>"

theorem worker_dials_verified_witness:
  "\<exists>d url ep S. worker_main sample_worker_env [] = WorkerReady d url \<and>
     Run \<lparr>cf_new = None, cf_tls = None, cf_proxy = None, cf_start = None\<rparr> (\<lambda>_. '''') None d = Inr (ep, S) \<and>
     dm_nodeID d \<noteq> '''' \<and> ep_tls ep \<noteq> None"
proof -
  have trim: "strings_TrimSpace '''' = ''''"
    by code_simp
  obtain d url where w: "worker_main sample_worker_env [] = WorkerReady d url"
      "dm_routerAddr d = ''wss://127.0.0.1:9000/mesh''" "dm_proxyURL d = ''''"
    by (simp add: worker_main_def flag_value_def LoadWorker_def readTOML_def defaultWorkerConfig_def applyWorkerEnv_def
        envStr_def WorkerConfig_Validate_def worker_daemon_def ClientTLSConfig_def trim NewDaemon_def NewWorker_def
        sample_worker_env_def Let_def)
  let ?cf = "\<lparr>cf_new = None, cf_tls = None, cf_proxy = None, cf_start = None\<rparr>"
  obtain ep S where r: "Run ?cf (\<lambda>_. '''') None d = Inr (ep, S)"
    by (cases "dm_tlsConfig d") (simp_all add: Run_def Dial_def w)
  from worker_dials_verified [OF w(1) r] w r show ?thesis
    by (auto simp: w(2))
qed

end
