(* ===== verification/Composition.thy ===== *)
theory Composition
  imports Router Worker Admin Commands
begin

text \<open>
  The parts together: the messages that travel between a worker and the router, what one
  completion and one heartbeat do on both sides, and the database that the router, the
  dashboard, the command line and the request log's writer share.
\<close>

section \<open>Across the mesh\<close>

text \<open>
  What \<open>socket.go\<close> relies on for the way to a worker: the library takes the pipe id off the
  header to route the message, and the worker receives the rest of the header and the body.
\<close>

definition routing_ok :: "(message \<Rightarrow> message) \<Rightarrow> bool" where
  "routing_ok to_worker \<longleftrightarrow>
     (\<forall>m pipe. msg_Header m = PutUint32 pipe @ backtraceToken \<longrightarrow>
        msg_Header (to_worker m) = backtraceToken \<and> msg_Body (to_worker m) = msg_Body m)"

definition strip_pipe :: "message \<Rightarrow> message" where
  "strip_pipe m = m\<lparr>msg_Header := drop 4 (msg_Header m)\<rparr>"

lemma routing_ok_strip_pipe [simp]: "routing_ok strip_pipe"
  by (simp add: routing_ok_def strip_pipe_def)

lemma worker_receives:
  assumes "routing_ok to_worker" "msg_Header m = PutUint32 pipe @ backtraceToken" "msg_Body m = Envelope_Encode e"
    "length (env_ReqID e) \<le> 255"
  shows "Run_dispatch (to_worker m) = Some (backtraceToken, e)"
proof -
  have "msg_Header (to_worker m) = backtraceToken" "msg_Body (to_worker m) = Envelope_Encode e"
    using assms(1-3) unfolding routing_ok_def by metis+
  then show ?thesis
    using assms(4) envelope_codec.dec_enc [of e]
    by (simp add: Run_dispatch_def envelope_valid_def MaxReqIDLen_def)
qed

definition frame_message :: "string \<Rightarrow> Frame \<Rightarrow> message" where
  "frame_message reqID f =
     \<lparr>msg_Header = backtraceToken, msg_Body = Envelope_Encode \<lparr>env_ReqID = reqID, env_Payload = Frame_Encode f\<rparr>\<rparr>"

lemma send_frames_sock:
  "\<forall>i. faults i = None \<Longrightarrow> send_frames faults i backtraceToken reqID fs s = s @ map (frame_message reqID) fs"
  by (induction fs arbitrary: i s) (simp_all add: sendFrame_def SendReply_def SendMsg_def frame_message_def)

lemma handle_frame_message:
  assumes "framing_ok deliver" "length reqID \<le> 255" "reqID \<noteq> HeartbeatReqID" "frame_valid f"
  shows "handleMeshMessage env (deliver pipe (frame_message reqID f)) s =
    (case map_of (srv_sessions s) reqID of
       None \<Rightarrow> s
     | Some ch \<Rightarrow> s\<lparr>srv_sessions := AList.update reqID (fst (chan_try_send f ch)) (srv_sessions s)\<rparr>)"
proof -
  have "DecodeEnvelope (msg_Body (deliver pipe (frame_message reqID f))) = Inr \<lparr>env_ReqID = reqID, env_Payload = Frame_Encode f\<rparr>"
    using assms(1,2) envelope_codec.dec_enc [of "\<lparr>env_ReqID = reqID, env_Payload = Frame_Encode f\<rparr>"]
    by (simp add: framing_ok_def frame_message_def envelope_valid_def MaxReqIDLen_def)
  moreover have "PipeFromHeader (msg_Header (deliver pipe (frame_message reqID f))) = Inr pipe"
    using PipeFromHeader_framed [OF assms(1)] by (simp add: frame_message_def)
  ultimately show ?thesis
    using assms(3) frame_codec.dec_enc [OF assms(4)] by (simp add: handleMeshMessage_def split: option.split)
qed

text \<open>The frames a worker sends arrive in the session's channel, in order, as long as they fit.\<close>

lemma frames_arrive:
  assumes "framing_ok deliver" "length reqID \<le> 255" "reqID \<noteq> HeartbeatReqID" "\<forall>f \<in> set fs. frame_valid f"
    and "map_of (srv_sessions s) reqID = Some ch" "length (chan_buf ch) + length fs \<le> chan_cap ch"
  shows "map_of (srv_sessions (fold (\<lambda>m. handleMeshMessage env (deliver pipe m)) (map (frame_message reqID) fs) s)) =
      (map_of (srv_sessions s))(reqID \<mapsto> ch\<lparr>chan_buf := chan_buf ch @ fs\<rparr>) \<and>
    srv_nodes (fold (\<lambda>m. handleMeshMessage env (deliver pipe m)) (map (frame_message reqID) fs) s) = srv_nodes s"
  using assms(4-)
proof (induction fs arbitrary: s ch)
  case Nil
  then show ?case by (auto simp: fun_eq_iff)
next
  case (Cons f fs)
  let ?ch = "ch\<lparr>chan_buf := chan_buf ch @ [f]\<rparr>"
  let ?s = "s\<lparr>srv_sessions := AList.update reqID ?ch (srv_sessions s)\<rparr>"
  have step: "handleMeshMessage env (deliver pipe (frame_message reqID f)) s = ?s"
    using Cons.prems handle_frame_message [OF assms(1-3), of f env pipe s] by (simp add: chan_try_send_def)
  have "map_of (srv_sessions ?s) reqID = Some ?ch" "length (chan_buf ?ch) + length fs \<le> chan_cap ?ch"
    using Cons.prems by simp_all
  from Cons.IH [OF _ this] Cons.prems(1) show ?case
    by (simp add: step fun_eq_iff)
qed

section \<open>One completion\<close>

text \<open>
  What an engine's answer amounts to: the bytes of its body up to the first error of a read, and
  the error, none for an end of file. An answer that has not ended yet amounts to nothing.
\<close>

fun body_outcome :: "body_read list \<Rightarrow> (bytes \<times> string option) option" where
  "body_outcome [] = None"
| "body_outcome ((dat, None) # rs) = map_option (apfst ((@) dat)) (body_outcome rs)"
| "body_outcome ((dat, Some EOF) # rs) = Some (dat, None)"
| "body_outcome ((dat, Some (ReadErr m)) # rs) = Some (dat, Some m)"

fun engine_outcome :: "string + body_read list \<Rightarrow> (bytes \<times> string option) option" where
  "engine_outcome (Inl m) = Some ([], Some m)"
| "engine_outcome (Inr reads) = body_outcome reads"

text \<open>The response a client should get for such an answer.\<close>

definition client_response :: "auditContext \<Rightarrow> (string \<Rightarrow> bool) \<Rightarrow> bytes \<Rightarrow> string option \<Rightarrow> http_response" where
  "client_response ac q content failure =
     (if ac_streamed ac then
        \<lparr>rs_status = 200, rs_type = TypeSet ''text/event-stream'',
         rs_body = RawBody (content @ (case failure of None \<Rightarrow> [] | Some m \<Rightarrow> sse_error q (bytes_of_string m)))\<rparr>
      else case failure of
             None \<Rightarrow> \<lparr>rs_status = 200, rs_type = TypeSet ''application/json'', rs_body = RawBody content\<rparr>
           | Some m \<Rightarrow> json_error 502 m)"

fun outcome_frame :: "string option \<Rightarrow> Frame" where
  "outcome_frame None = end_frame EOF"
| "outcome_frame (Some m) = end_frame (ReadErr m)"

lemma read_loop_outcome:
  "body_outcome reads = Some (content, failure) \<Longrightarrow>
   \<exists>cs. read_loop reads = (map chunk_frame cs @ [outcome_frame failure], True) \<and> concat cs = content"
proof (induction reads arbitrary: content rule: body_outcome.induct)
  case (2 dat rs)
  then obtain rest cs where "content = dat @ rest" "concat cs = rest"
    "read_loop rs = (map chunk_frame cs @ [outcome_frame failure], True)"
    by (auto simp: apfst_def map_prod_def)
  then show ?case
    by (intro exI [of _ "(if dat = [] then [] else [dat]) @ cs"]) auto
next
  case (3 dat rs)
  then show ?case by (intro exI [of _ "if dat = [] then [] else [dat]"]) auto
next
  case (4 dat m rs)
  then show ?case by (intro exI [of _ "if dat = [] then [] else [dat]"]) auto
qed simp

lemma job_frames_outcome:
  assumes "engine_outcome answer = Some (content, failure)"
  shows "\<exists>cs. job_frames answer = (map chunk_frame cs @ [outcome_frame failure], True) \<and> concat cs = content"
  using assms read_loop_outcome by (cases answer) (auto simp: job_frames_def intro: exI [of _ "[]"])

lemma chunks_map_chunk_frame [simp]: "chunks (map chunk_frame cs) = concat cs"
  by (induction cs) (simp_all add: chunks_def)

lemma outcome_frame_terminal [simp]: "terminal (outcome_frame failure)"
  by (cases failure) (simp_all add: terminal_def)

lemma handler_reply_outcome:
  assumes "\<forall>j. fl j"
  shows "handler_reply \<lparr>hd_ac = ac, hd_flush_ok = fl, hd_isPrint = q, hd_seen = map chunk_frame cs @ [outcome_frame failure]\<rparr>
    = Some (client_response ac q (concat cs) failure)"
proof -
  have open': "\<forall>f \<in> set (map chunk_frame cs). \<not> terminal f"
    by (auto simp: terminal_def FrameTypeChunk_def FrameTypeEOF_def FrameTypeError_def)
  show ?thesis
    using buffered_loop_terminal [OF open' outcome_frame_terminal [of failure], of "[]"]
      stream_loop_terminal [OF open' outcome_frame_terminal [of failure] assms, of q 0 "[]"]
    by (cases failure)
      (simp_all add: handler_reply_def client_response_def json_error_def FrameTypeEOF_def FrameTypeError_def)
qed

lemma handleJob_effect:
  assumes "engine_outcome (Proxy (engine (env_Payload e))) = Some (content, failure)"
  shows "\<exists>cs. concat cs = content \<and> fst (job_frames (Proxy (engine (env_Payload e)))) = map chunk_frame cs @ [outcome_frame failure] \<and>
    handleJob (\<lambda>_. None) engine backtraceToken e d =
      d\<lparr>dm_sock := dm_sock d @ map (frame_message (env_ReqID e)) (map chunk_frame cs @ [outcome_frame failure])\<rparr>"
proof -
  obtain cs where "job_frames (Proxy (engine (env_Payload e))) = (map chunk_frame cs @ [outcome_frame failure], True)" "concat cs = content"
    using job_frames_outcome [OF assms] by blast
  then show ?thesis
    by (intro exI [of _ cs]) (simp add: handleJob_def send_frames_sock)
qed

lemmas dispatch_reaches_worker =
  worker_receives [where m = "dispatch_message env rq node" and e = "\<lparr>env_ReqID = h_uuid env, env_Payload = rq_body rq\<rparr>"
    and pipe = "ne_pipe node" for env rq node, unfolded dispatch_message_def, simplified, folded dispatch_message_def]

lemma chat_opened_inv:
  assumes "nodes_inv (srv_nodes s)" "handleChatCompletions env rq s = (Opened reqID ac, s1)"
  obtains ak node where "reqID = h_uuid env" "ac = chat_context env rq ak node"
    "s1 = s\<lparr>srv_sessions := AList.update (h_uuid env) (make_chan 256) (srv_sessions s),
       srv_sock := srv_sock s @ [dispatch_message env rq node]\<rparr>"
  using handleChat_cases [OF assms(1), of env rq] assms(2) by auto

lemma sample_opened:
  "\<exists>s ac s1. reg_reachable nodeStaleAfter (srv_nodes s) \<and> handleChatCompletions sample_http_env sample_request s = (Opened ''req-1'' ac, s1)
    \<and> \<not> ac_streamed ac"
proof -
  obtain ak d where create: "APIKey_Create sample_argon (Some [7]) ''k1'' 1 None ''app'' ''sk-mesh-0123456789'' sample_node_db = Inr (ak, d)"
    and ver: "APIKey_Verify sample_argon (\<lambda>rs. rs) Second None None ''sk-mesh-0123456789'' d = Inr ak"
    using sample_key_ok by blast
  have "node_enrollment_tokens d = node_enrollment_tokens sample_node_db"
    using create by (auto simp: APIKey_Create_def HashAPIKey_def insert_api_key_def Let_def split: if_splits)
  note s1 = sample_s1_state [OF this]
  have "authenticate sample_http_env sample_request (sample_s1 d) = Inr ak"
    using ver by (intro sample_authenticates) (simp add: s1)
  moreover have "h_now sample_http_env = Second" "h_send_fault sample_http_env = None" "h_uuid sample_http_env = ''req-1''"
    by (simp_all add: sample_http_env_def)
  ultimately have "\<exists>ac s'. handleChatCompletions sample_http_env sample_request (sample_s1 d) = (Opened ''req-1'' ac, s')
      \<and> \<not> ac_streamed ac"
    using chat_opened [of sample_http_env sample_request "sample_s1 d" ak] s1
    by (simp add: chat_context_def sample_request_not_streamed)
  moreover have "reg_reachable nodeStaleAfter (srv_nodes (sample_s1 d))"
    unfolding sample_s1_def
    by (rule handleMeshMessage_reachable) (simp_all add: sample_world_simps New_def reg_reachable.intros)
  ultimately show ?thesis by blast
qed

section \<open>The registration handshake\<close>

text \<open>The enrollment a token stands for at the time of an event, when it is valid and active.\<close>

definition token_enrollment :: "rt_env \<Rightarrow> string \<Rightarrow> db \<Rightarrow> Enrollment option" where
  "token_enrollment env tok d =
     (case Signer_Parse (w_parseV4 env) (w_now env) tok of
        Inl _ \<Rightarrow> None
      | Inr enr \<Rightarrow>
          if Enrollment_IsActive (w_now env) (w_enroll_fault env) (enr_ID enr) d = Inr True then Some enr else None)"

lemma accepted_enrollment_eq:
  "unmarshal_Heartbeat (w_parse_float env) (env_Payload e) = Some hb \<Longrightarrow>
   accepted_enrollment env e d = map_option (Pair hb) (token_enrollment env (hb_EnrollmentToken hb) d)"
  by (simp add: accepted_enrollment_def token_enrollment_def split: sum.split)

lemma heartbeat_of_token [simp]: "hb_EnrollmentToken (heartbeat_of d) = dm_enrollmentToken d"
  by (simp add: heartbeat_of_def zeroHeartbeat_def Let_def split: option.split)

definition heartbeat_message :: "bytes \<Rightarrow> message" where
  "heartbeat_message payload =
     \<lparr>msg_Header = backtraceToken, msg_Body = Envelope_Encode \<lparr>env_ReqID = HeartbeatReqID, env_Payload = payload\<rparr>\<rparr>"

lemma sendHeartbeat_sock:
  "marshal_Heartbeat fmt (heartbeat_of d) = Some payload \<Longrightarrow>
   sendHeartbeat fmt None d = d\<lparr>dm_sock := dm_sock d @ [heartbeat_message payload]\<rparr>"
  by (simp add: sendHeartbeat_def Worker_Send_def SendMsg_def heartbeat_message_def)

lemma handle_heartbeat_message:
  assumes "framing_ok deliver"
  shows "handleMeshMessage env (deliver pipe (heartbeat_message payload)) s =
    handleHeartbeat env pipe \<lparr>env_ReqID = HeartbeatReqID, env_Payload = payload\<rparr> s"
proof -
  have "DecodeEnvelope (msg_Body (deliver pipe (heartbeat_message payload))) =
      Inr \<lparr>env_ReqID = HeartbeatReqID, env_Payload = payload\<rparr>"
    using assms envelope_codec.dec_enc [of "\<lparr>env_ReqID = HeartbeatReqID, env_Payload = payload\<rparr>"]
    by (simp add: framing_ok_def heartbeat_message_def envelope_valid_def MaxReqIDLen_def HeartbeatReqID_def)
  moreover have "PipeFromHeader (msg_Header (deliver pipe (heartbeat_message payload))) = Inr pipe"
    using PipeFromHeader_framed [OF assms] by (simp add: heartbeat_message_def)
  ultimately show ?thesis by (simp add: handleMeshMessage_def)
qed

lemma ack_reaches_worker:
  assumes "routing_ok to_worker"
  shows "Run_dispatch (to_worker (ack_message pipe payload)) =
    Some (backtraceToken, \<lparr>env_ReqID = HeartbeatAckReqID, env_Payload = payload\<rparr>)"
  by (rule worker_receives [OF assms, of _ pipe]) (simp_all add: ack_message_def HeartbeatAckReqID_def)

lemma handleAck_state:
  "dm_state (fst (handleAck now (marshal_HeartbeatAck ack) d)) = (if ack_OK ack then ConnStateRegistered else ConnStateConnecting)"
  "dm_lastAck (fst (handleAck now (marshal_HeartbeatAck ack) d)) = Some now"
  by (simp_all add: handleAck_def HeartbeatAck_roundtrip clean_HeartbeatAck_def Let_def)

text \<open>The heartbeats of a worker arrive: they carry no estimate, so only the request count is bounded.\<close>

lemma heartbeat_of_TPS [simp]: "hb_EstimatedTPS (heartbeat_of d) = 0"
  by (simp add: heartbeat_of_def zeroHeartbeat_def Let_def split: option.split)

lemma heartbeat_of_arrives:
  assumes "int64 (dm_activeRequests d)"
  shows "marshal_Heartbeat fmt (heartbeat_of d) = Some (Marshal (Heartbeat_json fmt (heartbeat_of d)))"
    "unmarshal_Heartbeat parse (Marshal (Heartbeat_json fmt (heartbeat_of d))) = Some (clean_Heartbeat (heartbeat_of d))"
proof -
  have "Heartbeat_sendable (heartbeat_of d)"
    using assms
    by (simp add: Heartbeat_sendable_def float_finite_def heartbeat_of_def zeroHeartbeat_def int64_def Let_def split: option.split)
  then show "marshal_Heartbeat fmt (heartbeat_of d) = Some (Marshal (Heartbeat_json fmt (heartbeat_of d)))"
    "unmarshal_Heartbeat parse (Marshal (Heartbeat_json fmt (heartbeat_of d))) = Some (clean_Heartbeat (heartbeat_of d))"
    using Heartbeat_arrives [of "heartbeat_of d" fmt parse] by (simp_all add: float_zero_def)
qed

lemma clean_heartbeat_token [simp]:
  "hb_EnrollmentToken (clean_Heartbeat h) = to_valid (hb_EnrollmentToken h)"
  by (simp add: clean_Heartbeat_def)

text \<open>A node that has just been heard of can be selected until it is stale.\<close>

lemma registered_selectable:
  assumes "nodes_inv r" "map_of (byID r) i = Some e" "time_sub now (ne_lastSeen e) \<le> staleAfter r"
  shows "\<exists>node. selectLeastConnections now r = Inr (Some node)"
proof -
  have "i \<in> set (order r)"
    using assms(1,2) by (auto simp: nodes_inv_def)
  then have "e \<in> set (fresh_nodes now r)"
    using assms(2,3) by (force simp: fresh_nodes_def entries_def)
  then obtain x xs where "fresh_nodes now r = x # xs"
    by (cases "fresh_nodes now r") simp_all
  then show ?thesis
    using selectLeastConnections_eq [OF assms(1), of now] first_least_Some [of x xs] by auto
qed

text \<open>What a heartbeat leads to on the router, by the enrollment its token stands for.\<close>

lemma heartbeat_outcome:
  assumes hb: "unmarshal_Heartbeat (w_parse_float env) (env_Payload e) = Some h" and send: "w_send_fault env = None"
    and reach: "reg_reachable stale (srv_nodes s)" "range_order (w_ord env)" "range_order (w_ord' env)"
  shows "\<exists>ack. let s' = handleHeartbeat env pipe e s in
    srv_sock s' = srv_sock s @ [ack_message pipe (marshal_HeartbeatAck ack)] \<and>
    (case token_enrollment env (hb_EnrollmentToken h) (srv_db s) of
       Some enr \<Rightarrow> ack_OK ack \<and>
         (\<exists>syn. map_of (byID (srv_nodes s')) (enr_NodeName enr) =
            Some ((hb_entry env enr pipe h)\<lparr>ne_syncedCatalog := syn\<rparr>)) \<and>
         (\<forall>t. time_sub t (w_now env) \<le> stale \<longrightarrow> (\<exists>node. selectLeastConnections t (srv_nodes s') = Inr (Some node)))
     | None \<Rightarrow> \<not> ack_OK ack \<and> byID (srv_nodes s') = byID (srv_nodes s))"
proof -
  define s' where "s' = handleHeartbeat env pipe e s"
  have inv: "nodes_inv (srv_nodes s')" "staleAfter (srv_nodes s') = stale"
    unfolding s'_def using reachable_inv handleHeartbeat_reachable [OF reach] by blast+
  have sel: "\<exists>node. selectLeastConnections t (srv_nodes s') = Inr (Some node)"
    if "map_of (byID (srv_nodes s')) i = Some ((hb_entry env enr pipe h)\<lparr>ne_syncedCatalog := syn\<rparr>)"
      "time_sub t (w_now env) \<le> stale" for t i enr syn
    using registered_selectable [OF inv(1) that(1), of t] that(2) by (simp add: inv(2) hb_entry_def)
  show ?thesis
    using heartbeat_answered_truthfully [OF send, of pipe e s] sel accepted_enrollment_eq [of env e h "srv_db s"] hb
    unfolding Let_def s'_def [symmetric]
    by (cases "token_enrollment env (hb_EnrollmentToken h) (srv_db s)") fastforce+
qed

section \<open>One store under the whole program\<close>

text \<open>
  The router, the dashboard and the command line work on one database (\<open>serve\<close> hands \<open>st.DB()\<close>
  to all of them, the admin commands open the same file), the request log's writer included. A
  step of the program is one call of one of them on the database as the others left it.
\<close>

record system =
  sy_db :: db
  sy_srv :: Server
  sy_adm :: AdminServer
  sy_file :: "string \<Rightarrow> read_result"

datatype 'k sys_op =
    OnMesh rt_env message
  | OnChat http_env http_request
  | OnDashboard adm_env string adm_request
  | OnCommand "'k cli_env" string "string list"
  | OnAuditBatch batch_faults "nat \<Rightarrow> time" "Entry list"

abbreviation router_of :: "system \<Rightarrow> Server" where
  "router_of S \<equiv> (sy_srv S)\<lparr>srv_db := sy_db S\<rparr>"

abbreviation admin_of :: "system \<Rightarrow> AdminServer" where
  "admin_of S \<equiv> (sy_adm S)\<lparr>adm_db := sy_db S\<rparr>"

definition put_router :: "Server \<Rightarrow> system \<Rightarrow> system" where
  "put_router s S = S\<lparr>sy_srv := s, sy_db := srv_db s\<rparr>"

fun sys_step :: "'k sys_op \<Rightarrow> system \<Rightarrow> system" where
  "sys_step (OnMesh env msg) S = put_router (handleMeshMessage env msg (router_of S)) S"
| "sys_step (OnChat env rq) S = put_router (snd (handleChatCompletions env rq (router_of S))) S"
| "sys_step (OnDashboard env cookie req) S =
     (let a = snd (registerRoutes env cookie req (admin_of S)) in S\<lparr>sy_adm := a, sy_db := adm_db a\<rparr>)"
| "sys_step (OnCommand env path args) S =
     (let w = snd (admin_command env path args \<lparr>cw_db = sy_db S, cw_file = sy_file S\<rparr>)
      in S\<lparr>sy_db := cw_db w, sy_file := cw_file w\<rparr>)"
| "sys_step (OnAuditBatch bf nows batch) S = S\<lparr>sy_db := snd (insertBatch bf nows batch (sy_db S))\<rparr>"

subsection \<open>What each part leaves of the credentials\<close>

definition same_credentials :: "db \<Rightarrow> db \<Rightarrow> bool" where
  "same_credentials d d' \<longleftrightarrow> api_keys d' = api_keys d \<and> node_enrollment_tokens d' = node_enrollment_tokens d"

lemma same_credentials_refl [simp]: "same_credentials d d"
  by (simp add: same_credentials_def)

lemma same_credentials_trans: "same_credentials d d' \<Longrightarrow> same_credentials d' d'' \<Longrightarrow> same_credentials d d''"
  by (simp add: same_credentials_def)

lemma insert_models_credentials: "insert_models f i node ms d = Some d' \<Longrightarrow> same_credentials d d'"
proof (induction ms arbitrary: i d)
  case (Cons m ms)
  then obtain d1 where d1: "insert_catalog (f i) node m d = Inr d1" "same_credentials d1 d'"
    by (auto split: sum.splits)
  then have "same_credentials d d1"
    by (auto simp: insert_catalog_def same_credentials_def split: option.splits if_splits)
  with d1(2) show ?case by (blast intro: same_credentials_trans)
qed simp

lemma syncCatalog_credentials: "same_credentials d (fst (syncCatalog pf e d))"
proof -
  have "same_credentials d d1" if "delete_catalog f i d = Inr d1" for f i d1
    using that by (auto simp: delete_catalog_def same_credentials_def split: option.splits)
  then show ?thesis
    unfolding syncCatalog_def
    by (auto dest!: insert_models_credentials intro: same_credentials_trans split: sum.splits option.splits)
qed

lemma persist_credentials: "same_credentials d (fst (persist pf now e d))"
proof -
  have "same_credentials d d1" if "upsert_node f r d = Inr d1" for f r d1
    using upsert_node_InrD [OF that] by (simp add: same_credentials_def)
  then show ?thesis
    unfolding persist_def
    by (auto intro: same_credentials_trans [OF _ syncCatalog_credentials] split: sum.splits)
qed

lemma upsert_credentials: "upsert pf now e r (Some d) = (r', Some d') \<Longrightarrow> same_credentials d d'"
  using persist_credentials by (auto simp: upsert_def Let_def split: prod.splits) (metis fst_conv)

lemma mesh_credentials: "same_credentials (srv_db s) (srv_db (handleMeshMessage env msg s))"
proof -
  have "same_credentials (srv_db s) (srv_db (registry_upsert env e s))" for e s
    using upsert_credentials
    by (auto simp: registry_upsert_def upsert_None split: prod.splits option.splits if_splits)
  then show ?thesis
    by (auto simp: handleMeshMessage_def handleHeartbeat_def split: sum.splits bool.splits option.splits)
qed

lemma chat_credentials: "srv_db (snd (handleChatCompletions env rq s)) = srv_db s"
  by (simp add: handleChatCompletions_def Let_def split: sum.split option.split prod.split)

lemma exec_entries_credentials: "exec_entries f i nows es d = Inr d' \<Longrightarrow> same_credentials d d'"
proof (induction es arbitrary: i d)
  case (Cons e es)
  then obtain d1 where d1: "insert_audit (f i) (entry_row (nows i) e) d = Inr d1" "same_credentials d1 d'"
    by (auto split: sum.splits)
  then have "same_credentials d d1"
    by (auto simp: insert_audit_def same_credentials_def split: option.splits if_splits)
  with d1(2) show ?case by (blast intro: same_credentials_trans)
qed simp

lemma batch_credentials: "same_credentials d (snd (insertBatch bf nows batch d))"
  by (auto simp: insertBatch_def dest: exec_entries_credentials split: option.splits sum.splits)

lemma same_credentials_revoked:
  assumes "same_credentials d d'"
  shows "key_revoked d k \<Longrightarrow> key_revoked d' k" "token_revoked d k \<Longrightarrow> token_revoked d' k"
  using assms by (simp_all add: same_credentials_def key_revoked_def token_revoked_def)

text \<open>The commands: what holds of the database before and after each key and token operation.\<close>

lemma with_store_keeps:
  "(\<And>cfg w. P (cw_db w) \<Longrightarrow> P (cw_db (snd (body cfg w)))) \<Longrightarrow> P (cw_db w) \<Longrightarrow> P (cw_db (snd (with_store env path body w)))"
  by (simp add: with_store_def split: sum.split option.split)

lemma admin_command_keeps:
  assumes keys: "\<And>op d. P d \<Longrightarrow> P (key_step (c_argon env) op d)"
    and toks: "\<And>v4sign op d. P d \<Longrightarrow> P (token_step v4sign op d)"
    and "P (cw_db w)"
  shows "P (cw_db (snd (admin_command env path args w)))"
proof -
  have create: "P (cw_db (snd (create_key env name role w)))" if P: "P (cw_db w)" for name role w
  proof (cases "APIKey_Create (c_argon env) (c_salt env) (c_uuid env) (c_now env) (c_fault env) name
      (GenerateAPIKey (c_key_rand env)) (cw_db w)")
    case (Inl e)
    with P show ?thesis by (simp add: create_key_def)
  next
    case (Inr x)
    obtain ak d1 where x: "x = (ak, d1)" by (cases x)
    have "P d1"
      using keys [OF P, of "CreateKey (c_salt env) (c_uuid env) (c_now env) (c_fault env) name (GenerateAPIKey (c_key_rand env))"]
      by (simp add: Inr x)
    moreover have "P (key_step (c_argon env) (MakeAdmin (c_role_fault env) (key_ID ak)) d1)"
      using calculation by (rule keys)
    ultimately show ?thesis
      by (auto simp: create_key_def Inr x Let_def split: sum.splits)
  qed
  have enroll: "P d1" if "P d" "Enrollment_Create v4sign u n n' f node ttl d = Inr (et, tok, d1)" for v4sign u n n' f node ttl d et tok d1
    using toks [OF that(1), of v4sign "CreateToken u n n' f node ttl"] that(2) by simp
  have revoke: "P (snd (APIKey_Revoke n f rf i d))" if "P d" for n f rf i d
    using keys [OF that, of "RevokeKey n f rf i"] by simp
  have "P (cw_db (snd (adminCreateKey env path args w)))" for args
    using assms(3) create
    by (auto simp: adminCreateKey_def Let_def intro!: with_store_keeps [where P = P] split: sum.splits)
  moreover have "P (cw_db (snd (adminCreateEnrollment env path args w)))" for args
    using assms(3) enroll
    by (auto simp: adminCreateEnrollment_def Let_def intro!: with_store_keeps [where P = P] split: sum.splits prod.splits option.splits)
  moreover have "P (cw_db (snd (adminRevokeKey env path args w)))" for args
    using assms(3) revoke
    by (auto simp: adminRevokeKey_def Let_def intro!: with_store_keeps [where P = P]
        split: sum.splits prod.splits option.splits) (metis snd_conv)+
  ultimately show ?thesis
    using assms(3) by (simp add: admin_command_def split: list.split)
qed

lemma token_step_keys [simp]: "key_revoked (token_step v4sign x d) k = key_revoked d k"
  by (cases x) (auto simp: key_revoked_def Enrollment_Revoke_db dest!: Enrollment_Create_InrD split: sum.splits)

lemma key_step_tokens [simp]: "token_revoked (key_step argon x d) k = token_revoked d k"
  by (cases x)
    (auto simp: token_revoked_def APIKey_Revoke_db update_api_key_def dest!: APIKey_Create_InrD
      split: sum.splits option.splits)

lemma sys_step_key_revoked:
  assumes "key_revoked (sy_db S) k"
  shows "key_revoked (sy_db (sys_step op S)) k"
proof (cases op)
  case (OnMesh env msg)
  then show ?thesis
    using assms same_credentials_revoked(1) [OF mesh_credentials [of "router_of S" env msg]]
    by (simp add: put_router_def)
next
  case (OnChat env rq)
  then show ?thesis
    using assms by (simp add: put_router_def chat_credentials)
next
  case (OnDashboard env cookie req)
  then show ?thesis
    using assms adm_step_key_revoked [of "admin_of S" k "(env, cookie, req)"] by (simp add: adm_step_def Let_def)
next
  case (OnCommand env path args)
  then show ?thesis
    using assms admin_command_keeps [of "\<lambda>d. key_revoked d k" env "\<lparr>cw_db = sy_db S, cw_file = sy_file S\<rparr>" path args]
    by (simp add: Let_def api_key_store.revoked_step token_step_keys)
next
  case (OnAuditBatch bf now batch)
  then show ?thesis
    using assms same_credentials_revoked(1) [OF batch_credentials] by simp
qed

lemma sys_step_token_revoked:
  assumes "token_revoked (sy_db S) k"
  shows "token_revoked (sy_db (sys_step op S)) k"
proof (cases op)
  case (OnMesh env msg)
  then show ?thesis
    using assms same_credentials_revoked(2) [OF mesh_credentials [of "router_of S" env msg]]
    by (simp add: put_router_def)
next
  case (OnChat env rq)
  then show ?thesis
    using assms by (simp add: put_router_def chat_credentials)
next
  case (OnDashboard env cookie req)
  then show ?thesis
    using assms adm_step_token_revoked [of "admin_of S" k "(env, cookie, req)"] by (simp add: adm_step_def Let_def)
next
  case (OnCommand env path args)
  then show ?thesis
    using assms admin_command_keeps [of "\<lambda>d. token_revoked d k" env "\<lparr>cw_db = sy_db S, cw_file = sy_file S\<rparr>" path args]
    by (simp add: Let_def token_store.revoked_step key_step_tokens)
next
  case (OnAuditBatch bf now batch)
  then show ?thesis
    using assms same_credentials_revoked(2) [OF batch_credentials] by simp
qed

text \<open>The program as a whole is a credential store: nothing any part of it does undoes a revocation.\<close>

interpretation system_keys: credential_store
  "\<lambda>S k. key_revoked (sy_db S) k" "\<lambda>t k S. key_active t k (sy_db S)" "sys_step :: 'k sys_op \<Rightarrow> system \<Rightarrow> system"
  by unfold_locales
    (auto intro: sys_step_key_revoked dest: api_key_store.revoked_inactive api_key_store.active_earlier)

interpretation system_tokens: credential_store
  "\<lambda>S k. token_revoked (sy_db S) k" "\<lambda>t k S. token_active t k (sy_db S)" "sys_step :: 'k sys_op \<Rightarrow> system \<Rightarrow> system"
  by unfold_locales
    (auto intro: sys_step_token_revoked dest: token_store.revoked_inactive token_store.active_earlier)

lemma cli_revoke_revokes:
  assumes "adminRevokeKey env path args w = (RevokedPrinted i, w')"
  shows "key_revoked (cw_db w') i"
proof -
  obtain n f rf where "APIKey_Revoke n f rf i (cw_db w) = (None, cw_db w')"
    using assms
    by (auto simp: adminRevokeKey_def with_store_def Let_def split: sum.splits if_splits option.splits prod.splits)
  then show ?thesis by (rule APIKey_Revoke_revokes)
qed

text \<open>A script may rely on the exit status: \<open>admin revoke-key\<close> with an id ends with status 0 only when the key is revoked.\<close>

lemma revoke_exit_status:
  assumes "linguine_main argv = RunAdmin path (''revoke-key'' # args)"
    and "parse_flags [''id'' \<mapsto> StringFlag] (\<lambda>_ _. True) args [] = Inr (vals, rest)"
    and "linguine_exit sf loaded env argv w = (0, w')"
  shows "key_revoked (cw_db w') (flag_value ''id'' '''' vals)"
proof -
  let ?i = "flag_value ''id'' '''' vals"
  have run: "apfst cli_status (adminRevokeKey env path args w) = (0, w')"
    using assms(1,3) by (simp add: linguine_exit_def admin_command_def)
  then obtain r where r: "adminRevokeKey env path args w = (r, w')" "cli_status r = 0"
    by (cases "adminRevokeKey env path args w") auto
  then have "r = RevokedPrinted ?i"
    using assms(2)
    by (auto simp: adminRevokeKey_def with_store_def cli_status_def exitOnErr_def Let_def
        split: sum.splits if_splits option.splits prod.splits)
  with r(1) show ?thesis
    using cli_revoke_revokes by blast
qed

lemma key_revoked_refused:
  assumes "key_revoked (srv_db s) i" "row_order (h_ord env)" "authenticate env rq s = Inr ak"
  shows "key_ID ak \<noteq> i"
proof -
  obtain r where "r \<in> set (api_keys (srv_db s))" "ak = scan_verify r" "ak_status r = ''active''"
    using APIKey_Verify_InrD [OF assms(2) authenticate_InrD(2) [OF assms(3)]] by blast
  then show ?thesis
    using assms(1) by (auto simp: key_revoked_def rows_revoked_def scan_verify_def)
qed

lemma opened_authenticated:
  assumes "handleChatCompletions env rq s = (Opened reqID ac, s')"
  shows "\<exists>ak. authenticate env rq s = Inr ak \<and> ac_apiKeyID ac = key_ID ak"
  using assms by (auto simp: handleChatCompletions_def Let_def split: sum.splits option.splits prod.splits if_splits)

text \<open>
  Revoking a worker's token does not touch the registry: until the stale limit passes the
  dispatcher still selects the worker.
\<close>

lemma revoked_worker_still_selected:
  "selectLeastConnections t (srv_nodes (router_of (sys_step (OnDashboard env cookie (PostWorkerKeyRevoke i)) S))) =
   selectLeastConnections t (srv_nodes (router_of S))"
  by (simp add: Let_def)

text \<open>
  From a revocation on, no entry of the token is made or refreshed: whatever registry the program
  reaches, its entries for the token are ones it had when the token was revoked. (They are not
  removed either: the dispatcher selects the worker until the stale limit passes.)
\<close>

definition only_old :: "string \<Rightarrow> nodeRegistry \<Rightarrow> nodeRegistry \<Rightarrow> bool" where
  "only_old i r0 r \<longleftrightarrow> staleAfter r = staleAfter r0 \<and>
     (\<forall>n x. map_of (byID r) n = Some x \<and> ne_tokenID x = i \<longrightarrow> map_of (byID r0) n = Some x)"

lemma only_old_refl [simp]: "only_old i r r"
  by (simp add: only_old_def)

lemma only_old_trans: "only_old i r0 r1 \<Longrightarrow> only_old i r1 r2 \<Longrightarrow> only_old i r0 r2"
  by (simp add: only_old_def)

lemma token_revoked_not_accepted:
  assumes "token_revoked (srv_db s) i" "accepted_enrollment env e (srv_db s) = Some (hb, enr)"
  shows "enr_ID enr \<noteq> i"
proof -
  have "Enrollment_IsActive (w_now env) (w_enroll_fault env) (enr_ID enr) (srv_db s) = Inr True"
    using assms(2) by (auto simp: accepted_enrollment_def split: option.splits sum.splits if_splits)
  then have "token_active (w_now env) (enr_ID enr) (srv_db s)"
    by (auto simp: token_active_def Enrollment_IsActive_def split: option.splits)
  with assms(1) show ?thesis
    using token_store.revoked_inactive by blast
qed

lemma heartbeat_only_old:
  assumes "token_revoked (srv_db s) i"
  shows "only_old i (srv_nodes s) (srv_nodes (handleHeartbeat env pipe e s))"
proof (cases "accepted_enrollment env e (srv_db s)")
  case None
  then show ?thesis
    using handleHeartbeat_rejected [OF None, of pipe] by (auto simp: only_old_def claim_def)
next
  case (Some p)
  obtain hb enr where p: "p = (hb, enr)" by (cases p)
  have "ne_tokenID (hb_entry env enr pipe hb) \<noteq> i"
    using token_revoked_not_accepted [OF assms] Some p by (simp add: hb_entry_def)
  then show ?thesis
    using handleHeartbeat_accepted [of env e s hb enr pipe] Some p
    by (auto simp: only_old_def registry_upsert_nodes intro: upsert_other_token)
qed

lemma sys_step_only_old:
  assumes "token_revoked (sy_db S) i"
  shows "only_old i (srv_nodes (sy_srv S)) (srv_nodes (sy_srv (sys_step op S)))"
proof (cases op)
  case (OnMesh env msg)
  then show ?thesis
    using heartbeat_only_old [of "router_of S" i] assms
    by (simp add: put_router_def handleMeshMessage_def split: sum.split option.split)
next
  case (OnChat env rq)
  then show ?thesis
    by (simp add: put_router_def handleChatCompletions_def Let_def split: sum.split option.split prod.split)
qed (simp_all add: Let_def)

lemma sys_run_only_old:
  "token_revoked (sy_db S) i \<Longrightarrow> only_old i (srv_nodes (sy_srv S)) (srv_nodes (sy_srv (fold sys_step ops S)))"
  by (induction ops arbitrary: S) (auto intro: only_old_trans [OF sys_step_only_old] sys_step_token_revoked)

section \<open>A concrete system\<close>

definition sample_system :: system where
  "sample_system =
     \<lparr>sy_db = adm_db sample_admin\<lparr>node_enrollment_tokens := node_enrollment_tokens sample_node_db\<rparr>,
      sy_srv = New 0 empty_db True None, sy_adm = sample_admin, sy_file = (\<lambda>_. ReadNotExist)\<rparr>"

end
