(* ===== verification/Network.thy ===== *)
theory Network
  imports Composition "HOL-Library.Sublist"
begin

text \<open>
  The running network: the router's transition system, any number of workers' transition systems
  and the mesh between them, interleaved. Each part is shown to behave in the network as it does
  on its own, and a completion is followed through all of them.
\<close>

section \<open>The network as a transition system\<close>

text \<open>
  The sockets' logs (\<open>srv_sock\<close>, \<open>dm_sock\<close>) hold what was handed to the library; the mesh takes
  the messages of a log one after the other. \<open>nt_up w\<close> counts those of worker \<open>w\<close>'s log that left
  for the router, \<open>nt_down p\<close> those of the router's log addressed to pipe \<open>p\<close> that left for the
  worker at the other end, \<open>nt_pipe w\<close> is the pipe worker \<open>w\<close> is connected through at present, and
  \<open>nt_ids\<close> are the identifiers \<open>uuid.NewString\<close> has returned to the chat handler so far.
\<close>

record net_sys =
  nt_rt :: rt_sys
  nt_wk :: "nat \<Rightarrow> wk_sys"
  nt_pipe :: "nat \<Rightarrow> PipeID"
  nt_up :: "nat \<Rightarrow> nat"
  nt_down :: "PipeID \<Rightarrow> nat"
  nt_ids :: "string list"

abbreviation wk_out :: "net_sys \<Rightarrow> nat \<Rightarrow> sock" where
  "wk_out N w \<equiv> dm_sock (wk_daemon (nt_wk N w))"

abbreviation nt_srv :: "net_sys \<Rightarrow> Server" where
  "nt_srv N \<equiv> sys_srv (nt_rt N)"

definition rt_out :: "net_sys \<Rightarrow> PipeID \<Rightarrow> sock" where
  "rt_out N p = filter (\<lambda>m. take 4 (msg_Header m) = PutUint32 p) (srv_sock (nt_srv N))"

text \<open>
  The events: the chat endpoint opens a session with a request body; a worker starts a job for a
  request, whose engine answers; any other step of the router, or of a worker, with whether it
  put a message on the worker's socket; a message lost by the mesh; a worker that reconnected.
\<close>

datatype net_event =
  Opens string bytes | Starts nat string bytes upstream | RouterDid rt_event
| WorkerDid nat wk_event bool | MeshLost | Reconnected nat

fun router_own :: "rt_event \<Rightarrow> bool" where
  "router_own (Queued _ _) = False"
| "router_own (Lost _ _) = False"
| "router_own (Open _) = False"
| "router_own _ = True"

fun worker_own :: "wk_event \<Rightarrow> bool" where
  "worker_own (JobStarted _) = False"
| "worker_own (AckSeen _) = False"
| "worker_own _ = True"

definition request_id :: "string \<Rightarrow> bool" where
  "request_id i \<longleftrightarrow> length i \<le> 255 \<and> i \<noteq> HeartbeatReqID \<and> i \<noteq> HeartbeatAckReqID"

text \<open>
  \<open>router\<close> covers what the router does without hearing from a worker of the network, and messages
  of other peers that are no frames for an open session. A job is started by a message that
  arrived and by nothing else, with an engine that answers anything whose frames fit the wire.
\<close>

inductive net_step :: "(PipeID \<Rightarrow> message \<Rightarrow> message) \<Rightarrow> (message \<Rightarrow> message) \<Rightarrow> net_sys \<Rightarrow> net_event \<Rightarrow> net_sys \<Rightarrow> bool"
  for deliver to_worker where
  router: "rt_step (nt_rt N) ev R \<Longrightarrow> router_own ev \<Longrightarrow>
    net_step deliver to_worker N (RouterDid ev) (N\<lparr>nt_rt := R\<rparr>)"
| opens: "rt_step (nt_rt N) (Open i) R \<Longrightarrow> handleChatCompletions env rq (nt_srv N) = (Opened i ac, sys_srv R) \<Longrightarrow>
    request_id i \<Longrightarrow> i \<notin> set (nt_ids N) \<Longrightarrow>
    net_step deliver to_worker N (Opens i (rq_body rq)) (N\<lparr>nt_rt := R, nt_ids := i # nt_ids N\<rparr>)"
| up: "nt_up N w < length (wk_out N w) \<Longrightarrow> msg = deliver (nt_pipe N w) (wk_out N w ! nt_up N w) \<Longrightarrow>
    range_order (w_ord env) \<Longrightarrow> range_order (w_ord' env) \<Longrightarrow>
    net_step deliver to_worker N (RouterDid (mesh_event msg (nt_srv N)))
      (N\<lparr>nt_rt := (nt_rt N)\<lparr>sys_srv := handleMeshMessage env msg (nt_srv N)\<rparr>, nt_up := (nt_up N)(w := Suc (nt_up N w))\<rparr>)"
| lost_up: "nt_up N w < length (wk_out N w) \<Longrightarrow>
    net_step deliver to_worker N MeshLost (N\<lparr>nt_up := (nt_up N)(w := Suc (nt_up N w))\<rparr>)"
| starts: "nt_pipe N w = p \<Longrightarrow> nt_down N p < length (rt_out N p) \<Longrightarrow>
    Run_dispatch (to_worker (rt_out N p ! nt_down N p)) = Some (bt, e) \<Longrightarrow>
    env_ReqID e \<noteq> HeartbeatAckReqID \<Longrightarrow> env_ReqID e \<noteq> HeartbeatReqID \<Longrightarrow>
    job_frames (Proxy answer) = (fs, fin) \<Longrightarrow> \<forall>f \<in> set fs. frame_valid f \<Longrightarrow>
    W = (nt_wk N w)\<lparr>wk_daemon := (wk_daemon (nt_wk N w))\<lparr>dm_activeRequests := dm_activeRequests (wk_daemon (nt_wk N w)) + 1\<rparr>,
         wk_jobs := wk_jobs (nt_wk N w) @ [\<lparr>jb_backtrace = bt, jb_reqID = env_ReqID e, jb_todo = fs, jb_returns = fin\<rparr>]\<rparr> \<Longrightarrow>
    net_step deliver to_worker N (Starts w (env_ReqID e) (env_Payload e) answer)
      (N\<lparr>nt_wk := (nt_wk N)(w := W), nt_down := (nt_down N)(p := Suc (nt_down N p))\<rparr>)"
| acked: "nt_pipe N w = p \<Longrightarrow> nt_down N p < length (rt_out N p) \<Longrightarrow>
    Run_dispatch (to_worker (rt_out N p ! nt_down N p)) = Some (bt, e) \<Longrightarrow> env_ReqID e = HeartbeatAckReqID \<Longrightarrow>
    handleAck now (env_Payload e) (wk_daemon (nt_wk N w)) = (d', log) \<Longrightarrow>
    ev = (case unmarshal_HeartbeatAck (env_Payload e) of None \<Rightarrow> Idle | Some a \<Rightarrow> AckSeen a) \<Longrightarrow>
    net_step deliver to_worker N (WorkerDid w ev False)
      (N\<lparr>nt_wk := (nt_wk N)(w := (nt_wk N w)\<lparr>wk_daemon := d'\<rparr>), nt_down := (nt_down N)(p := Suc (nt_down N p))\<rparr>)"
| lost_down: "nt_down N p < length (rt_out N p) \<Longrightarrow>
    net_step deliver to_worker N MeshLost (N\<lparr>nt_down := (nt_down N)(p := Suc (nt_down N p))\<rparr>)"
| worker: "wk_step (nt_wk N w) ev W \<Longrightarrow> worker_own ev \<Longrightarrow>
    net_step deliver to_worker N (WorkerDid w ev (dm_sock (wk_daemon W) \<noteq> wk_out N w)) (N\<lparr>nt_wk := (nt_wk N)(w := W)\<rparr>)"
| reconnected: "net_step deliver to_worker N (Reconnected w) (N\<lparr>nt_pipe := (nt_pipe N)(w := p)\<rparr>)"

inductive net_run :: "(PipeID \<Rightarrow> message \<Rightarrow> message) \<Rightarrow> (message \<Rightarrow> message) \<Rightarrow> net_sys \<Rightarrow> net_event list \<Rightarrow> net_sys \<Rightarrow> bool"
  for deliver to_worker where
  nil: "net_run deliver to_worker N [] N"
| snoc: "net_run deliver to_worker N evs N' \<Longrightarrow> net_step deliver to_worker N' ev N'' \<Longrightarrow>
    net_run deliver to_worker N (evs @ [ev]) N''"

text \<open>At the start the router knows no node, and each worker has announced itself or failed to.\<close>

definition net_init :: "rt_sys \<Rightarrow> (float64 \<Rightarrow> string) \<Rightarrow> (nat \<Rightarrow> string option) \<Rightarrow> (nat \<Rightarrow> Daemon) \<Rightarrow> (nat \<Rightarrow> PipeID) \<Rightarrow> net_sys" where
  "net_init R fmt faults ds pipes =
     \<lparr>nt_rt = R, nt_wk = (\<lambda>w. wk_start fmt (faults w) (ds w)), nt_pipe = pipes,
      nt_up = (\<lambda>_. 0), nt_down = (\<lambda>_. 0), nt_ids = []\<rparr>"

section \<open>The parts in the network\<close>

fun rt_of :: "net_event \<Rightarrow> rt_event list" where
  "rt_of (Opens i _) = [Open i]"
| "rt_of (RouterDid ev) = [ev]"
| "rt_of _ = []"

fun wk_of :: "nat \<Rightarrow> net_event \<Rightarrow> wk_event list" where
  "wk_of w (Starts v i _ _) = (if v = w then [JobStarted i] else [])"
| "wk_of w (WorkerDid v ev _) = (if v = w then [ev] else [])"
| "wk_of w _ = []"

abbreviation rt_trace :: "net_event list \<Rightarrow> rt_event list" where
  "rt_trace evs \<equiv> concat (map rt_of evs)"

abbreviation wk_trace :: "nat \<Rightarrow> net_event list \<Rightarrow> wk_event list" where
  "wk_trace w evs \<equiv> concat (map (wk_of w) evs)"

lemma net_step_router:
  "net_step deliver to_worker N ev N' \<Longrightarrow> rt_run R0 evs (nt_rt N) \<Longrightarrow> rt_run R0 (evs @ rt_of ev) (nt_rt N')"
  by (induction rule: net_step.induct) (auto intro: rt_run.snoc rt_step.mesh)

lemma net_step_worker:
  "net_step deliver to_worker N ev N' \<Longrightarrow> wk_run W0 evs (nt_wk N w) \<Longrightarrow> wk_run W0 (evs @ wk_of w ev) (nt_wk N' w)"
  by (induction rule: net_step.induct) (auto intro: wk_run.snoc wk_step.job wk_step.ack)

lemma net_run_router:
  "net_run deliver to_worker N evs N' \<Longrightarrow> rt_run (nt_rt N) (rt_trace evs) (nt_rt N')"
  by (induction rule: net_run.induct) (auto intro: rt_run.nil net_step_router)

lemma net_run_worker:
  "net_run deliver to_worker N evs N' \<Longrightarrow> wk_run (nt_wk N w) (wk_trace w evs) (nt_wk N' w)"
  by (induction rule: net_run.induct) (auto intro: wk_run.nil net_step_worker)

section \<open>What is under way for a request\<close>

text \<open>
  For a request: the frames in a list of messages a worker sent, the bodies in a list of messages
  the router sent; then what is on its way to a worker, what a worker has still to send, what is
  on its way back, and whether a handler still waits.
\<close>

definition frames_for :: "string \<Rightarrow> message list \<Rightarrow> Frame list" where
  "frames_for i ms = concat (map (\<lambda>m.
     case DecodeEnvelope (msg_Body m) of
       Inl _ \<Rightarrow> []
     | Inr e \<Rightarrow>
         if env_ReqID e = i then (case DecodeFrame (env_Payload e) of Inl _ \<Rightarrow> [] | Inr f \<Rightarrow> [f]) else []) ms)"

definition bodies_for :: "string \<Rightarrow> message list \<Rightarrow> bytes list" where
  "bodies_for i ms = concat (map (\<lambda>m.
     case DecodeEnvelope (msg_Body m) of
       Inl _ \<Rightarrow> []
     | Inr e \<Rightarrow> if env_ReqID e = i then [env_Payload e] else []) ms)"

definition pending :: "string \<Rightarrow> net_sys \<Rightarrow> PipeID \<Rightarrow> bytes list" where
  "pending i N p = bodies_for i (drop (nt_down N p) (rt_out N p))"

definition todo :: "string \<Rightarrow> net_sys \<Rightarrow> nat \<Rightarrow> Frame list list" where
  "todo i N w = map jb_todo (filter (\<lambda>j. jb_reqID j = i) (wk_jobs (nt_wk N w)))"

definition flying :: "string \<Rightarrow> net_sys \<Rightarrow> nat \<Rightarrow> Frame list" where
  "flying i N w = frames_for i (drop (nt_up N w) (wk_out N w))"

definition waits :: "string \<Rightarrow> net_sys \<Rightarrow> bool" where
  "waits i N \<longleftrightarrow> i \<in> dom (map_of (srv_sessions (nt_srv N)))"

text \<open>All of a request's frames, in the order they were produced: queued already, on the way, still to be sent.\<close>

definition line :: "string \<Rightarrow> net_event list \<Rightarrow> net_sys \<Rightarrow> nat \<Rightarrow> Frame list" where
  "line i evs N w = queued_since i (rt_trace evs) @ flying i N w @ concat (todo i N w)"

fun about :: "string \<Rightarrow> net_event \<Rightarrow> bool" where
  "about i (Opens j _) \<longleftrightarrow> i = j"
| "about i (Starts _ j _ _) \<longleftrightarrow> i = j"
| "about i _ \<longleftrightarrow> False"

text \<open>What can make a request lose a frame: a full session, a failed send, a loss on the mesh.\<close>

fun disturbs :: "string \<Rightarrow> net_event \<Rightarrow> bool" where
  "disturbs i (RouterDid (Lost j _)) \<longleftrightarrow> i = j"
| "disturbs i (WorkerDid _ (JobSent j _) sent) \<longleftrightarrow> i = j \<and> \<not> sent"
| "disturbs i MeshLost \<longleftrightarrow> True"
| "disturbs i _ \<longleftrightarrow> False"

definition idle :: "string \<Rightarrow> net_sys \<Rightarrow> nat \<Rightarrow> bool" where
  "idle i N w \<longleftrightarrow> todo i N w = [] \<and> flying i N w = []"

definition sole :: "string \<Rightarrow> net_sys \<Rightarrow> nat \<Rightarrow> bool" where
  "sole i N w \<longleftrightarrow> (\<forall>v. v \<noteq> w \<longrightarrow> idle i N v) \<and> length (todo i N w) \<le> 1"

text \<open>The three stages of a request: not opened, dispatched, taken up by one worker.\<close>

inductive req_inv :: "string \<Rightarrow> net_event list \<Rightarrow> net_sys \<Rightarrow> bool" for i evs N where
  unopened: "filter (about i) evs = [] \<Longrightarrow> \<forall>p. pending i N p = [] \<Longrightarrow> \<forall>w. idle i N w \<Longrightarrow>
    queued_since i (rt_trace evs) = [] \<Longrightarrow> req_inv i evs N"
| dispatched: "filter (about i) evs = [Opens i body] \<Longrightarrow> \<forall>p. p \<noteq> at \<longrightarrow> pending i N p = [] \<Longrightarrow>
    suffix (pending i N at) [body] \<Longrightarrow> \<forall>w. idle i N w \<Longrightarrow> queued_since i (rt_trace evs) = [] \<Longrightarrow> req_inv i evs N"
| running: "filter (about i) evs = [Opens i body, Starts w i body answer] \<Longrightarrow> \<forall>p. pending i N p = [] \<Longrightarrow> sole i N w \<Longrightarrow>
    subseq (line i evs N w) (fst (job_frames (Proxy answer))) \<Longrightarrow>
    (waits i N \<Longrightarrow> \<forall>ev \<in> set evs. \<not> disturbs i ev \<Longrightarrow> line i evs N w = fst (job_frames (Proxy answer))) \<Longrightarrow> req_inv i evs N"

definition worker_message :: "message \<Rightarrow> bool" where
  "worker_message m \<longleftrightarrow> (\<exists>b. m = heartbeat_message b) \<or> (\<exists>i f. m = frame_message i f \<and> frame_valid f \<and> request_id i)"

definition router_message :: "string list \<Rightarrow> message \<Rightarrow> bool" where
  "router_message ids m \<longleftrightarrow> (\<exists>p b. m = ack_message p b) \<or>
     (\<exists>p e. m = \<lparr>msg_Header = PutUint32 p @ backtraceToken, msg_Body = Envelope_Encode e\<rparr> \<and>
        request_id (env_ReqID e) \<and> env_ReqID e \<in> set ids)"

definition job_ok :: "job \<Rightarrow> bool" where
  "job_ok j \<longleftrightarrow> jb_backtrace j = backtraceToken \<and> request_id (jb_reqID j) \<and> (\<forall>f \<in> set (jb_todo j). frame_valid f)"

definition logs_ok :: "net_sys \<Rightarrow> bool" where
  "logs_ok N \<longleftrightarrow> (\<forall>m \<in> set (srv_sock (nt_srv N)). router_message (nt_ids N) m) \<and>
     (\<forall>w. nt_up N w \<le> length (wk_out N w) \<and> (\<forall>m \<in> set (wk_out N w). worker_message m) \<and>
        (\<forall>j \<in> set (wk_jobs (nt_wk N w)). job_ok j))"

definition net_inv :: "net_event list \<Rightarrow> net_sys \<Rightarrow> bool" where
  "net_inv evs N \<longleftrightarrow> rt_inv (rt_trace evs) (nt_rt N) \<and> logs_ok N \<and>
     (\<forall>i. i \<in> set (nt_ids N) \<longleftrightarrow> filter (about i) evs \<noteq> []) \<and>
     (\<forall>i \<in> set (nt_ids N). request_id i) \<and> (\<forall>i. waits i N \<longrightarrow> i \<in> set (nt_ids N)) \<and>
     (\<forall>i. request_id i \<longrightarrow> req_inv i evs N)"

section \<open>Messages\<close>

lemma frames_for_simps [simp]:
  "frames_for i [] = []" "frames_for i (xs @ ys) = frames_for i xs @ frames_for i ys"
  by (simp_all add: frames_for_def)

lemma bodies_for_simps [simp]:
  "bodies_for i [] = []" "bodies_for i (xs @ ys) = bodies_for i xs @ bodies_for i ys"
  by (simp_all add: bodies_for_def)

lemma frames_for_Cons: "frames_for i (m # ms) = frames_for i [m] @ frames_for i ms"
  by (simp add: frames_for_def)

lemma bodies_for_Cons: "bodies_for i (m # ms) = bodies_for i [m] @ bodies_for i ms"
  by (simp add: bodies_for_def)

lemma decode_request_envelope [simp]:
  "length (env_ReqID e) \<le> 255 \<Longrightarrow> DecodeEnvelope (Envelope_Encode e) = Inr e"
  using envelope_codec.dec_enc [of e] by (simp add: envelope_valid_def MaxReqIDLen_def)

lemma frames_for_heartbeat [simp]: "request_id i \<Longrightarrow> frames_for i [heartbeat_message b] = []"
  by (auto simp: frames_for_def heartbeat_message_def request_id_def HeartbeatReqID_def)

lemma frames_for_frame [simp]:
  "frame_valid f \<Longrightarrow> request_id j \<Longrightarrow> frames_for i [frame_message j f] = (if i = j then [f] else [])"
  by (simp add: frames_for_def frame_message_def request_id_def frame_codec.dec_enc)

lemma bodies_for_ack [simp]: "request_id i \<Longrightarrow> bodies_for i [ack_message p b] = []"
  by (auto simp: bodies_for_def ack_message_def request_id_def HeartbeatAckReqID_def)

lemma bodies_for_request [simp]:
  "length (env_ReqID e) \<le> 255 \<Longrightarrow>
   bodies_for i [\<lparr>msg_Header = h, msg_Body = Envelope_Encode e\<rparr>] = (if env_ReqID e = i then [env_Payload e] else [])"
  by (simp add: bodies_for_def)

lemma bodies_for_acks:
  "request_id i \<Longrightarrow> \<forall>m \<in> set ms. \<exists>p b. m = ack_message p b \<Longrightarrow> bodies_for i ms = []"
proof (induction ms)
  case (Cons m ms)
  then show ?case
    using bodies_for_Cons [of i m ms] by auto
qed simp

lemma mesh_event_heartbeat:
  assumes "framing_ok deliver"
  shows "mesh_event (deliver p (heartbeat_message b)) s = Other"
proof -
  have "DecodeEnvelope (msg_Body (deliver p (heartbeat_message b))) = Inr \<lparr>env_ReqID = HeartbeatReqID, env_Payload = b\<rparr>"
    using assms by (simp add: framing_ok_def heartbeat_message_def HeartbeatReqID_def)
  then show ?thesis
    by (simp add: mesh_event_def split: sum.split option.split)
qed

lemma mesh_event_frame:
  assumes "framing_ok deliver" "frame_valid f" "request_id j"
  shows "mesh_event (deliver p (frame_message j f)) s =
    (case map_of (srv_sessions s) j of
       None \<Rightarrow> Other
     | Some ch \<Rightarrow> if snd (chan_try_send f ch) then Queued j f else Lost j f)"
proof -
  have "DecodeEnvelope (msg_Body (deliver p (frame_message j f))) = Inr \<lparr>env_ReqID = j, env_Payload = Frame_Encode f\<rparr>"
    using assms by (simp add: framing_ok_def frame_message_def request_id_def)
  moreover have "PipeFromHeader (msg_Header (deliver p (frame_message j f))) = Inr p"
    using PipeFromHeader_framed [OF assms(1)] by (simp add: frame_message_def)
  ultimately show ?thesis
    using assms(2,3) by (simp add: mesh_event_def frame_codec.dec_enc request_id_def split: option.split)
qed

section \<open>Steps of the router\<close>

text \<open>But for the dispatch of a request, all the router sends are acknowledgements; and no step but an opening adds a session.\<close>

lemma sendAck_log: "\<exists>ms. srv_sock (sendAck env p ack s) = srv_sock s @ ms \<and> (\<forall>m \<in> set ms. \<exists>p b. m = ack_message p b)"
  by (cases "w_send_fault env") (auto simp: sendAck_def SendTo_def SendMsg_def ack_message_def)

lemma handleMeshMessage_log:
  "\<exists>ms. srv_sock (handleMeshMessage env msg s) = srv_sock s @ ms \<and> (\<forall>m \<in> set ms. \<exists>p b. m = ack_message p b)"
proof -
  have "\<exists>ms. srv_sock (handleHeartbeat env p e s) = srv_sock s @ ms \<and> (\<forall>m \<in> set ms. \<exists>p b. m = ack_message p b)" for p e
    using sendAck_log [of env p _ "claim env _ _ _ p s"] sendAck_log [of env p _ s] sendAck_log [of env p _ "registry_upsert env _ s"]
    unfolding claim_simps registry_upsert_simps handleHeartbeat_def
    by (simp split: option.split sum.split bool.split)
  then show ?thesis
    by (auto simp: handleMeshMessage_def split: sum.split option.split)
qed

lemma mesh_sessions_dom:
  "dom (map_of (srv_sessions (handleMeshMessage env msg s))) = dom (map_of (srv_sessions s))"
  using mesh_event_cases [of msg s] by (auto simp: handleMeshMessage_sessions dom_def split: if_splits)

lemma rt_step_quiet:
  assumes "rt_step S ev S'" "rt_inv evs S" "\<forall>i. ev \<noteq> Open i"
  shows "\<exists>ms. srv_sock (sys_srv S') = srv_sock (sys_srv S) @ ms \<and> (\<forall>m \<in> set ms. \<exists>p b. m = ack_message p b)"
    and "dom (map_of (srv_sessions (sys_srv S'))) \<subseteq> dom (map_of (srv_sessions (sys_srv S)))"
proof -
  have log: "srv_sock (finish now i ac st s) = srv_sock s" for now i ac st s
    by (simp add: finish_def recordAudit_def split: option.splits)
  have ref: "srv_sock s' = srv_sock (sys_srv S) \<and> dom (map_of (srv_sessions s')) \<subseteq> dom (map_of (srv_sessions (sys_srv S)))"
    if "handleChatCompletions env rq (sys_srv S) = (Respond rsp, s')" for env rq rsp s'
    using handleChat_cases [OF rt_inv_nodes [OF assms(2)], of env rq] that by (auto split: if_splits)
  show "\<exists>ms. srv_sock (sys_srv S') = srv_sock (sys_srv S) @ ms \<and> (\<forall>m \<in> set ms. \<exists>p b. m = ack_message p b)"
    using assms(1,3) by cases (use handleMeshMessage_log ref log in auto)
  show "dom (map_of (srv_sessions (sys_srv S'))) \<subseteq> dom (map_of (srv_sessions (sys_srv S)))"
    using assms(1,3) by cases (use mesh_sessions_dom ref in \<open>auto simp: finish_def split: if_splits\<close>)
qed

section \<open>The invariant of the network\<close>

lemma idle_sole: "\<forall>w. idle i N w \<Longrightarrow> sole i N w"
  by (simp add: sole_def idle_def)

lemma idle_line: "idle i N w \<Longrightarrow> line i evs N w = queued_since i (rt_trace evs)"
  by (simp add: line_def idle_def)

lemma subseq_dropped: "subseq (xs @ ys) (xs @ y # ys)"
  by (induction xs) auto

text \<open>A step that neither opens nor starts the request keeps its stage, if at most it loses some of its frames.\<close>

lemma req_inv_keep:
  assumes inv: "req_inv i evs N" and ev: "\<not> about i ev"
    and pend: "\<And>p. suffix (pending i N' p) (pending i N p)"
    and idle: "\<And>w. idle i N w \<Longrightarrow> idle i N' w"
    and jobs: "\<And>w. length (todo i N' w) \<le> length (todo i N w)"
    and sub: "\<And>w. sole i N w \<Longrightarrow> subseq (line i (evs @ [ev]) N' w) (line i evs N w)"
    and exact: "\<And>w. sole i N w \<Longrightarrow> waits i N' \<Longrightarrow> \<not> disturbs i ev \<Longrightarrow>
      waits i N \<and> line i (evs @ [ev]) N' w = line i evs N w"
  shows "req_inv i (evs @ [ev]) N'"
proof -
  have quiet: "queued_since i (rt_trace (evs @ [ev])) = []"
    if "\<forall>w. idle i N w" "queued_since i (rt_trace evs) = []"
  proof -
    have "subseq (line i (evs @ [ev]) N' 0) []"
      using sub [OF idle_sole [OF that(1)], of 0] that by (simp add: idle_line del: map_append concat_append)
    then show ?thesis
      using idle that(1) by (simp add: idle_line list_emb_Nil2)
  qed
  have none: "pending i N' p = []" if "pending i N p = []" for p
    using pend [of p] that by simp
  from inv show ?thesis
  proof cases
    case unopened
    show ?thesis
      by (rule req_inv.unopened) (use unopened ev none idle quiet in \<open>simp_all del: map_append concat_append\<close>)
  next
    case (dispatched body at)
    have "suffix (pending i N' at) [body]"
      using pend [of at] dispatched(3) by (rule suffix_order.trans)
    then show ?thesis
      by (rule req_inv.dispatched [where at = at and body = body, rotated 2])
        (use dispatched ev none idle quiet in \<open>simp_all del: map_append concat_append\<close>)
  next
    case (running body w answer)
    have "sole i N' w"
      using running(3) idle jobs [of w] by (auto simp: sole_def)
    moreover have "subseq (line i (evs @ [ev]) N' w) (fst (job_frames (Proxy answer)))"
      using sub [OF running(3)] running(4) by (rule subseq_order.trans)
    moreover have "line i (evs @ [ev]) N' w = fst (job_frames (Proxy answer))"
      if "waits i N'" "\<forall>x \<in> set (evs @ [ev]). \<not> disturbs i x"
      using exact [OF running(3) that(1)] running(5) that(2) by simp
    moreover have "\<forall>p. pending i N' p = []"
      using running(2) none by simp
    ultimately show ?thesis
      using running(1) ev by (intro req_inv.running [where w = w and body = body and answer = answer]) simp_all
  qed
qed

lemma req_inv_same:
  assumes "req_inv i evs N" "\<not> about i ev" "\<And>p. suffix (pending i N' p) (pending i N p)"
    and "todo i N' = todo i N" "flying i N' = flying i N"
    and "queued_since i (rt_trace (evs @ [ev])) = queued_since i (rt_trace evs)" "waits i N' \<Longrightarrow> waits i N"
  shows "req_inv i (evs @ [ev]) N'"
  using assms by (intro req_inv_keep [OF assms(1-3)]) (simp_all add: idle_def line_def)

lemma pending_cong: "rt_out N' = rt_out N \<Longrightarrow> nt_down N' = nt_down N \<Longrightarrow> pending i N' = pending i N"
  by (simp add: fun_eq_iff pending_def)

lemma pending_consumed:
  assumes "rt_out N' = rt_out N" "nt_down N' = (nt_down N)(p := Suc (nt_down N p))"
  shows "suffix (pending i N' q) (pending i N q)"
proof (cases "q = p \<and> nt_down N p < length (rt_out N p)")
  case True
  then show ?thesis
    using Cons_nth_drop_Suc [of "nt_down N p" "rt_out N p"] bodies_for_Cons [of i "rt_out N p ! nt_down N p" "drop (Suc (nt_down N p)) (rt_out N p)"]
    by (simp add: pending_def assms) (metis suffixI)
qed (auto simp: assms pending_def)

lemma pending_acks:
  assumes "request_id i" "srv_sock (nt_srv N') = srv_sock (nt_srv N) @ ms" "\<forall>m \<in> set ms. \<exists>p b. m = ack_message p b"
    and "nt_down N' = nt_down N"
  shows "pending i N' p = pending i N p"
proof -
  have "bodies_for i (drop n (filter P ms)) = []" for n P
    using bodies_for_acks [OF assms(1)] assms(3) by (meson filter_is_subset in_set_dropD subset_code(1))
  then show ?thesis
    by (simp add: pending_def rt_out_def assms(2,4))
qed

lemma queued_own [simp]: "router_own ev \<Longrightarrow> queued_step i ev acc = acc"
  by (cases ev) simp_all

lemma rt_trace_snoc [simp]: "queued_since i (rt_trace evs @ [ev]) = queued_step i ev (queued_since i (rt_trace evs))"
  by (simp add: queued_since_snoc)

lemma req_inv_router:
  assumes "req_inv i evs N" "request_id i" "rt_inv (rt_trace evs) (nt_rt N)" "rt_step (nt_rt N) ev R" "router_own ev"
  shows "req_inv i (evs @ [RouterDid ev]) (N\<lparr>nt_rt := R\<rparr>)"
proof -
  have "\<forall>j. ev \<noteq> Open j"
    using assms(5) by auto
  note quiet = rt_step_quiet [OF assms(4,3) this]
  obtain ms where ms: "srv_sock (sys_srv R) = srv_sock (nt_srv N) @ ms" "\<forall>m \<in> set ms. \<exists>p b. m = ack_message p b"
    using quiet(1) by blast
  show ?thesis
  proof (rule req_inv_same [OF assms(1)])
    show "suffix (pending i (N\<lparr>nt_rt := R\<rparr>) p) (pending i N p)" for p
      using pending_acks [OF assms(2) _ ms(2), of "N\<lparr>nt_rt := R\<rparr>" N] by (simp add: ms(1))
    show "waits i (N\<lparr>nt_rt := R\<rparr>) \<Longrightarrow> waits i N"
      using quiet(2) by (auto simp: waits_def)
  qed (simp_all add: todo_def flying_def fun_eq_iff assms(5))
qed

text \<open>A dispatched request: one message more, addressed to one pipe.\<close>

lemma pending_dispatch:
  assumes "srv_sock (nt_srv N') = srv_sock (nt_srv N) @ [dispatch_message env rq node]" "nt_down N' = nt_down N"
    and "request_id (h_uuid env)"
  shows "i \<noteq> h_uuid env \<or> p \<noteq> ne_pipe node \<Longrightarrow> pending i N' p = pending i N p"
    and "pending (h_uuid env) N p = [] \<Longrightarrow> suffix (pending (h_uuid env) N' p) [rq_body rq]"
proof -
  have ne: "PutUint32 q = PutUint32 p \<Longrightarrow> q = p" for q p
    by (metis Uint32_PutUint32)
  have len: "length (h_uuid env) \<le> 255"
    using assms(3) by (simp add: request_id_def)
  then show "i \<noteq> h_uuid env \<or> p \<noteq> ne_pipe node \<Longrightarrow> pending i N' p = pending i N p"
    by (auto simp: pending_def rt_out_def assms(1,2) dispatch_message_def drop_Cons' dest: ne)
  show "pending (h_uuid env) N p = [] \<Longrightarrow> suffix (pending (h_uuid env) N' p) [rq_body rq]"
    using len by (auto simp: pending_def rt_out_def assms(1,2) dispatch_message_def drop_Cons')
qed

lemma req_inv_opens:
  assumes inv: "req_inv i evs N" and fresh: "i = j \<Longrightarrow> filter (about i) evs = []"
    and rt: "rt_inv (rt_trace evs) (nt_rt N)" and id: "request_id j"
    and chat: "handleChatCompletions env rq (nt_srv N) = (Opened j ac, sys_srv R)"
  shows "req_inv i (evs @ [Opens j (rq_body rq)]) (N\<lparr>nt_rt := R, nt_ids := j # nt_ids N\<rparr>)"
proof -
  let ?N = "N\<lparr>nt_rt := R, nt_ids := j # nt_ids N\<rparr>"
  obtain ak node where j: "j = h_uuid env" and R: "sys_srv R = (nt_srv N)\<lparr>srv_sessions := AList.update (h_uuid env) (make_chan 256) (srv_sessions (nt_srv N)),
       srv_sock := srv_sock (nt_srv N) @ [dispatch_message env rq node]\<rparr>"
    using chat_opened_inv [OF rt_inv_nodes [OF rt] chat] by metis
  have same: "todo k ?N = todo k N" "flying k ?N = flying k N" "idle k ?N = idle k N" for k
    by (simp_all add: fun_eq_iff todo_def flying_def idle_def)
  note pend = pending_dispatch [of ?N N env rq node, OF _ _ id [unfolded j]]
  show ?thesis
  proof (cases "i = j")
    case True
    from inv show ?thesis
    proof cases
      case unopened
      show ?thesis
        by (rule req_inv.dispatched [where body = "rq_body rq" and at = "ne_pipe node"])
          (use unopened pend same in \<open>simp_all add: True R j\<close>)
    qed (use fresh True in simp_all)
  next
    case False
    show ?thesis
      by (rule req_inv_same [OF inv])
        (use False pend(1) [of i] same [unfolded j] in \<open>auto simp: R j waits_def\<close>)
  qed
qed

text \<open>A message of a worker left its log: what it carried is queued, or lost.\<close>

lemma flying_next:
  assumes "nt_up N w < length (wk_out N w)"
  shows "flying i N w = frames_for i [wk_out N w ! nt_up N w] @ frames_for i (drop (Suc (nt_up N w)) (wk_out N w))"
  unfolding flying_def Cons_nth_drop_Suc [OF assms, symmetric] by (rule frames_for_Cons)

lemma req_inv_taken:
  assumes inv: "req_inv i evs N" and ev: "\<not> about i ev" and up: "nt_up N w < length (wk_out N w)"
    and N': "nt_wk N' = nt_wk N" "nt_up N' = (nt_up N)(w := Suc (nt_up N w))" "\<And>p. pending i N' p = pending i N p"
    and q: "queued_since i (rt_trace (evs @ [ev])) = queued_since i (rt_trace evs) @ ys" "waits i N' \<Longrightarrow> waits i N"
    and ys: "ys = frames_for i [wk_out N w ! nt_up N w] \<or> ys = [] \<and> (disturbs i ev \<or> \<not> waits i N')"
  shows "req_inv i (evs @ [ev]) N'"
proof -
  let ?fr = "frames_for i [wk_out N w ! nt_up N w]" and ?rest = "frames_for i (drop (Suc (nt_up N w)) (wk_out N w))"
  have todo: "todo i N' = todo i N"
    by (simp add: fun_eq_iff todo_def N'(1))
  have flying: "flying i N' v = (if v = w then ?rest else flying i N v)" for v
    by (simp add: flying_def N')
  note ahead = flying_next [OF up, of i]
  have sub: "subseq ys ?fr"
    using ys by auto
  have line: "subseq (line i (evs @ [ev]) N' v) (line i evs N v) \<and> (ys = ?fr \<longrightarrow> line i (evs @ [ev]) N' v = line i evs N v)"
    if "sole i N v" for v
  proof (cases "v = w")
    case True
    then show ?thesis
      using sub by (simp add: line_def q(1) flying todo ahead list_emb_append_mono del: map_append concat_append)
  next
    case False
    then have "?fr = []" "ys = []"
      using that ahead sub by (auto simp: sole_def idle_def)
    then show ?thesis
      using False by (simp add: line_def q(1) flying todo del: map_append concat_append)
  qed
  show ?thesis
  proof (rule req_inv_keep [OF inv ev])
    show "idle i N v \<Longrightarrow> idle i N' v" for v
      using ahead by (auto simp: idle_def todo flying)
  qed (use line ys q(2) in \<open>auto simp: N'(3) todo simp del: map_append concat_append\<close>)
qed

lemma req_inv_up:
  assumes inv: "req_inv i evs N" "request_id i" "logs_ok N" and mesh: "framing_ok deliver"
    and up: "nt_up N w < length (wk_out N w)" and msg: "msg = deliver (nt_pipe N w) (wk_out N w ! nt_up N w)"
  shows "req_inv i (evs @ [RouterDid (mesh_event msg (nt_srv N))])
    (N\<lparr>nt_rt := (nt_rt N)\<lparr>sys_srv := handleMeshMessage env msg (nt_srv N)\<rparr>, nt_up := (nt_up N)(w := Suc (nt_up N w))\<rparr>)"
    (is "req_inv i (evs @ [RouterDid ?ev]) ?N")
proof -
  let ?m = "wk_out N w ! nt_up N w"
  have waits: "waits i ?N = waits i N"
    by (simp add: waits_def mesh_sessions_dom)
  obtain ms where ms: "srv_sock (handleMeshMessage env msg (nt_srv N)) = srv_sock (nt_srv N) @ ms" "\<forall>m \<in> set ms. \<exists>p b. m = ack_message p b"
    using handleMeshMessage_log by blast
  have pend: "pending i ?N p = pending i N p" for p
    using pending_acks [OF inv(2) _ ms(2), of ?N N] by (simp add: ms(1))
  note taken = req_inv_taken [OF inv(1) _ up, of "RouterDid ?ev" ?N]
  have "worker_message ?m"
    using inv(3) nth_mem [OF up] unfolding logs_ok_def by blast
  then consider b where "?m = heartbeat_message b"
    | j f where "?m = frame_message j f" "frame_valid f" "request_id j"
    by (auto simp: worker_message_def)
  then show ?thesis
  proof cases
    case 1
    then show ?thesis
      using taken [of "[]"] pend waits inv(2) by (simp add: msg mesh_event_heartbeat [OF mesh])
  next
    case 2
    note ev = mesh_event_frame [OF mesh 2(2,3), of "nt_pipe N w" "nt_srv N"]
    note fr = frames_for_frame [OF 2(2,3), of i]
    show ?thesis
    proof (cases "map_of (srv_sessions (nt_srv N)) j")
      case None
      then have "i = j \<Longrightarrow> \<not> waits i N"
        by (auto simp: waits_def)
      then show ?thesis
        using taken [of "[]"] pend waits None by (auto simp: msg 2(1) ev fr)
    next
      case (Some ch)
      then show ?thesis
        using taken [of "if i = j \<and> snd (chan_try_send f ch) then [f] else []"] pend waits by (auto simp: msg 2(1) ev fr)
    qed
  qed
qed

lemma req_inv_lost_up:
  assumes "req_inv i evs N" "nt_up N w < length (wk_out N w)"
  shows "req_inv i (evs @ [MeshLost]) (N\<lparr>nt_up := (nt_up N)(w := Suc (nt_up N w))\<rparr>)"
  by (rule req_inv_taken [OF assms(1) _ assms(2), of _ _ "[]"]) (simp_all add: pending_def rt_out_def waits_def)

text \<open>A message of the router left for a worker.\<close>

lemma pending_next:
  assumes "nt_down N p < length (rt_out N p)"
  shows "pending i N p = bodies_for i [rt_out N p ! nt_down N p] @ bodies_for i (drop (Suc (nt_down N p)) (rt_out N p))"
  unfolding pending_def Cons_nth_drop_Suc [OF assms, symmetric] by (rule bodies_for_Cons)

lemma next_message:
  assumes "logs_ok N" "nt_down N p < length (rt_out N p)" "routing_ok to_worker"
    and "Run_dispatch (to_worker (rt_out N p ! nt_down N p)) = Some (bt, e)" "env_ReqID e \<noteq> HeartbeatAckReqID"
  shows "bt = backtraceToken" "request_id (env_ReqID e)" "env_ReqID e \<in> set (nt_ids N)"
    "bodies_for i [rt_out N p ! nt_down N p] = (if env_ReqID e = i then [env_Payload e] else [])"
proof -
  have "router_message (nt_ids N) (rt_out N p ! nt_down N p)"
    using assms(1) nth_mem [OF assms(2)] unfolding logs_ok_def rt_out_def by auto
  moreover have "rt_out N p ! nt_down N p \<noteq> ack_message q b" for q b
    using assms(4,5) ack_reaches_worker [OF assms(3), of q b] by auto
  ultimately obtain q e' where m: "rt_out N p ! nt_down N p = \<lparr>msg_Header = PutUint32 q @ backtraceToken, msg_Body = Envelope_Encode e'\<rparr>"
    and e': "request_id (env_ReqID e')" "env_ReqID e' \<in> set (nt_ids N)"
    unfolding router_message_def by blast
  have "Run_dispatch (to_worker (rt_out N p ! nt_down N p)) = Some (backtraceToken, e')"
    using e'(1) by (intro worker_receives [OF assms(3), where pipe = q]) (simp_all add: m request_id_def)
  then have [simp]: "bt = backtraceToken" "e' = e"
    using assms(4) by simp_all
  show "bt = backtraceToken" "request_id (env_ReqID e)" "env_ReqID e \<in> set (nt_ids N)"
    "bodies_for i [rt_out N p ! nt_down N p] = (if env_ReqID e = i then [env_Payload e] else [])"
    using e' by (simp_all add: m request_id_def)
qed

lemma req_inv_starts:
  assumes inv: "req_inv i evs N" and down: "nt_down N p < length (rt_out N p)"
    and body: "\<And>k. bodies_for k [rt_out N p ! nt_down N p] = (if j = k then [body] else [])"
    and jobs: "wk_jobs W = wk_jobs (nt_wk N w) @ [jb]" "jb_reqID jb = j" "jb_todo jb = fst (job_frames (Proxy answer))"
    and sock: "dm_sock (wk_daemon W) = wk_out N w"
  shows "req_inv i (evs @ [Starts w j body answer])
    (N\<lparr>nt_wk := (nt_wk N)(w := W), nt_down := (nt_down N)(p := Suc (nt_down N p))\<rparr>)" (is "req_inv i (evs @ [?ev]) ?N")
proof -
  have same: "flying k ?N = flying k N" "waits k ?N = waits k N" "rt_out ?N = rt_out N" for k
    by (simp_all add: fun_eq_iff flying_def waits_def rt_out_def sock)
  have todo: "todo k ?N v = todo k N v @ (if v = w \<and> k = j then [jb_todo jb] else [])" for k v
    by (simp add: todo_def jobs)
  note left = pending_consumed [of ?N N p i]
  show ?thesis
  proof (cases "i = j")
    case False
    show ?thesis
      by (rule req_inv_same [OF inv]) (use False left same in \<open>auto simp: fun_eq_iff todo\<close>)
  next
    case True
    have head: "pending i N p = body # bodies_for i (drop (Suc (nt_down N p)) (rt_out N p))"
      using pending_next [OF down, of i] body True by simp
    from inv show ?thesis
    proof cases
      case (dispatched b at)
      have at: "p = at"
        using dispatched(2) head by force
      then have b: "body = b" "bodies_for i (drop (Suc (nt_down N p)) (rt_out N p)) = []"
        using dispatched(3) head by (auto simp: suffix_Cons)
      have "\<forall>q. pending i ?N q = []"
        using dispatched(2) at b(2) by (simp add: pending_def same(3)) (simp add: pending_def rt_out_def)
      moreover have "sole i ?N w" "line i (evs @ [?ev]) ?N w = fst (job_frames (Proxy answer))"
        using dispatched(4,5) by (simp_all add: sole_def line_def idle_def todo same jobs(3) True)
      ultimately show ?thesis
        using dispatched(1) by (intro req_inv.running [where body = body and w = w and answer = answer]) (simp_all add: b True)
    qed (use head in \<open>auto simp: suffix_def\<close>)
  qed
qed

section \<open>Steps of a worker\<close>

lemma sendHeartbeat_log:
  "\<exists>ms. dm_sock (sendHeartbeat fmt fault d) = dm_sock d @ ms \<and> (\<forall>m \<in> set ms. \<exists>b. m = heartbeat_message b)"
  by (cases "marshal_Heartbeat fmt (heartbeat_of d)"; cases fault)
    (auto simp: sendHeartbeat_def Worker_Send_def SendMsg_def heartbeat_message_def)

lemma frames_for_heartbeats:
  "request_id i \<Longrightarrow> \<forall>m \<in> set ms. \<exists>b. m = heartbeat_message b \<Longrightarrow> frames_for i ms = []"
proof (induction ms)
  case (Cons m ms)
  then show ?case
    using frames_for_Cons [of i m ms] by auto
qed simp

text \<open>What a worker does on its own: send heartbeats at most, send a frame of a job, or end a job.\<close>

lemma worker_own_cases:
  assumes "wk_step S ev S'" "worker_own ev"
  obtains (quiet) ms where "wk_jobs S' = wk_jobs S" "dm_sock (wk_daemon S') = dm_sock (wk_daemon S) @ ms"
      "\<forall>m \<in> set ms. \<exists>b. m = heartbeat_message b" "\<forall>i f. ev \<noteq> JobSent i f"
    | (frame) pre j post f fs fault where "wk_jobs S = pre @ j # post" "jb_todo j = f # fs" "ev = JobSent (jb_reqID j) f"
      "wk_jobs S' = pre @ j\<lparr>jb_todo := fs\<rparr> # post"
      "dm_sock (wk_daemon S') = sendFrame fault (jb_backtrace j) (jb_reqID j) f (dm_sock (wk_daemon S))"
    | (return) pre j post where "wk_jobs S = pre @ j # post" "jb_todo j = []" "\<forall>i f. ev \<noteq> JobSent i f"
      "wk_jobs S' = pre @ post" "dm_sock (wk_daemon S') = dm_sock (wk_daemon S)"
  using assms
proof cases
  case (ack msg bt env now d' log)
  then have "d' = wk_daemon S"
    using assms(2) by (auto simp: handleAck_def split: option.splits)
  then show ?thesis
    using ack assms(2) that(1) [of "[]"] by (auto split: option.splits)
next
  case (tick now)
  have "dm_sock (checkDegraded now (wk_daemon S)) = dm_sock (wk_daemon S)"
    by (simp add: checkDegraded_def split: option.split)
  then show ?thesis
    using tick that(1) [of "[]"] by simp
next
  case (beat st d fmt fault)
  then show ?thesis
    using sendHeartbeat_log [of fmt fault d] that(1) by auto
qed (use assms(2) that in auto)

lemma sendFrame_log:
  "sendFrame fault backtraceToken i f s = s \<or> sendFrame fault backtraceToken i f s = s @ [frame_message i f]"
  by (cases fault) (simp_all add: sendFrame_def SendReply_def SendMsg_def frame_message_def)

lemma req_inv_sends:
  assumes inv: "req_inv i evs N" and id: "request_id i" and ok: "logs_ok N"
    and jobs: "wk_jobs (nt_wk N w) = pre @ j # post" "jb_todo j = f # fs" "wk_jobs W = pre @ j\<lparr>jb_todo := fs\<rparr> # post"
    and sock: "dm_sock (wk_daemon W) = sendFrame fault (jb_backtrace j) (jb_reqID j) f (wk_out N w)"
  shows "req_inv i (evs @ [WorkerDid w (JobSent (jb_reqID j) f) (dm_sock (wk_daemon W) \<noteq> wk_out N w)]) (N\<lparr>nt_wk := (nt_wk N)(w := W)\<rparr>)"
    (is "req_inv i (evs @ [?ev]) ?N")
proof -
  have j: "jb_backtrace j = backtraceToken" "request_id (jb_reqID j)" "frame_valid f" and up: "nt_up N w \<le> length (wk_out N w)"
    using ok jobs(1,2) unfolding logs_ok_def job_ok_def by (metis in_set_conv_decomp list.set_intros(1))+
  let ?sent = "dm_sock (wk_daemon W) \<noteq> wk_out N w" and ?mine = "i = jb_reqID j"
  have flying: "flying i ?N v = flying i N v @ (if v = w \<and> ?mine \<and> ?sent then [f] else [])" for v
    using up sendFrame_log [of fault "jb_reqID j" f "wk_out N w"] frames_for_frame [OF j(3,2), of i]
    by (auto simp: flying_def sock j(1))
  define A B where "A = map jb_todo (filter (\<lambda>j. jb_reqID j = i) pre)" and "B = map jb_todo (filter (\<lambda>j. jb_reqID j = i) post)"
  have todo: "todo i N w = A @ (if ?mine then [f # fs] else []) @ B" "todo i ?N w = A @ (if ?mine then [fs] else []) @ B"
    "v \<noteq> w \<Longrightarrow> todo i ?N v = todo i N v" for v
    by (simp_all add: todo_def jobs A_def B_def)
  have same: "pending i ?N = pending i N" "waits i ?N = waits i N"
    by (simp_all add: fun_eq_iff pending_def rt_out_def waits_def)
  have line: "subseq (line i (evs @ [?ev]) ?N v) (line i evs N v) \<and> (\<not> disturbs i ?ev \<longrightarrow> line i (evs @ [?ev]) ?N v = line i evs N v)"
    if "sole i N v" for v
  proof (cases "v = w \<and> ?mine")
    case True
    then have "A = []" "B = []"
      using that todo(1) by (auto simp: sole_def)
    then show ?thesis
      using True todo flying subseq_dropped [of "queued_since i (rt_trace evs) @ flying i N w" fs f] by (simp add: line_def)
  next
    case False
    then have "todo i ?N v = todo i N v" "flying i ?N v = flying i N v"
      using todo flying by (cases "v = w"; simp)+
    then show ?thesis by (simp add: line_def)
  qed
  show ?thesis
  proof (rule req_inv_keep [OF inv])
    show "idle i N v \<Longrightarrow> idle i ?N v" "length (todo i ?N v) \<le> length (todo i N v)" for v
      using todo flying [of v] by (cases "v = w"; auto simp: idle_def split: if_splits)+
  qed (use line same in auto)
qed

lemma req_inv_worker:
  assumes inv: "req_inv i evs N" "request_id i" "logs_ok N" and step: "wk_step (nt_wk N w) ev W" "worker_own ev"
  shows "req_inv i (evs @ [WorkerDid w ev (dm_sock (wk_daemon W) \<noteq> wk_out N w)]) (N\<lparr>nt_wk := (nt_wk N)(w := W)\<rparr>)"
    (is "req_inv i (evs @ [?ev]) ?N")
  using step
proof (cases rule: worker_own_cases)
  case (frame pre j post f fs fault)
  show ?thesis
    unfolding frame(3) by (rule req_inv_sends [OF inv frame(1,2,4,5)])
next
  case (quiet ms)
  have "frames_for i (drop n ms) = []" for n
    using frames_for_heartbeats [OF inv(2)] quiet(3) by (meson in_set_dropD)
  then show ?thesis
    by (intro req_inv_same [OF inv(1)])
      (auto simp: fun_eq_iff todo_def flying_def pending_def rt_out_def waits_def quiet)
next
  case (return pre j post)
  have todo: "length (todo i ?N v) \<le> length (todo i N v)" "concat (todo i ?N v) = concat (todo i N v)" for v
    by (simp_all add: todo_def return)
  have none: "todo i N v = [] \<Longrightarrow> todo i ?N v = []" for v
    using todo(1) [of v] by simp
  have same: "flying i ?N = flying i N" "pending i ?N = pending i N" "waits i ?N = waits i N"
    by (simp_all add: fun_eq_iff flying_def pending_def rt_out_def waits_def return)
  have "disturbs i ?ev \<longleftrightarrow> False"
    using return(3) by (cases ev) simp_all
  then show ?thesis
    by (intro req_inv_keep [OF inv(1)]) (use todo none same in \<open>auto simp: idle_def line_def\<close>)
qed

section \<open>Every run of the network\<close>

lemma router_message_mono: "router_message ids m \<Longrightarrow> set ids \<subseteq> set ids' \<Longrightarrow> router_message ids' m"
  unfolding router_message_def by blast

lemma logs_ok_acks:
  assumes "logs_ok N" "srv_sock (nt_srv N') = srv_sock (nt_srv N) @ ms" "\<forall>m \<in> set ms. \<exists>p b. m = ack_message p b"
    and "nt_ids N' = nt_ids N" "nt_wk N' = nt_wk N" "\<And>w. nt_up N' w \<le> length (wk_out N w)"
  shows "logs_ok N'"
  using assms unfolding logs_ok_def by (auto simp: router_message_def)

lemma logs_ok_worker:
  assumes ok: "logs_ok N" and step: "wk_step (nt_wk N w) ev W" "worker_own ev"
  shows "logs_ok (N\<lparr>nt_wk := (nt_wk N)(w := W)\<rparr>)"
proof -
  have old: "nt_up N w \<le> length (wk_out N w)" "\<forall>m \<in> set (wk_out N w). worker_message m" "\<forall>j \<in> set (wk_jobs (nt_wk N w)). job_ok j"
    using ok by (simp_all add: logs_ok_def)
  from step have "nt_up N w \<le> length (dm_sock (wk_daemon W)) \<and> (\<forall>m \<in> set (dm_sock (wk_daemon W)). worker_message m) \<and>
      (\<forall>j \<in> set (wk_jobs W). job_ok j)"
  proof (cases rule: worker_own_cases)
    case (quiet ms)
    then show ?thesis
      using old by (auto simp: worker_message_def)
  next
    case (frame pre j post f fs fault)
    have "job_ok j"
      using old(3) frame(1) by simp
    then show ?thesis
      using old frame sendFrame_log [of fault "jb_reqID j" f "wk_out N w"] by (auto simp: job_ok_def worker_message_def)
  next
    case (return pre j post)
    then show ?thesis
      using old by auto
  qed
  then show ?thesis
    using ok by (simp add: logs_ok_def)
qed

lemma logs_ok_opens:
  assumes "logs_ok N" "rt_inv (rt_trace evs) (nt_rt N)" "request_id j"
    and "handleChatCompletions env rq (nt_srv N) = (Opened j ac, sys_srv R)"
  shows "logs_ok (N\<lparr>nt_rt := R, nt_ids := j # nt_ids N\<rparr>)"
proof -
  from chat_opened_inv [OF rt_inv_nodes [OF assms(2)] assms(4)]
  obtain node where j: "j = h_uuid env" and R: "srv_sock (sys_srv R) = srv_sock (nt_srv N) @ [dispatch_message env rq node]"
    by (metis Server.select_convs(3) Server.surjective Server.update_convs(3))
  have "router_message (j # nt_ids N) (dispatch_message env rq node)"
    using assms(3) unfolding router_message_def dispatch_message_def j by force
  then show ?thesis
    using assms(1) by (auto simp: logs_ok_def R intro: router_message_mono)
qed

lemma logs_ok_step:
  assumes step: "net_step deliver to_worker N ev N'" and inv: "logs_ok N" "rt_inv (rt_trace evs) (nt_rt N)" and mesh: "routing_ok to_worker"
  shows "logs_ok N'"
  using step
proof cases
  case (router ev R)
  have "\<forall>i. ev \<noteq> Open i"
    using router by auto
  then show ?thesis
    using rt_step_quiet(1) [OF _ inv(2), of ev R] router logs_ok_acks [OF inv(1), of N'] inv(1) by (auto simp: logs_ok_def)
next
  case (opens i R env rq ac)
  then show ?thesis
    using logs_ok_opens [OF inv] by simp
next
  case (up w msg env)
  then show ?thesis
    using handleMeshMessage_log [of env msg "nt_srv N"] logs_ok_acks [OF inv(1), of N'] inv(1) by (auto simp: logs_ok_def)
next
  case (starts w p bt e answer fs fin W)
  note msg = next_message [OF inv(1) starts(4) mesh starts(5,6)]
  then show ?thesis
    using starts inv(1) by (auto simp: logs_ok_def job_ok_def)
next
  case (acked w p bt e now d' log ev)
  have "dm_sock d' = wk_out N w"
    using acked by (auto simp: handleAck_def Let_def split: option.splits if_splits)
  then show ?thesis
    using acked inv(1) by (simp add: logs_ok_def)
next
  case (worker w ev W)
  then show ?thesis
    using logs_ok_worker [OF inv(1)] by simp
qed (use inv(1) in \<open>auto simp: logs_ok_def\<close>)

lemma req_inv_step:
  assumes step: "net_step deliver to_worker N ev N'" and inv: "net_inv evs N" and id: "request_id i"
    and mesh: "framing_ok deliver" "routing_ok to_worker"
  shows "req_inv i (evs @ [ev]) N'"
proof -
  have inv': "rt_inv (rt_trace evs) (nt_rt N)" "logs_ok N" "i \<in> set (nt_ids N) \<longleftrightarrow> filter (about i) evs \<noteq> []" and i: "req_inv i evs N"
    using inv id by (simp_all add: net_inv_def)
  from step show ?thesis
  proof cases
    case (router ev R)
    then show ?thesis
      using req_inv_router [OF i id inv'(1)] by simp
  next
    case (opens j R env rq ac)
    then show ?thesis
      using req_inv_opens [OF i _ inv'(1), of j env rq ac R] inv'(3) by auto
  next
    case (up w msg env)
    then show ?thesis
      using req_inv_up [OF i id inv'(2) mesh(1) up(3,4)] by simp
  next
    case (lost_up w)
    then show ?thesis
      using req_inv_lost_up [OF i] by simp
  next
    case (starts w p bt e answer fs fin W)
    show ?thesis
      unfolding starts(1,2)
      by (rule req_inv_starts [where jb = "\<lparr>jb_backtrace = bt, jb_reqID = env_ReqID e, jb_todo = fs, jb_returns = fin\<rparr>",
            OF i starts(4) next_message(4) [OF inv'(2) starts(4) mesh(2) starts(5,6)]]) (simp_all add: starts)
  next
    case (acked w p bt e now d' log ev)
    have "dm_sock d' = wk_out N w"
      using acked by (auto simp: handleAck_def Let_def split: option.splits if_splits)
    then show ?thesis
      unfolding acked(1,2)
      by (intro req_inv_same [OF i] pending_consumed [where p = p])
        (auto simp: fun_eq_iff todo_def flying_def waits_def rt_out_def)
  next
    case (lost_down p)
    then show ?thesis
      by (intro req_inv_same [OF i] pending_consumed [where p = p])
        (auto simp: fun_eq_iff todo_def flying_def waits_def rt_out_def)
  next
    case (worker w ev W)
    then show ?thesis
      using req_inv_worker [OF i id inv'(2)] by simp
  next
    case (reconnected w p)
    then show ?thesis
      by (intro req_inv_same [OF i]) (auto simp: fun_eq_iff todo_def flying_def waits_def pending_def rt_out_def)
  qed
qed

lemma ids_step:
  assumes step: "net_step deliver to_worker N ev N'" and inv: "rt_inv (rt_trace evs) (nt_rt N)"
    and ids: "\<forall>i \<in> set (nt_ids N). request_id i" "\<forall>i. waits i N \<longrightarrow> i \<in> set (nt_ids N)"
  shows "\<forall>i \<in> set (nt_ids N'). request_id i" "\<forall>i. waits i N' \<longrightarrow> i \<in> set (nt_ids N')"
proof -
  show "\<forall>i \<in> set (nt_ids N'). request_id i"
    using step ids(1) by cases auto
  from step show "\<forall>i. waits i N' \<longrightarrow> i \<in> set (nt_ids N')"
  proof cases
    case (router ev R)
    have "\<forall>j. ev \<noteq> Open j"
      using router(4) by auto
    then show ?thesis
      using rt_step_quiet(2) [OF router(3) inv] ids(2) router(2) by (auto simp: waits_def)
  next
    case (opens j R env rq ac)
    obtain ak node where "sys_srv R = (nt_srv N)\<lparr>srv_sessions := AList.update (h_uuid env) (make_chan 256) (srv_sessions (nt_srv N)),
        srv_sock := srv_sock (nt_srv N) @ [dispatch_message env rq node]\<rparr>" "j = h_uuid env"
      using chat_opened_inv [OF rt_inv_nodes [OF inv] opens(4)] by metis
    then show ?thesis
      using ids(2) opens(2) by (auto simp: waits_def split: if_splits)
  next
    case (up w msg env)
    then show ?thesis
      using ids(2) by (simp add: waits_def mesh_sessions_dom)
  qed (use ids(2) in \<open>simp_all add: waits_def\<close>)
qed

lemma net_inv_step:
  assumes step: "net_step deliver to_worker N ev N'" and inv: "net_inv evs N" and mesh: "framing_ok deliver" "routing_ok to_worker"
  shows "net_inv (evs @ [ev]) N'"
proof -
  have inv': "rt_inv (rt_trace evs) (nt_rt N)" "logs_ok N" "\<And>i. i \<in> set (nt_ids N) \<longleftrightarrow> filter (about i) evs \<noteq> []"
    using inv by (simp_all add: net_inv_def)
  have "rt_inv (rt_trace (evs @ [ev])) (nt_rt N')"
    using step inv'(1) by cases (auto intro: rt_inv_step rt_step.mesh)
  moreover have "i \<in> set (nt_ids N') \<longleftrightarrow> filter (about i) (evs @ [ev]) \<noteq> []" for i
    using step inv'(3) [of i] by cases (use next_message(3) [OF inv'(2) _ mesh(2)] in auto)
  ultimately show ?thesis
    using logs_ok_step [OF step inv'(2,1) mesh(2)] req_inv_step [OF step inv _ mesh] ids_step [OF step inv'(1)] inv
    unfolding net_inv_def by blast
qed

lemma net_inv_run:
  "net_run deliver to_worker N0 evs N \<Longrightarrow> net_inv [] N0 \<Longrightarrow> framing_ok deliver \<Longrightarrow> routing_ok to_worker \<Longrightarrow> net_inv evs N"
  by (induction rule: net_run.induct) (auto intro: net_inv_step)

lemma net_inv_init:
  assumes "\<forall>w. dm_sock (ds w) = []"
  shows "net_inv [] (net_init (rt_init stale d has_db audit) fmt faults ds pipes)" (is "net_inv [] ?N")
proof -
  have sock: "\<forall>m \<in> set (wk_out ?N w). \<exists>b. m = heartbeat_message b" for w
    using sendHeartbeat_log [of fmt "faults w" "ds w"] assms by (auto simp: net_init_def wk_start_def)
  have [simp]: "wk_jobs (nt_wk ?N w) = []" "nt_up ?N w = 0" "srv_sock (nt_srv ?N) = []" "nt_ids ?N = []" for w
    by (simp_all add: net_init_def wk_start_def rt_init_def New_def)
  have "logs_ok ?N"
    using sock by (auto simp: logs_ok_def worker_message_def)
  moreover have "req_inv i [] ?N" if "request_id i" for i
    using frames_for_heartbeats [OF that sock]
    by (intro req_inv.unopened) (auto simp: pending_def rt_out_def idle_def todo_def flying_def queued_since_def)
  moreover have "rt_inv [] (nt_rt ?N)"
    by (simp add: net_init_def rt_inv_init)
  moreover have "\<not> waits i ?N" for i
    by (simp add: waits_def net_init_def rt_init_def New_def)
  ultimately show ?thesis
    by (simp add: net_inv_def)
qed

section \<open>The end of a completion\<close>

lemma handler_ends_terminal:
  assumes "handler_status h = None" "handler_status (h\<lparr>hd_seen := hd_seen h @ [f]\<rparr>) = Some st"
    and "ac_streamed (hd_ac h) \<longrightarrow> (\<forall>j. hd_flush_ok h j)"
  shows "terminal f"
proof (rule ccontr)
  assume "\<not> terminal f"
  with assms(1) have open': "\<forall>g \<in> set (hd_seen h @ [f]). \<not> terminal g"
    using handler_waiting_open by auto
  then have "handler_status (h\<lparr>hd_seen := hd_seen h @ [f]\<rparr>) = None"
    using assms(3) buffered_waiting_iff stream_loop_open [OF open', of "hd_flush_ok h" "hd_isPrint h" 0 "[]" "[]"]
    by (auto simp: handler_status_def loop_status_def)
  with assms(2) show False by simp
qed

lemma handler_reply_whole:
  assumes "fs = map chunk_frame cs @ [outcome_frame failure]" "ac_streamed (hd_ac h) \<longrightarrow> (\<forall>j. hd_flush_ok h j)"
  shows "handler_reply (h\<lparr>hd_seen := fs\<rparr>) = Some (client_response (hd_ac h) (hd_isPrint h) (concat cs) failure)"
proof -
  have "handler_reply (h\<lparr>hd_seen := fs\<rparr>) =
      handler_reply \<lparr>hd_ac = hd_ac h, hd_flush_ok = if ac_streamed (hd_ac h) then hd_flush_ok h else (\<lambda>_. True),
        hd_isPrint = hd_isPrint h, hd_seen = fs\<rparr>"
    by (simp add: handler_reply_def)
  also have "\<dots> = Some (client_response (hd_ac h) (hd_isPrint h) (concat cs) failure)"
    unfolding assms(1) by (rule handler_reply_outcome) (use assms(2) in simp)
  finally show ?thesis .
qed

lemma read_loop_open: "body_outcome reads = None \<Longrightarrow> \<forall>f \<in> set (fst (read_loop reads)). \<not> terminal f"
  by (induction reads rule: body_outcome.induct) (auto simp: terminal_def split: prod.splits)

text \<open>A job sends one terminal frame at most, as its last, and only when its engine's answer has ended.\<close>

lemma job_frames_terminal:
  assumes "fst (job_frames a) = pre @ f # post" "terminal f"
  obtains cs content failure where "engine_outcome a = Some (content, failure)" "concat cs = content"
    "pre @ [f] = map chunk_frame cs @ [outcome_frame failure]"
proof (cases "engine_outcome a")
  case None
  then have "\<forall>g \<in> set (fst (job_frames a)). \<not> terminal g"
    using read_loop_open by (cases a) (auto simp: job_frames_def)
  then show ?thesis
    using assms by simp
next
  case (Some r)
  obtain content failure where r: "r = (content, failure)" by (cases r)
  obtain cs where cs: "fst (job_frames a) = map chunk_frame cs @ [outcome_frame failure]" "concat cs = content"
    using job_frames_outcome [of a content failure] Some r by auto
  have "f \<notin> set (map chunk_frame cs)"
    using assms(2) by (auto simp: terminal_def)
  moreover have "map chunk_frame cs = pre @ f # butlast post" if "post \<noteq> []"
    using assms(1) cs(1) that by (cases post rule: rev_cases) simp_all
  ultimately have "post = []"
    by (metis in_set_conv_decomp)
  then show ?thesis
    using assms(1) cs Some r by (intro that [of content failure cs]) simp_all
qed

lemma net_step_ended:
  assumes "net_step deliver to_worker N (RouterDid (Ended i rsp)) N'"
  obtains R where "rt_step (nt_rt N) (Ended i rsp) R"
  using assms
proof cases
  case (up w msg env)
  then show ?thesis
    using mesh_event_cases [of msg "nt_srv N"] by auto
qed

lemma ended_whole:
  assumes "handler_status h = None" "handler_status (h\<lparr>hd_seen := hd_seen h @ [f]\<rparr>) = Some st"
    and "handler_reply (h\<lparr>hd_seen := hd_seen h @ [f]\<rparr>) = Some rsp" "ac_streamed (hd_ac h) \<longrightarrow> (\<forall>j. hd_flush_ok h j)"
    and "fst (job_frames a) = hd_seen h @ f # late"
  shows "\<exists>content failure. engine_outcome a = Some (content, failure) \<and>
    rsp = client_response (hd_ac h) (hd_isPrint h) content failure"
proof -
  obtain cs content failure where out: "engine_outcome a = Some (content, failure)" "concat cs = content"
      "hd_seen h @ [f] = map chunk_frame cs @ [outcome_frame failure]"
    using assms(5) handler_ends_terminal [OF assms(1,2,4)] by (rule job_frames_terminal)
  then show ?thesis
    using assms(3) handler_reply_whole [OF out(3) assms(4)] by auto
qed

lemma net_ended_inv:
  assumes inv: "net_inv evs N" and ended: "net_step deliver to_worker N (RouterDid (Ended i rsp)) N'"
    and h: "map_of (sys_handlers (nt_rt N)) i = Some h" "ac_streamed (hd_ac h) \<longrightarrow> (\<forall>j. hd_flush_ok h j)"
  shows "\<exists>body w answer fs. filter (about i) evs = [Opens i body, Starts w i body answer] \<and>
    subseq fs (fst (job_frames (Proxy answer))) \<and> handler_reply (h\<lparr>hd_seen := fs\<rparr>) = Some rsp \<and>
    ((\<forall>ev \<in> set evs. \<not> disturbs i ev) \<longrightarrow>
      (\<exists>content failure. engine_outcome (Proxy answer) = Some (content, failure) \<and>
         rsp = client_response (hd_ac h) (hd_isPrint h) content failure))"
proof -
  have rt: "rt_inv (rt_trace evs) (nt_rt N)"
    using inv by (simp add: net_inv_def)
  obtain R where step: "rt_step (nt_rt N) (Ended i rsp) R"
    using net_step_ended [OF ended] .
  obtain f rest st where q: "queued_since i (rt_trace evs) = hd_seen h @ f # rest"
    and st: "handler_status h = None" "handler_status (h\<lparr>hd_seen := hd_seen h @ [f]\<rparr>) = Some st"
      "handler_reply (h\<lparr>hd_seen := hd_seen h @ [f]\<rparr>) = Some rsp" and open': "waits i N"
    unfolding waits_def using rt_step_ended [OF rt step h(1)] by metis
  have "req_inv i evs N"
    using inv open' unfolding net_inv_def by blast
  then show ?thesis
  proof cases
    case (running body w answer)
    have "subseq (hd_seen h @ [f]) (line i evs N w)"
      by (rule prefix_imp_subseq) (simp add: line_def q)
    then have "subseq (hd_seen h @ [f]) (fst (job_frames (Proxy answer)))"
      using running(4) by (rule subseq_order.trans)
    moreover have "fst (job_frames (Proxy answer)) = hd_seen h @ f # rest @ flying i N w @ concat (todo i N w)"
      if "\<forall>ev \<in> set evs. \<not> disturbs i ev"
      using running(5) [OF open' that] by (simp add: line_def q)
    ultimately show ?thesis
      using running(1) st(3) ended_whole [OF st h(2)] by blast
  qed (use inv open' q in \<open>auto simp: net_inv_def\<close>)
qed

section \<open>A request is never stuck\<close>

lemma net_run_append:
  "net_run deliver to_worker N1 evs2 N2 \<Longrightarrow> net_run deliver to_worker N0 evs1 N1 \<Longrightarrow> net_run deliver to_worker N0 (evs1 @ evs2) N2"
proof (induction rule: net_run.induct)
  case (snoc N1 evs N' ev N'')
  then show ?case
    using net_run.snoc [of deliver to_worker N0 "evs1 @ evs" N' ev N''] by simp
qed simp

text \<open>
  How far a request is from its end: the frames its job has still to send, the messages of that
  worker that did not leave yet, the frames in the session.
\<close>

definition distance :: "string \<Rightarrow> net_sys \<Rightarrow> nat \<Rightarrow> nat" where
  "distance i N w = 3 * length (concat (todo i N w)) + 2 * (length (wk_out N w) - nt_up N w) +
     (case map_of (srv_sessions (nt_srv N)) i of None \<Rightarrow> 0 | Some ch \<Rightarrow> length (chan_buf ch))"

text \<open>A handler that goes on as another: it has only seen more frames.\<close>

definition later :: "handler \<Rightarrow> handler \<Rightarrow> bool" where
  "later h h' \<longleftrightarrow> (\<exists>fs. h' = h\<lparr>hd_seen := fs\<rparr>)"

lemma later_refl [simp]: "later h h"
  unfolding later_def by (metis handler.surjective handler.update_convs(4))

lemma later_trans: "later h h' \<Longrightarrow> later h' h'' \<Longrightarrow> later h h''"
  unfolding later_def by auto

lemma later_simps: "later h h' \<Longrightarrow> hd_ac h' = hd_ac h \<and> hd_isPrint h' = hd_isPrint h \<and> hd_flush_ok h' = hd_flush_ok h"
  by (auto simp: later_def)

lemma mesh_session_of:
  "map_of (srv_sessions (handleMeshMessage env msg s)) i =
    (case mesh_event msg s of
       Queued j f \<Rightarrow> if i = j then Some (fst (chan_try_send f (the (map_of (srv_sessions s) i)))) else map_of (srv_sessions s) i
     | _ \<Rightarrow> map_of (srv_sessions s) i)"
  using mesh_event_cases [of msg s] by (auto simp: handleMeshMessage_sessions)

text \<open>The handler takes a frame; a message goes up; the job sends a frame.\<close>

lemma handler_moves:
  assumes h: "map_of (sys_handlers (nt_rt N)) i = Some h" and ch: "map_of (srv_sessions (nt_srv N)) i = Some ch" "chan_buf ch \<noteq> []"
  shows "(\<exists>rsp N'. net_step deliver to_worker N (RouterDid (Ended i rsp)) N') \<or>
    (\<exists>h' N'. net_step deliver to_worker N (RouterDid (Took i)) N' \<and> map_of (sys_handlers (nt_rt N')) i = Some h' \<and> later h h' \<and>
      distance i N' w < distance i N w)"
proof -
  obtain f ch' where recv: "chan_try_recv ch = Some (f, ch')" and buf: "length (chan_buf ch') < length (chan_buf ch)"
    using ch(2) by (auto simp: chan_try_recv_def neq_Nil_conv)
  let ?h = "h\<lparr>hd_seen := hd_seen h @ [f]\<rparr>"
  show ?thesis
  proof (cases "handler_status ?h")
    case None
    let ?R = "(nt_rt N)\<lparr>sys_srv := (nt_srv N)\<lparr>srv_sessions := AList.update i ch' (srv_sessions (nt_srv N))\<rparr>,
        sys_handlers := AList.update i ?h (sys_handlers (nt_rt N))\<rparr>"
    have "net_step deliver to_worker N (RouterDid (Took i)) (N\<lparr>nt_rt := ?R\<rparr>)"
      by (rule net_step.router [OF rt_step.frame [OF h ch(1) recv refl None refl]]) simp
    moreover have "distance i (N\<lparr>nt_rt := ?R\<rparr>) w < distance i N w"
      using buf ch(1) by (simp add: distance_def todo_def)
    moreover have "map_of (sys_handlers (nt_rt (N\<lparr>nt_rt := ?R\<rparr>))) i = Some ?h" "later h ?h"
      by (auto simp: later_def)
    ultimately show ?thesis by blast
  next
    case (Some st)
    then obtain rsp where "handler_reply ?h = Some rsp"
      using handler_reply_status by blast
    from net_step.router [OF rt_step.last [OF h ch(1) recv refl Some this]] show ?thesis
      by fastforce
  qed
qed

lemma message_moves:
  assumes up: "nt_up N w < length (wk_out N w)"
    and ch: "map_of (srv_sessions (nt_srv N)) i = Some ch" "chan_buf ch = []" "chan_cap ch = 256"
  shows "\<exists>ev N'. net_step deliver to_worker N ev N' \<and> \<not> about i ev \<and> \<not> disturbs i ev \<and>
    sys_handlers (nt_rt N') = sys_handlers (nt_rt N) \<and> distance i N' w < distance i N w"
proof -
  let ?m = "wk_out N w ! nt_up N w"
  let ?msg = "deliver (nt_pipe N w) ?m"
  let ?s = "handleMeshMessage sample_world ?msg (nt_srv N)"
  let ?N = "N\<lparr>nt_rt := (nt_rt N)\<lparr>sys_srv := ?s\<rparr>, nt_up := (nt_up N)(w := Suc (nt_up N w))\<rparr>"
  have step: "net_step deliver to_worker N (RouterDid (mesh_event ?msg (nt_srv N))) ?N"
    by (rule net_step.up [OF up refl]) (simp_all add: sample_world_simps)
  have kept: "\<not> disturbs i (RouterDid (mesh_event ?msg (nt_srv N)))"
    using mesh_event_cases [of ?msg "nt_srv N"] ch by auto
  have "\<exists>ch'. map_of (srv_sessions ?s) i = Some ch' \<and> length (chan_buf ch') \<le> 1"
    using ch by (auto simp: mesh_session_of chan_try_send_def split: rt_event.split)
  then have "distance i ?N w < distance i N w"
    using up ch by (auto simp: distance_def todo_def)
  then show ?thesis
    using step kept by (intro exI conjI) (assumption, simp_all)
qed

lemma job_moves:
  assumes "logs_ok N" "todo i N w = [f # fs]"
  shows "\<exists>N'. net_step deliver to_worker N (WorkerDid w (JobSent i f) True) N' \<and> nt_rt N' = nt_rt N \<and> distance i N' w < distance i N w"
proof -
  have up: "nt_up N w \<le> length (wk_out N w)" and ok: "\<forall>j \<in> set (wk_jobs (nt_wk N w)). job_ok j"
    using assms(1) by (simp_all add: logs_ok_def)
  obtain j where "filter (\<lambda>j. jb_reqID j = i) (wk_jobs (nt_wk N w)) = [j]" and todo: "jb_todo j = f # fs"
    using assms(2) by (auto simp: todo_def)
  then obtain pre post where jobs: "wk_jobs (nt_wk N w) = pre @ j # post" "\<forall>k \<in> set pre. jb_reqID k \<noteq> i" "jb_reqID j = i"
      "\<forall>k \<in> set post. jb_reqID k \<noteq> i"
    by (auto simp: filter_eq_Cons_iff filter_empty_conv eq_commute [of "[]"])
  have bt: "jb_backtrace j = backtraceToken"
    using ok jobs(1) by (simp add: job_ok_def)
  define W where "W = (nt_wk N w)\<lparr>wk_daemon := (wk_daemon (nt_wk N w))\<lparr>dm_sock := wk_out N w @ [frame_message i f]\<rparr>, wk_jobs := pre @ j\<lparr>jb_todo := fs\<rparr> # post\<rparr>"
  have "wk_step (nt_wk N w) (JobSent i f) W"
    using wk_step.frame [OF jobs(1) todo, of None] bt jobs(3)
    by (simp add: W_def sendFrame_def SendReply_def SendMsg_def frame_message_def)
  from net_step.worker [OF this, of deliver to_worker]
  have "net_step deliver to_worker N (WorkerDid w (JobSent i f) True) (N\<lparr>nt_wk := (nt_wk N)(w := W)\<rparr>)"
    by (simp add: W_def)
  moreover have "distance i (N\<lparr>nt_wk := (nt_wk N)(w := W)\<rparr>) w < distance i N w"
  proof -
    have "todo i (N\<lparr>nt_wk := (nt_wk N)(w := W)\<rparr>) w = [fs]"
      using jobs by (simp add: todo_def W_def)
    then show ?thesis
      using assms(2) up by (simp add: distance_def W_def)
  qed
  ultimately show ?thesis by (intro exI conjI) (assumption, simp_all)
qed

text \<open>As long as the handler of a taken-up request waits, one of the three is possible.\<close>

lemma waiting_unfinished:
  assumes "handler_status h = None" "engine_outcome a = Some (content, failure)"
  shows "hd_seen h \<noteq> fst (job_frames a)"
proof
  assume seen: "hd_seen h = fst (job_frames a)"
  obtain cs where "fst (job_frames a) = map chunk_frame cs @ [outcome_frame failure]"
    using job_frames_outcome [OF assms(2)] by auto
  then show False
    using handler_waiting_open [OF assms(1)] outcome_frame_terminal [of failure] by (simp add: seen)
qed

lemma net_progress:
  assumes inv: "net_inv evs N" and h: "map_of (sys_handlers (nt_rt N)) i = Some h"
    and taken: "filter (about i) evs = [Opens i body, Starts w i body answer]" "\<forall>ev \<in> set evs. \<not> disturbs i ev"
    and answer: "engine_outcome (Proxy answer) = Some (content, failure)"
  shows "(\<exists>rsp N'. net_step deliver to_worker N (RouterDid (Ended i rsp)) N') \<or>
    (\<exists>ev h' N'. net_step deliver to_worker N ev N' \<and> \<not> about i ev \<and> \<not> disturbs i ev \<and>
      map_of (sys_handlers (nt_rt N')) i = Some h' \<and> later h h' \<and> distance i N' w < distance i N w)"
proof -
  have rt: "rt_inv (rt_trace evs) (nt_rt N)" and ok: "logs_ok N"
    using inv by (simp_all add: net_inv_def)
  obtain ch where ch: "map_of (srv_sessions (nt_srv N)) i = Some ch" and st: "handler_status h = None" and cap: "chan_cap ch = 256"
    and q: "queued_since i (rt_trace evs) = hd_seen h @ chan_buf ch"
    using rt_inv_session [OF rt h] by blast
  then have "waits i N"
    by (auto simp: waits_def)
  then have "req_inv i evs N"
    using inv unfolding net_inv_def by blast
  then have sole: "sole i N w" and line: "line i evs N w = fst (job_frames (Proxy answer))"
    using taken \<open>waits i N\<close> by (cases; auto)+
  have left: "chan_buf ch @ flying i N w @ concat (todo i N w) \<noteq> []"
    using waiting_unfinished [OF st answer] line q unfolding line_def by (metis append.assoc append_Nil2)
  consider "chan_buf ch \<noteq> []" | "chan_buf ch = []" "nt_up N w < length (wk_out N w)"
    | "chan_buf ch = []" "\<not> nt_up N w < length (wk_out N w)"
    by blast
  then show ?thesis
  proof cases
    case 1
    have "\<not> about i (RouterDid (Took i)) \<and> \<not> disturbs i (RouterDid (Took i))"
      by simp
    then show ?thesis
      using handler_moves [OF h ch 1, of deliver to_worker w] by blast
  next
    case 2
    then show ?thesis
      using message_moves [OF 2(2) ch 2(1) cap, of deliver to_worker] h by (metis later_refl)
  next
    case 3
    then have "concat (todo i N w) \<noteq> []" "length (todo i N w) \<le> 1"
      using left sole by (auto simp: flying_def sole_def)
    then obtain f fs where "todo i N w = [f # fs]"
      by (cases "todo i N w"; cases "hd (todo i N w)") auto
    moreover have "\<not> about i (WorkerDid w (JobSent i f) True) \<and> \<not> disturbs i (WorkerDid w (JobSent i f) True)"
      by simp
    ultimately show ?thesis
      using job_moves [OF ok, of i w f fs deliver to_worker] h later_refl by metis
  qed
qed

lemma net_can_finish:
  assumes mesh: "framing_ok deliver" "routing_ok to_worker"
    and inv: "net_inv evs N" and h: "map_of (sys_handlers (nt_rt N)) i = Some h" "ac_streamed (hd_ac h) \<longrightarrow> (\<forall>j. hd_flush_ok h j)"
    and taken: "filter (about i) evs = [Opens i body, Starts w i body answer]" "\<forall>ev \<in> set evs. \<not> disturbs i ev"
    and answer: "engine_outcome (Proxy answer) = Some (content, failure)"
  shows "\<exists>evs' N' N'' h'. net_run deliver to_worker N evs' N' \<and> (\<forall>ev \<in> set evs'. \<not> about i ev \<and> \<not> disturbs i ev) \<and>
    map_of (sys_handlers (nt_rt N')) i = Some h' \<and> later h h' \<and> length evs' \<le> distance i N w \<and>
    net_step deliver to_worker N' (RouterDid (Ended i (client_response (hd_ac h) (hd_isPrint h) content failure))) N''"
  using inv h taken
proof (induction "distance i N w" arbitrary: N evs h rule: less_induct)
  case less
  from net_progress [OF less.prems(1,2,4,5) answer, of deliver to_worker] show ?case
  proof (elim disjE exE conjE)
    fix rsp N' assume step: "net_step deliver to_worker N (RouterDid (Ended i rsp)) N'"
    have "rsp = client_response (hd_ac h) (hd_isPrint h) content failure"
      using net_ended_inv [OF less.prems(1) step less.prems(2,3)] less.prems(4,5) answer by auto
    then show ?thesis
      using step less.prems(2) net_run.nil by fastforce
  next
    fix ev h' N'
    assume step: "net_step deliver to_worker N ev N'" and ev: "\<not> about i ev" "\<not> disturbs i ev"
      and h': "map_of (sys_handlers (nt_rt N')) i = Some h'" "later h h'" and dist: "distance i N' w < distance i N w"
    have inv: "net_inv (evs @ [ev]) N'"
      by (rule net_inv_step [OF step less.prems(1) mesh])
    have flush: "ac_streamed (hd_ac h') \<longrightarrow> (\<forall>j. hd_flush_ok h' j)" and same: "hd_ac h' = hd_ac h" "hd_isPrint h' = hd_isPrint h"
      using less.prems(3) later_simps [OF h'(2)] by simp_all
    have "filter (about i) (evs @ [ev]) = [Opens i body, Starts w i body answer]" "\<forall>x \<in> set (evs @ [ev]). \<not> disturbs i x"
      using less.prems(4,5) ev by simp_all
    from less.hyps [OF dist inv h'(1) flush this, unfolded same]
    obtain evs' N1 N2 h1 where run: "net_run deliver to_worker N' evs' N1" "length evs' \<le> distance i N' w"
      and rest: "\<forall>ev \<in> set evs'. \<not> about i ev \<and> \<not> disturbs i ev" "map_of (sys_handlers (nt_rt N1)) i = Some h1" "later h' h1"
      and ended: "net_step deliver to_worker N1 (RouterDid (Ended i (client_response (hd_ac h) (hd_isPrint h) content failure))) N2"
      by blast
    have "net_run deliver to_worker N (ev # evs') N1"
      using net_run_append [OF run(1), of N "[ev]"] net_run.snoc [OF net_run.nil step] by simp
    then show ?thesis
      using ended run(2) dist ev rest later_trans [OF h'(2)] by (intro exI conjI) (assumption, auto)
  qed
qed

section \<open>Properties\<close>

text \<open>
  C1: a completion through the whole network, whatever the interleaving of the router, its other
  requests, any number of workers, reconnections and a mesh that may lose messages. When a
  request ends, its body was dispatched once and taken up once, by one worker; the response is
  what the handler makes of frames that this worker's job for this request produced, in their
  order, none of another request and none twice; and when none of them was lost (the session had
  room, the worker's sends succeeded, the mesh lost nothing) it is exactly the response due to
  the engine's answer to the client's body, streamed or buffered.
\<close>
theorem network_completion:
  assumes mesh: "framing_ok deliver" "routing_ok to_worker"
    and start: "\<forall>w. \<exists>nf f addr node tok opts. NewDaemon nf f addr node tok opts = Inr (ds w)"
    and run: "net_run deliver to_worker (net_init (rt_init stale d has_db audit) fmt faults ds pipes) evs N"
    and ended: "net_step deliver to_worker N (RouterDid (Ended i rsp)) N'"
    and h: "map_of (sys_handlers (nt_rt N)) i = Some h" "ac_streamed (hd_ac h) \<longrightarrow> (\<forall>j. hd_flush_ok h j)"
  shows "\<exists>body w answer fs. filter (about i) evs = [Opens i body, Starts w i body answer] \<and>
    subseq fs (fst (job_frames (Proxy answer))) \<and> handler_reply (h\<lparr>hd_seen := fs\<rparr>) = Some rsp \<and>
    ((\<forall>ev \<in> set evs. \<not> disturbs i ev) \<longrightarrow>
      (\<exists>content failure. engine_outcome (Proxy answer) = Some (content, failure) \<and>
         rsp = client_response (hd_ac h) (hd_isPrint h) content failure))"
proof -
  have "\<forall>w. dm_sock (ds w) = []"
    using start NewDaemon_fresh by (metis fresh_daemon_def)
  then have "net_inv evs N"
    using net_inv_run [OF run net_inv_init mesh] by simp
  then show ?thesis
    using ended h by (rule net_ended_inv)
qed

text \<open>One worker, one completion with one chunk.\<close>

definition sample_answer :: upstream where
  "sample_answer = Upstream 200 [([104], Some EOF)]"

definition sample_start :: "db \<Rightarrow> net_sys" where
  "sample_start d = net_init (rt_init 0 d False None) (\<lambda>_. '''') (\<lambda>_. Some ''not connected'') (\<lambda>_. sample_daemon) (\<lambda>_. 1)"

lemma sample_answer_frames: "job_frames (Proxy sample_answer) = ([chunk_frame [104], end_frame EOF], True)"
  by (simp add: sample_answer_def Proxy_def job_frames_def)

lemma sample_request_id: "request_id ''req-1''"
  by (simp add: request_id_def HeartbeatReqID_def HeartbeatAckReqID_def)

text \<open>Up to the start of the job: the worker was answered, the request dispatched and received.\<close>

lemma sample_started:
  "\<exists>d N h evs body. net_run prefix_pipe strip_pipe (sample_start d) evs N \<and>
     filter (about ''req-1'') evs = [Opens ''req-1'' body, Starts 0 ''req-1'' body sample_answer] \<and> (\<forall>ev \<in> set evs. \<not> disturbs ''req-1'' ev) \<and>
     sys_handlers (nt_rt N) = [(''req-1'', h)] \<and> hd_seen h = [] \<and> \<not> ac_streamed (hd_ac h) \<and>
     srv_sessions (nt_srv N) = [(''req-1'', make_chan 256)] \<and> nt_up N 0 = 0 \<and> wk_out N 0 = [] \<and> nt_pipe N 0 = 1 \<and>
     wk_jobs (nt_wk N 0) = [\<lparr>jb_backtrace = backtraceToken, jb_reqID = ''req-1'', jb_todo = [chunk_frame [104], end_frame EOF], jb_returns = True\<rparr>]"
proof -
  obtain d S1 S2 h b node where S1: "rt_step (rt_init 0 d False None) Other S1" and S2: "rt_step S1 (Open ''req-1'') S2"
    and chat: "handleChatCompletions sample_http_env sample_request (sys_srv S1) = (Opened ''req-1'' (hd_ac h), sys_srv S2)"
    and h: "sys_handlers S2 = [(''req-1'', h)]" "hd_seen h = []" "\<not> ac_streamed (hd_ac h)"
    and sess: "srv_sessions (sys_srv S2) = [(''req-1'', make_chan 256)]" and node: "ne_pipe node = 1"
    and sock: "srv_sock (sys_srv S2) = [ack_message 1 b, dispatch_message sample_http_env sample_request node]"
    using sample_open_run unfolding ack_message_def by blast
  define N1 where "N1 = (sample_start d)\<lparr>nt_rt := S1\<rparr>"
  define N2 where "N2 = N1\<lparr>nt_rt := S2, nt_ids := ''req-1'' # nt_ids N1\<rparr>"
  have step1: "net_step prefix_pipe strip_pipe (sample_start d) (RouterDid Other) N1"
    using net_step.router [of "sample_start d" Other S1] S1 by (simp add: N1_def sample_start_def net_init_def)
  have step2: "net_step prefix_pipe strip_pipe N1 (Opens ''req-1'' (rq_body sample_request)) N2"
    using net_step.opens [of N1 "''req-1''" S2] S2 chat sample_request_id
    by (simp add: N1_def N2_def sample_start_def net_init_def)
  have out: "rt_out N2 1 = [ack_message 1 b, dispatch_message sample_http_env sample_request node]"
    by (simp add: rt_out_def N2_def sock ack_message_def dispatch_message_def node)
  have wk: "wk_out N2 0 = []" "wk_jobs (nt_wk N2 0) = []" "nt_up N2 0 = 0" "nt_down N2 1 = 0" "nt_pipe N2 0 = 1"
    by (simp_all add: N2_def N1_def sample_start_def net_init_def wk_start_def sendHeartbeat_def Worker_Send_def SendMsg_def
        sample_daemon_def split: option.split)
  obtain d' log where ack: "handleAck 0 b (wk_daemon (nt_wk N2 0)) = (d', log)"
    by fastforce
  then have d': "dm_sock d' = []"
    using wk(1) by (auto simp: handleAck_def Let_def split: option.splits if_splits)
  define ev3 where "ev3 = (case unmarshal_HeartbeatAck b of None \<Rightarrow> Idle | Some a \<Rightarrow> AckSeen a)"
  define N3 where "N3 = N2\<lparr>nt_wk := (nt_wk N2)(0 := (nt_wk N2 0)\<lparr>wk_daemon := d'\<rparr>), nt_down := (nt_down N2)(1 := 1)\<rparr>"
  have step3: "net_step prefix_pipe strip_pipe N2 (WorkerDid 0 ev3 False) N3"
    using net_step.acked [of N2 0 1 strip_pipe backtraceToken "\<lparr>env_ReqID = HeartbeatAckReqID, env_Payload = b\<rparr>" 0 d' log ev3 prefix_pipe]
      ack_reaches_worker [OF routing_ok_strip_pipe, of 1 b]
    by (simp add: wk out ack ev3_def N3_def)
  define e where "e = \<lparr>env_ReqID = ''req-1'', env_Payload = rq_body sample_request\<rparr>"
  have disp: "Run_dispatch (strip_pipe (dispatch_message sample_http_env sample_request node)) = Some (backtraceToken, e)"
    using dispatch_reaches_worker [OF routing_ok_strip_pipe, of sample_http_env sample_request node] by (simp add: e_def sample_http_env_def)
  define W where "W = (nt_wk N3 0)\<lparr>wk_daemon := (wk_daemon (nt_wk N3 0))\<lparr>dm_activeRequests := dm_activeRequests (wk_daemon (nt_wk N3 0)) + 1\<rparr>,
         wk_jobs := wk_jobs (nt_wk N3 0) @ [\<lparr>jb_backtrace = backtraceToken, jb_reqID = env_ReqID e, jb_todo = [chunk_frame [104], end_frame EOF], jb_returns = True\<rparr>]\<rparr>"
  define N4 where "N4 = N3\<lparr>nt_wk := (nt_wk N3)(0 := W), nt_down := (nt_down N3)(1 := 2)\<rparr>"
  have "rt_out N3 1 = rt_out N2 1"
    by (simp add: rt_out_def N3_def)
  then have step4: "net_step prefix_pipe strip_pipe N3 (Starts 0 ''req-1'' (rq_body sample_request) sample_answer) N4"
    using net_step.starts [of N3 0 1 strip_pipe backtraceToken e sample_answer _ _ W prefix_pipe, OF _ _ _ _ _ sample_answer_frames] disp
    by (simp add: out wk e_def W_def N4_def frame_valid_def HeartbeatReqID_def HeartbeatAckReqID_def N3_def numeral_2_eq_2)
  have "net_run prefix_pipe strip_pipe (sample_start d)
      (((([] @ [RouterDid Other]) @ [Opens ''req-1'' (rq_body sample_request)]) @ [WorkerDid 0 ev3 False]) @ [Starts 0 ''req-1'' (rq_body sample_request) sample_answer]) N4"
    by (rule net_run.snoc [OF net_run.snoc [OF net_run.snoc [OF net_run.snoc [OF net_run.nil step1] step2] step3] step4])
  moreover have "\<not> disturbs ''req-1'' (WorkerDid 0 ev3 False)"
    by (simp add: ev3_def split: option.split)
  ultimately show ?thesis
    using h sess wk d' by (intro exI) (auto simp: N4_def N3_def N2_def W_def e_def)
qed

lemma sample_completed:
  "\<exists>d evs N N' h rsp body. net_run prefix_pipe strip_pipe (sample_start d) evs N \<and>
     net_step prefix_pipe strip_pipe N (RouterDid (Ended ''req-1'' rsp)) N' \<and>
     map_of (sys_handlers (nt_rt N)) ''req-1'' = Some h \<and> \<not> ac_streamed (hd_ac h) \<and>
     filter (about ''req-1'') evs = [Opens ''req-1'' body, Starts 0 ''req-1'' body sample_answer] \<and> (\<forall>ev \<in> set evs. \<not> disturbs ''req-1'' ev)"
proof -
  obtain d N h evs body where run: "net_run prefix_pipe strip_pipe (sample_start d) evs N"
    and evs: "filter (about ''req-1'') evs = [Opens ''req-1'' body, Starts 0 ''req-1'' body sample_answer]" "\<forall>ev \<in> set evs. \<not> disturbs ''req-1'' ev"
    and h: "sys_handlers (nt_rt N) = [(''req-1'', h)]" "\<not> ac_streamed (hd_ac h)"
    using sample_started by blast
  have inv: "net_inv evs N"
    using run unfolding sample_start_def by (rule net_inv_run) (simp_all add: net_inv_init sample_daemon_def)
  have h': "map_of (sys_handlers (nt_rt N)) ''req-1'' = Some h" "ac_streamed (hd_ac h) \<longrightarrow> (\<forall>j. hd_flush_ok h j)"
    using h by simp_all
  have "engine_outcome (Proxy sample_answer) = Some ([104], None)"
    by (simp add: sample_answer_def Proxy_def)
  from net_can_finish [OF framing_ok_prefix_pipe routing_ok_strip_pipe inv h' evs this]
  obtain evs' N' N'' h' rsp where late: "net_run prefix_pipe strip_pipe N evs' N'"
    "\<forall>ev \<in> set evs'. \<not> about ''req-1'' ev \<and> \<not> disturbs ''req-1'' ev" "map_of (sys_handlers (nt_rt N')) ''req-1'' = Some h'" "later h h'"
    "net_step prefix_pipe strip_pipe N' (RouterDid (Ended ''req-1'' rsp)) N''"
    by blast
  have "filter (about ''req-1'') (evs @ evs') = [Opens ''req-1'' body, Starts 0 ''req-1'' body sample_answer]"
    using evs(1) late(2) by (simp add: filter_empty_conv)
  moreover have "\<forall>ev \<in> set (evs @ evs'). \<not> disturbs ''req-1'' ev" "\<not> ac_streamed (hd_ac h')"
    using evs(2) late(2,4) h(2) later_simps by auto
  ultimately show ?thesis
    using net_run_append [OF late(1) run] late(3,5) by blast
qed

theorem network_completion_witness:
  "\<exists>d evs N N' rsp. net_run prefix_pipe strip_pipe (sample_start d) evs N \<and>
     net_step prefix_pipe strip_pipe N (RouterDid (Ended ''req-1'' rsp)) N' \<and>
     rsp = \<lparr>rs_status = 200, rs_type = TypeSet ''application/json'', rs_body = RawBody [104]\<rparr>"
proof -
  obtain d evs N N' h rsp body where run: "net_run prefix_pipe strip_pipe (sample_start d) evs N"
    and ended: "net_step prefix_pipe strip_pipe N (RouterDid (Ended ''req-1'' rsp)) N'"
    and h: "map_of (sys_handlers (nt_rt N)) ''req-1'' = Some h" "\<not> ac_streamed (hd_ac h)"
    and evs: "filter (about ''req-1'') evs = [Opens ''req-1'' body, Starts 0 ''req-1'' body sample_answer]" "\<forall>ev \<in> set evs. \<not> disturbs ''req-1'' ev"
    using sample_completed by blast
  have new: "\<forall>w :: nat. \<exists>nf f addr node tok opts. NewDaemon nf f addr node tok opts = Inr sample_daemon"
    using sample_daemon_new by blast
  have "rsp = client_response (hd_ac h) (hd_isPrint h) [104] None"
    using network_completion [OF framing_ok_prefix_pipe routing_ok_strip_pipe new run [unfolded sample_start_def] ended h(1)] h(2) evs
    by (auto simp: sample_answer_def Proxy_def)
  then show ?thesis
    using run ended h(2) by (auto simp: client_response_def)
qed

text \<open>
  C2: a request is never stuck. In every reachable state of the network in which a request was
  taken up by a worker whose engine's answer has ended, nothing of it was lost and its handler
  still waits, whatever the other requests and workers did, the network can go on to the end of
  the request, with exactly the response due to the engine's answer: the handler can take a
  frame, or a message of the worker can arrive, or the worker can send the next frame, and after
  a bounded number of such steps the handler returns.
\<close>
theorem network_finishes:
  assumes mesh: "framing_ok deliver" "routing_ok to_worker"
    and start: "\<forall>w. \<exists>nf f addr node tok opts. NewDaemon nf f addr node tok opts = Inr (ds w)"
    and run: "net_run deliver to_worker (net_init (rt_init stale d has_db audit) fmt faults ds pipes) evs N"
    and h: "map_of (sys_handlers (nt_rt N)) i = Some h" "ac_streamed (hd_ac h) \<longrightarrow> (\<forall>j. hd_flush_ok h j)"
    and taken: "filter (about i) evs = [Opens i body, Starts w i body answer]" "\<forall>ev \<in> set evs. \<not> disturbs i ev"
    and answer: "engine_outcome (Proxy answer) = Some (content, failure)"
  shows "\<exists>evs' N' N''. net_run deliver to_worker N evs' N' \<and> (\<forall>ev \<in> set evs'. \<not> disturbs i ev) \<and> length evs' \<le> distance i N w \<and>
    net_step deliver to_worker N' (RouterDid (Ended i (client_response (hd_ac h) (hd_isPrint h) content failure))) N''"
proof -
  have "\<forall>w. dm_sock (ds w) = []"
    using start NewDaemon_fresh by (metis fresh_daemon_def)
  then have "net_inv evs N"
    using net_inv_run [OF run net_inv_init mesh] by simp
  from net_can_finish [OF mesh this h taken answer] show ?thesis
    by blast
qed

theorem network_finishes_witness:
  "\<exists>d evs N N' N''. net_run prefix_pipe strip_pipe (sample_start d) evs N \<and> (\<exists>evs'. net_run prefix_pipe strip_pipe N evs' N') \<and>
     net_step prefix_pipe strip_pipe N'
       (RouterDid (Ended ''req-1'' \<lparr>rs_status = 200, rs_type = TypeSet ''application/json'', rs_body = RawBody [104]\<rparr>)) N''"
proof -
  obtain d N h evs body where run: "net_run prefix_pipe strip_pipe (sample_start d) evs N"
    and evs: "filter (about ''req-1'') evs = [Opens ''req-1'' body, Starts 0 ''req-1'' body sample_answer]" "\<forall>ev \<in> set evs. \<not> disturbs ''req-1'' ev"
    and h: "sys_handlers (nt_rt N) = [(''req-1'', h)]" "\<not> ac_streamed (hd_ac h)"
    using sample_started by blast
  have new: "\<forall>w :: nat. \<exists>nf f addr node tok opts. NewDaemon nf f addr node tok opts = Inr sample_daemon"
    using sample_daemon_new by blast
  have h': "map_of (sys_handlers (nt_rt N)) ''req-1'' = Some h" "ac_streamed (hd_ac h) \<longrightarrow> (\<forall>j. hd_flush_ok h j)"
    using h by simp_all
  have "engine_outcome (Proxy sample_answer) = Some ([104], None)"
    by (simp add: sample_answer_def Proxy_def)
  moreover have "client_response (hd_ac h) (hd_isPrint h) [104] None =
      \<lparr>rs_status = 200, rs_type = TypeSet ''application/json'', rs_body = RawBody [104]\<rparr>"
    using h(2) by (simp add: client_response_def)
  ultimately show ?thesis
    using network_finishes [OF framing_ok_prefix_pipe routing_ok_strip_pipe new run [unfolded sample_start_def] h' evs] run by metis
qed

end
