(* ===== verification/TestSupport.thy ===== *)
theory TestSupport
  imports Composition
begin

text \<open>
  The engine stubs of \<open>src/internal/testutil/stub.go\<close>, which the program's own tests put in the
  place of an inference engine: what their handlers write, and the server-sent events they are fed
  with. The lemmas say what a test may conclude from them: a worker relays exactly the joined lines,
  and a line of plain text is an event whose data is the JSON of a delta.
\<close>

section \<open>The stubs\<close>

datatype stub_write = Write string | Flush

record stub_response =
  sr_type :: string
  sr_status :: int
  sr_writes :: "stub_write list"

definition NewStreamingEngineStub :: "bool \<Rightarrow> string list \<Rightarrow> stub_response" where
  "NewStreamingEngineStub flusher lines =
     \<lparr>sr_type = ''text/event-stream'', sr_status = 200,
      sr_writes = concat (map (\<lambda>l. Write l # (if flusher then [Flush] else [])) lines)\<rparr>"

definition NewNonStreamingEngineStub :: "string \<Rightarrow> stub_response" where
  "NewNonStreamingEngineStub body = \<lparr>sr_type = ''application/json'', sr_status = 200, sr_writes = [Write body]\<rparr>"

definition sse_line :: "string \<Rightarrow> string" where
  "sse_line d =
     ''data: {'' @ [dquote] @ ''choices'' @ [dquote] @ '':[{'' @ [dquote] @ ''delta'' @ [dquote] @ '':{'' @ [dquote] @ ''content'' @ [dquote]
       @ '':'' @ [dquote] @ d @ [dquote] @ ''}}]}'' @ [CHR 0x0A, CHR 0x0A]"

definition SSELines :: "string list \<Rightarrow> string list" where
  "SSELines deltas = map sse_line deltas @ [''data: [DONE]'' @ [CHR 0x0A, CHR 0x0A]]"

definition JoinLines :: "string list \<Rightarrow> string" where
  "JoinLines lines = concat lines"

section \<open>What a worker makes of them\<close>

text \<open>The body a client reads, however the writes are cut into reads.\<close>

fun written :: "stub_write \<Rightarrow> string" where
  "written (Write s) = s"
| "written Flush = ''''"

definition sr_body :: "stub_response \<Rightarrow> string" where
  "sr_body r = concat (map written (sr_writes r))"

definition reads_of :: "stub_response \<Rightarrow> body_read list \<Rightarrow> bool" where
  "reads_of r reads \<longleftrightarrow> (\<exists>pre dat. reads = pre @ [(dat, Some EOF)] \<and> (\<forall>(d, e) \<in> set pre. e = None) \<and>
     concat (map fst pre) @ dat = bytes_of_string (sr_body r))"

lemma streaming_stub_body: "sr_body (NewStreamingEngineStub flusher lines) = JoinLines lines"
  by (induction lines) (simp_all add: sr_body_def NewStreamingEngineStub_def JoinLines_def)

lemma body_outcome_reads:
  "\<forall>(d, e) \<in> set pre. e = None \<Longrightarrow> body_outcome (pre @ [(dat, Some EOF)]) = Some (concat (map fst pre) @ dat, None)"
  by (induction pre) auto

lemma stub_relayed:
  assumes "reads_of r reads" "sr_status r = 200"
  shows "\<exists>cs. job_frames (Proxy (Upstream (sr_status r) reads)) = (map chunk_frame cs @ [outcome_frame None], True) \<and>
    concat cs = bytes_of_string (sr_body r)"
proof -
  from assms(1) have "body_outcome reads = Some (bytes_of_string (sr_body r), None)"
    using body_outcome_reads by (fastforce simp: reads_of_def)
  then have "engine_outcome (Proxy (Upstream (sr_status r) reads)) = Some (bytes_of_string (sr_body r), None)"
    by (simp add: Proxy_def assms(2))
  from job_frames_outcome [OF this] show ?thesis .
qed

lemmas streaming_stub_relayed = stub_relayed [of "NewStreamingEngineStub flusher lines" for flusher lines, unfolded streaming_stub_body]

text \<open>A delta that needs no escaping makes an event with JSON data.\<close>

definition delta_json :: "string \<Rightarrow> json" where
  "delta_json d = JObj [(''choices'', JArr [JObj [(''delta'', JObj [(''content'', JStr d)])]])]"

lemma sse_line_json:
  assumes "json_string d = [dquote] @ d @ [dquote]"
  shows "\<exists>ev. sse_line d = ''data: '' @ ev @ [CHR 0x0A, CHR 0x0A] \<and> json_parse ev = Some (delta_json (to_valid d))"
proof (intro exI conjI)
  show "sse_line d = ''data: '' @ json_print (delta_json d) @ [CHR 0x0A, CHR 0x0A]"
    by (simp add: sse_line_def delta_json_def assms)
      (simp add: json_string_def json_rune_def json_ascii_def json_safe_def dquote_def backslash_def byte_val_def)
  show "json_parse (json_print (delta_json d)) = Some (delta_json (to_valid d))"
    using json_roundtrip(1) [of "delta_json d"] by (simp add: delta_json_def maxNestingDepth_def byte_val_def)
qed

end
