(* ===== verification/Spec2Isabelle.thy ===== *)
theory Spec2Isabelle
  imports Protocol Mesh MeshTLS WsTransport Store Auth Nodes AuditLog Router Catalog Worker Session Admin Pages Config Commands Composition Network TestSupport
begin

text \<open>
  A model of linguine, the repository's router and worker for OpenAI-compatible completions, and
  the theorems that make it correct.

  The program. A client posts a completion to the router (\<open>internal/router\<close>), which checks its
  API key, picks the least loaded worker and sends the request over a message mesh
  (\<open>internal/mesh\<close>, on the mangos library) to a worker (\<open>internal/worker\<close>). The worker proxies
  it to its local engine (\<open>internal/engine\<close>) and sends the response back in frames
  (\<open>internal/protocol\<close>), which the router hands to the waiting HTTP handler. Workers announce
  themselves by heartbeats that carry an enrollment token and the models of their engine
  (\<open>internal/catalog\<close>). Keys, tokens, nodes and the request log live in SQLite
  (\<open>internal/store\<close>, \<open>internal/auth\<close>, \<open>internal/audit\<close>); operators use a dashboard
  (\<open>internal/admin\<close>) or the command line (\<open>cmd/linguine\<close>). \<open>internal/config\<close> reads the
  configuration of both programs, \<open>cmd/worker\<close> starts the worker.

  The theories, and what their lemmas show.

  \<^item> Prelude: bytes, strings and Go's string functions, checked slices, association lists as Go
    maps (\<open>gomap\<close>, with the iteration order a parameter), buffered channels (locale and
    interpretation), clocks. Encoding: hexadecimal, decimal and base64, with round trips.
  \<^item> What the program uses of Go's standard library. Unicode: UTF-8 and \<open>strconv.Quote\<close>. Json: the
    tokens, the parser with its nesting limit, the encoder and the decoding into structs of
    \<open>encoding/json\<close>; what is encoded is read back. Url: \<open>url.Parse\<close> and \<open>url.ParseRequestURI\<close>.
    Net: \<open>net.ParseIP\<close> and loopback addresses.
  \<^item> Protocol (\<open>frame.go\<close>, \<open>envelope.go\<close>, \<open>heartbeat.go\<close>): the codecs are interpretations of
    the locale \<open>canonical_codec\<close>; an out-of-range slice is a value, so its absence is a theorem.
    Messages: the JSON the struct tags of heartbeats and acknowledgements stand for, the members
    the router reads of a request, the error object and the engine's model list. ErrorEvents: for
    which messages the error event of a stream is JSON, and that it is one line.
  \<^item> Tables and Store (\<open>store.go\<close> and the migrations): the statements of the repositories on the
    six tables with their keys and constraints; the SQL splitter against a grammar of scripts, and
    the migration runner, which is a prefix of complete migrations whatever fails.
  \<^item> Auth (\<open>apikey.go\<close>, \<open>enrollment.go\<close>, \<open>paseto.go\<close>): keys and tokens. The locale
    \<open>credential_store\<close> states what a revocation promises; the repositories, the dashboard and
    the whole program are its interpretations.
  \<^item> Mesh and MeshTLS (\<open>socket.go\<close>, \<open>options.go\<close>, \<open>tls.go\<close>): message headers, socket
    construction, dialling and listening, certificates and pins. WsTransport
    (\<open>wstransport/ws.go\<close>, \<open>wss.go\<close>): the transport below them; its listener, the HTTP handlers and the
    accepting socket are a transition system (\<open>ws_step\<close>, \<open>ws_run\<close>) over a store of pipes.
  \<^item> Nodes (\<open>nodes.go\<close>, \<open>fleet/nodeview.go\<close>): the registry as a record with its indexes, its
    reachable states (\<open>reg_reachable\<close>) and invariant; selection refines the locale
    \<open>dispatch_policy\<close>.
  \<^item> AuditLog (\<open>audit/repo.go\<close>): the buffered writer as a transition system (\<open>repo_step\<close>, with its
    runs \<open>repo_run\<close>) and the batch insert, each statement with its own fault and timestamp.
  \<^item> Router (\<open>router/server.go\<close>): every handler as a state transformer, and all of them with the
    waiting requests as a transition system (\<open>rt_step\<close>, \<open>rt_run\<close>) with its invariant
    \<open>rt_inv\<close>, and the termination of the response loops in it.
  \<^item> Catalog and Worker (\<open>probe.go\<close>, \<open>engine.go\<close>, \<open>daemon.go\<close>): the probe, the proxy, and the
    daemon as a transition system (\<open>wk_step\<close>, \<open>wk_run\<close>) whose jobs, heartbeats and messages
    interleave in any order; an iteration of the heartbeat loop is four steps, one per critical
    section (the degradation check, the reading of the state, the send, the choice of the period).
  \<^item> Session and Admin (\<open>admin/limiter.go\<close>, \<open>nonce.go\<close>, \<open>secret.go\<close>, \<open>server.go\<close>): the login
    limiter, single-use secrets, cookies, and every route of the dashboard behind its guard. Pages
    (\<open>templates.go\<close>): the templates as lists of literals and escaped values, read back by an HTML
    tokenizer.
  \<^item> Config (\<open>config.go\<close>): both configurations as interpretations of \<open>layered_config\<close>; the router's
    is characterised setting by setting over the table \<open>router_settings\<close> of its variables.
    Commands (\<open>cmd/linguine/main.go\<close>, \<open>cmd/worker/main.go\<close>): flags, the admin commands, the
    start-up and shut-down of the router as a trace of acquisitions and releases, the start of the
    worker.
  \<^item> Composition: messages between worker and router, one completion, one heartbeat, and the
    database shared by router, dashboard, command line and request log (\<open>sys_step\<close>).
  \<^item> Network: the router's and any number of workers' transition systems and the mesh between them
    in one (\<open>net_step\<close>, \<open>net_run\<close>), with reconnections and messages that get lost. Each part
    behaves in it as on its own (\<open>net_run_router\<close>, \<open>net_run_worker\<close>), and the invariant
    \<open>req_inv\<close> follows a request through its stages: not opened, dispatched, taken up by a worker.
    A response is made of the frames of its own job, and a request that lost none can always be
    brought to its end (\<open>distance\<close> counts the steps).
  \<^item> TestSupport (\<open>testutil/stub.go\<close>): the stub engines of the program's tests, and what a worker
    relays of them.

  This theory holds the other properties that span components: the registration handshake and the
  finality of both kinds of revocation in the whole program.

  How the code is modelled. A struct is a record and an operation a function from the state to
  the result and the next state; an error is a value of a sum or option type, and a nil
  dereference or an out-of-range slice is a value too. Goroutines are the steps of inductive
  relations, so a theorem about a run holds for every interleaving of handler bodies; a body
  holding a lock is one step. The transport's \<open>Listen\<close>, which takes no lock, is one step too: the
  program calls it before anything that could close the listener has the socket. What the world answers (clocks, random bytes, failures of the
  database, of the socket and of the file system) is a field of an environment record, so every
  error path is in the model. Go's map iteration and unordered queries are a permutation that the
  environment supplies.

  What is a parameter. Code outside the repository: argon2id, PASETO signing and parsing, TOML
  decoding, the SQL engine in Store, mangos (delivery, redialling), the WebSocket library, the
  HTTP framework; and of the standard library HMAC and SHA-256, X.509 and TLS, the conversion of
  floats and dates to text, and which characters outside ASCII are printable. Where a theorem
  relies on one of them the reliance is a named hypothesis: \<open>framing_ok\<close> and \<open>routing_ok\<close> for the
  headers mangos adds and removes, \<open>row_order\<close> and \<open>range_order\<close> for permutations, a 32-byte
  argon2 result, \<open>float_text\<close> for the text of a float being a number that reads back.

  Bounds. No definition uses fuel: every loop is recursion over data, over the events a loop
  sees, or a step relation, and a response loop that waits is the value \<open>Waiting\<close>. Lengths on the
  wire are 32-bit words, identifiers and sequence numbers are unbounded where the code's are 64
  bits wide and only counted up.

  Not modelled. The text of the embedded scripts of \<open>admin/static\<close>; log wording and the usage
  text; constructors and getters that only copy a field.
\<close>

section \<open>Properties of the whole program\<close>

text \<open>
  One completion, end to end, on a router and a worker that do nothing else meanwhile. When the chat endpoint opened a session, exactly one message went
  out, and the worker that receives it sees the session's id and the client's body. When that
  worker runs the job and its engine's answer to that body ends within the session's buffer of 256 frames,
  the frames the worker sends come back through the router's receive loop into that session, and
  the response the handler then gives is the engine's: its bytes, complete and in order, with
  status 200, or its error as a 502 or, in a stream, as a last event. The worker's request count
  is what it was, and neither the registry nor any other session has changed.
\<close>
lemma completion_end_to_end:
  assumes deliver: "framing_ok deliver" "routing_ok to_worker"
    and reach: "reg_reachable stale (srv_nodes s)"
    and uuid: "length (h_uuid henv) \<le> 255" "h_uuid henv \<notin> {HeartbeatReqID, HeartbeatAckReqID}"
    and opened: "handleChatCompletions henv rq s = (Opened reqID ac, s1)"
    and answer: "engine_outcome (Proxy (engine (rq_body rq))) = Some (content, failure)"
    and fits: "length (fst (job_frames (Proxy (engine (rq_body rq))))) \<le> 256" "\<forall>f \<in> set (fst (job_frames (Proxy (engine (rq_body rq))))). frame_valid f"
    and flush: "\<forall>j. fl j"
  shows "\<exists>m out ch. srv_sock s1 = srv_sock s @ [m] \<and>
    Run_dispatch (to_worker m) = Some (backtraceToken, \<lparr>env_ReqID = reqID, env_Payload = rq_body rq\<rparr>) \<and>
    reqID \<notin> {HeartbeatReqID, HeartbeatAckReqID} \<and>
    handleJob (\<lambda>_. None) engine backtraceToken \<lparr>env_ReqID = reqID, env_Payload = rq_body rq\<rparr> d = d\<lparr>dm_sock := dm_sock d @ out\<rparr> \<and>
    (let s2 = fold (\<lambda>m. handleMeshMessage renv (deliver pipe m)) out s1 in
      map_of (srv_sessions s2) = (map_of (srv_sessions s))(reqID \<mapsto> ch) \<and> srv_nodes s2 = srv_nodes s \<and>
      handler_reply \<lparr>hd_ac = ac, hd_flush_ok = fl, hd_isPrint = q, hd_seen = chan_buf ch\<rparr> =
        Some (client_response ac q content failure))"
proof -
  obtain ak node where o: "reqID = h_uuid henv"
    and s1: "s1 = s\<lparr>srv_sessions := AList.update (h_uuid henv) (make_chan 256) (srv_sessions s),
       srv_sock := srv_sock s @ [dispatch_message henv rq node]\<rparr>"
    using reachable_inv [OF reach] chat_opened_inv [OF _ opened] by metis
  let ?e = "\<lparr>env_ReqID = reqID, env_Payload = rq_body rq\<rparr>"
  obtain cs where cs: "concat cs = content" "fst (job_frames (Proxy (engine (rq_body rq)))) = map chunk_frame cs @ [outcome_frame failure]"
    and job: "handleJob (\<lambda>_. None) engine backtraceToken ?e d =
      d\<lparr>dm_sock := dm_sock d @ map (frame_message reqID) (map chunk_frame cs @ [outcome_frame failure])\<rparr>"
    using handleJob_effect [of engine ?e content failure d] answer by auto
  let ?fs = "map chunk_frame cs @ [outcome_frame failure]"
  have ch: "map_of (srv_sessions s1) reqID = Some (make_chan 256)"
    by (simp add: s1 o)
  have "length (chan_buf (make_chan 256 :: Frame chan)) + length ?fs \<le> chan_cap (make_chan 256 :: Frame chan)"
    using fits(1) cs(2) by (simp add: make_chan_def)
  note arrive = frames_arrive [OF deliver(1) _ _ _ ch this, of renv pipe]
  show ?thesis
    using arrive uuid fits(2) cs job dispatch_reaches_worker [OF deliver(2) uuid(1), of rq node]
      handler_reply_outcome [OF flush, of ac q cs failure]
    by (intro exI [of _ "dispatch_message henv rq node"] exI [of _ "map (frame_message reqID) ?fs"] exI [of _ "\<lparr>chan_cap = 256, chan_buf = ?fs\<rparr>"])
      (simp add: s1 o make_chan_def Let_def del: map_append)
qed

lemma completion_end_to_end_instance:
  "\<exists>ac s1 ch out. handleJob (\<lambda>_. None) (\<lambda>_. Upstream 200 [([104], None), ([105], Some EOF)]) backtraceToken
      \<lparr>env_ReqID = ''req-1'', env_Payload = rq_body sample_request\<rparr> sample_daemon = sample_daemon\<lparr>dm_sock := out\<rparr> \<and>
    map_of (srv_sessions (fold (\<lambda>m. handleMeshMessage sample_world (prefix_pipe 1 m)) out s1)) ''req-1'' = Some ch \<and>
    handler_reply \<lparr>hd_ac = ac, hd_flush_ok = \<lambda>_. True, hd_isPrint = \<lambda>_. True, hd_seen = chan_buf ch\<rparr> =
      Some \<lparr>rs_status = 200, rs_type = TypeSet ''application/json'', rs_body = RawBody [104, 105]\<rparr>"
proof -
  let ?up = "Upstream 200 [([104], None), ([105], Some EOF)]"
  obtain s ac s1 where s: "reg_reachable nodeStaleAfter (srv_nodes s)" "\<not> ac_streamed ac"
    and o: "handleChatCompletions sample_http_env sample_request s = (Opened ''req-1'' ac, s1)"
    using sample_opened by blast
  have job: "job_frames (Proxy ?up) = ([chunk_frame [104], chunk_frame [105], end_frame EOF], True)"
    "engine_outcome (Proxy ?up) = Some ([104, 105], None)"
    by (simp_all add: job_frames_def Proxy_def)
  have uuid: "h_uuid sample_http_env = ''req-1''"
    by (simp add: sample_http_env_def)
  have cr: "client_response ac (\<lambda>_. True) [104, 105] None =
      \<lparr>rs_status = 200, rs_type = TypeSet ''application/json'', rs_body = RawBody [104, 105]\<rparr>"
    using s(2) by (simp add: client_response_def)
  from completion_end_to_end [of prefix_pipe strip_pipe nodeStaleAfter s sample_http_env sample_request "''req-1''" ac s1 "\<lambda>_. ?up"
      "[104, 105]" None "\<lambda>_. True" sample_daemon sample_world 1 "\<lambda>_. True", OF _ _ s(1) _ _ o job(2)]
  obtain out ch where "handleJob (\<lambda>_. None) (\<lambda>_. ?up) backtraceToken \<lparr>env_ReqID = ''req-1'', env_Payload = rq_body sample_request\<rparr> sample_daemon = sample_daemon\<lparr>dm_sock := dm_sock sample_daemon @ out\<rparr>"
    "map_of (srv_sessions (fold (\<lambda>m. handleMeshMessage sample_world (prefix_pipe 1 m)) out s1)) = (map_of (srv_sessions s))(''req-1'' \<mapsto> ch)"
    "handler_reply \<lparr>hd_ac = ac, hd_flush_ok = \<lambda>_. True, hd_isPrint = \<lambda>_. True, hd_seen = chan_buf ch\<rparr> =
      Some \<lparr>rs_status = 200, rs_type = TypeSet ''application/json'', rs_body = RawBody [104, 105]\<rparr>"
    by (auto simp: job uuid cr Let_def frame_valid_def HeartbeatReqID_def HeartbeatAckReqID_def)
  then show ?thesis
    by (intro exI [of _ ac] exI [of _ s1] exI [of _ ch] exI [of _ out]) (simp add: sample_daemon_def)
qed

text \<open>
  C3: the registration handshake. A heartbeat the worker sends is answered by exactly one
  message; the worker that receives the answer is registered exactly when its token stands for
  an active enrollment. In that case, and at the same time, the router has the node under the
  enrolled name, on the pipe the heartbeat came from and with the reported telemetry, and from
  then on the dispatcher finds a worker until the stale limit has passed without another
  heartbeat. In the other case the worker is connecting and the router knows no node it did not
  know before. Both messages are the JSON text the two sides write and read; a byte that is not
  UTF-8 arrives as U+FFFD, in the token as in the telemetry.
\<close>
theorem registration_handshake:
  assumes mesh: "framing_ok deliver" "routing_ok to_worker" "w_send_fault env = None"
    and count: "int64 (dm_activeRequests d)"
    and reach: "reg_reachable stale (srv_nodes s)" "range_order (w_ord env)" "range_order (w_ord' env)"
  shows "\<exists>m a payload. dm_sock (sendHeartbeat fmt None d) = dm_sock d @ [m] \<and>
    (let s' = handleMeshMessage env (deliver pipe m) s;
         d' = fst (handleAck now payload (sendHeartbeat fmt None d))
     in srv_sock s' = srv_sock s @ [a] \<and>
        Run_dispatch (to_worker a) = Some (backtraceToken, \<lparr>env_ReqID = HeartbeatAckReqID, env_Payload = payload\<rparr>) \<and>
        dm_lastAck d' = Some now \<and>
        (case token_enrollment env (to_valid (dm_enrollmentToken d)) (srv_db s) of
           Some enr \<Rightarrow>
             dm_state d' = ConnStateRegistered \<and>
             (\<exists>syn. map_of (byID (srv_nodes s')) (enr_NodeName enr) =
                Some ((hb_entry env enr pipe (clean_Heartbeat (heartbeat_of d)))\<lparr>ne_syncedCatalog := syn\<rparr>)) \<and>
             (\<forall>t. time_sub t (w_now env) \<le> stale \<longrightarrow> (\<exists>node. selectLeastConnections t (srv_nodes s') = Inr (Some node)))
         | None \<Rightarrow> dm_state d' = ConnStateConnecting \<and> byID (srv_nodes s') = byID (srv_nodes s)))"
proof -
  define hb where "hb = Marshal (Heartbeat_json fmt (heartbeat_of d))"
  note json = heartbeat_of_arrives(1) [where fmt = fmt, OF count, folded hb_def]
    heartbeat_of_arrives(2) [where fmt = fmt and parse = "w_parse_float env", OF count, folded hb_def]
  let ?e = "\<lparr>env_ReqID = HeartbeatReqID, env_Payload = hb\<rparr>" and ?d = "sendHeartbeat fmt None d"
    and ?h = "clean_Heartbeat (heartbeat_of d)"
  define s' where "s' = handleHeartbeat env pipe ?e s"
  have s': "handleMeshMessage env (deliver pipe (heartbeat_message hb)) s = s'"
    by (simp add: s'_def handle_heartbeat_message [OF mesh(1)])
  have "unmarshal_Heartbeat (w_parse_float env) (env_Payload ?e) = Some ?h"
    using json(2) by simp
  from heartbeat_outcome [OF this mesh(3) reach, of pipe, folded s'_def] obtain ack
    where p: "srv_sock s' = srv_sock s @ [ack_message pipe (marshal_HeartbeatAck ack)]"
    and outcome: "case token_enrollment env (to_valid (dm_enrollmentToken d)) (srv_db s) of
       Some enr \<Rightarrow> ack_OK ack \<and>
         (\<exists>syn. map_of (byID (srv_nodes s')) (enr_NodeName enr) =
            Some ((hb_entry env enr pipe ?h)\<lparr>ne_syncedCatalog := syn\<rparr>)) \<and>
         (\<forall>t. time_sub t (w_now env) \<le> stale \<longrightarrow> (\<exists>node. selectLeastConnections t (srv_nodes s') = Inr (Some node)))
     | None \<Rightarrow> \<not> ack_OK ack \<and> byID (srv_nodes s') = byID (srv_nodes s)"
    by auto
  then show ?thesis
    using handleAck_state [of now ack ?d] ack_reaches_worker [OF mesh(2), of pipe "marshal_HeartbeatAck ack"]
    by (intro exI [of _ "heartbeat_message hb"] exI [of _ "ack_message pipe (marshal_HeartbeatAck ack)"]
        exI [of _ "marshal_HeartbeatAck ack"])
      (simp add: s' sendHeartbeat_sock [where fmt = fmt, OF json(1)] Let_def split: option.splits)
qed

theorem registration_handshake_witness:
  "\<exists>m payload. dm_state (fst (handleAck 6 payload (sendHeartbeat (\<lambda>_. ''0'') None sample_daemon))) = ConnStateRegistered \<and>
    (\<exists>syn. map_of (byID (srv_nodes (handleMeshMessage sample_world (prefix_pipe 1 m) (New 0 sample_node_db False None)))) ''a'' =
      Some ((hb_entry sample_world \<lparr>enr_ID = ''t-a'', enr_NodeName = ''a''\<rparr> 1
        (clean_Heartbeat (heartbeat_of sample_daemon)))\<lparr>ne_syncedCatalog := syn\<rparr>))"
proof -
  have w: "w_send_fault sample_world = None" "int64 (dm_activeRequests sample_daemon)"
    "range_order (w_ord sample_world)" "range_order (w_ord' sample_world)"
    by (simp_all add: sample_world_def sample_daemon_def int64_def)
  have reach: "reg_reachable nodeStaleAfter (srv_nodes (New 0 sample_node_db False None))"
    by (simp add: New_def reg_reachable.intros)
  have tok: "token_enrollment sample_world (to_valid (dm_enrollmentToken sample_daemon)) (srv_db (New 0 sample_node_db False None)) =
      Some \<lparr>enr_ID = ''t-a'', enr_NodeName = ''a''\<rparr>"
    by (simp add: token_enrollment_def sample_world_simps Signer_Parse_def Enrollment_IsActive_def New_def
        sample_node_db_def expired_def)
  from registration_handshake [of prefix_pipe strip_pipe sample_world sample_daemon nodeStaleAfter
      "New 0 sample_node_db False None" "\<lambda>_. ''0''" 1 6, OF _ _ w(1,2) reach w(3,4)] tok
  show ?thesis by (force simp: Let_def)
qed

text \<open>
  C4: a revoked key is finished everywhere. When the command line printed that a key was revoked,
  or the dashboard answered its revocation with the key list, then whatever the program does
  afterwards (heartbeats, completions, dashboard requests, commands and audit writes in any
  order), no completion is ever again opened for that key and no dashboard request runs in a
  session of it.
\<close>
theorem revoked_key_finished:
  fixes ops :: "'k sys_op list"
  assumes "(\<exists>w. adminRevokeKey env path args \<lparr>cw_db = sy_db S, cw_file = sy_file S\<rparr> = (RevokedPrinted i, w) \<and> sy_db S1 = cw_db w)
      \<or> (\<exists>a. keyRevoke aenv me i (admin_of S) = (Redirect ''/admin/keys'' NoCookie, a) \<and> sy_db S1 = adm_db a)"
    and "S2 = fold sys_step ops S1" "row_order (h_ord henv)"
  shows "(\<forall>reqID ac s'. handleChatCompletions henv rq (router_of S2) = (Opened reqID ac, s') \<longrightarrow> ac_apiKeyID ac \<noteq> i) \<and>
    requireSession aenv2 cookie (admin_of S2) \<noteq> Inr i"
proof -
  have "key_revoked (sy_db S1) i"
    using assms(1) cli_revoke_revokes dashboard_revoke_revokes by metis
  then have "key_revoked (sy_db S2) i"
    unfolding assms(2) by (rule system_keys.revoked_run)
  then have "key_revoked (srv_db (router_of S2)) i" "key_revoked (adm_db (admin_of S2)) i"
    by simp_all
  then show ?thesis
    using key_revoked_refused [OF _ assms(3)] key_revoked_no_session opened_authenticated by metis
qed

text \<open>
  C5: a revoked worker token is finished. When the dashboard answered the revocation of an
  enrollment token with the token list, then whatever the program does afterwards, a heartbeat
  that presents that token is refused: the answer is not OK. From the revocation on nothing makes
  or refreshes an entry of the token: what the registry still has under it, it had then. So the
  dispatcher can select such a worker only as long as its last heartbeat before the revocation is
  not older than the stale limit.
\<close>
theorem revoked_token_finished:
  fixes ops :: "'k sys_op list"
  assumes "workerKeyRevoke aenv i (admin_of S) = (Redirect ''/admin/worker-keys'' NoCookie, a)" "sy_db S1 = adm_db a"
    and "S2 = fold sys_step ops S1"
    and hb: "unmarshal_Heartbeat (w_parse_float env) (env_Payload e) = Some hb"
      "Signer_Parse (w_parseV4 env) (w_now env) (hb_EnrollmentToken hb) = Inr enr" "enr_ID enr = i"
    and sent: "w_send_fault env = None"
  shows "\<exists>ack s3. s3 = handleHeartbeat env pipe e (router_of S2) \<and> \<not> ack_OK ack \<and>
    srv_sock s3 = srv_sock (sy_srv S2) @ [ack_message pipe (marshal_HeartbeatAck ack)] \<and>
    (\<forall>n x. map_of (byID (srv_nodes s3)) n = Some x \<and> ne_tokenID x = i \<longrightarrow>
       map_of (byID (srv_nodes (sy_srv S1))) n = Some x) \<and>
    (\<forall>t node. selectLeastConnections t (srv_nodes s3) = Inr (Some node) \<and> ne_tokenID node = i \<longrightarrow>
       (\<exists>n. map_of (byID (srv_nodes (sy_srv S1))) n = Some node) \<and>
       time_sub t (ne_lastSeen node) \<le> staleAfter (srv_nodes (sy_srv S1)))"
proof -
  let ?s3 = "handleHeartbeat env pipe e (router_of S2)"
  have rev1: "token_revoked (sy_db S1) i"
    using dashboard_token_revoke_revokes [OF assms(1)] assms(2) by simp
  then have rev2: "token_revoked (srv_db (router_of S2)) i"
    using system_tokens.revoked_run [of S1 i ops] by (simp add: assms(3))
  then have none: "accepted_enrollment env e (srv_db (router_of S2)) = None"
    using token_revoked_not_accepted [OF rev2, of env e hb enr] hb by (auto simp: accepted_enrollment_def)
  have old: "only_old i (srv_nodes (sy_srv S1)) (srv_nodes ?s3)"
    using only_old_trans [OF sys_run_only_old [OF rev1, of ops]] heartbeat_only_old [OF rev2] by (simp add: assms(3))
  have "(\<exists>n. map_of (byID (srv_nodes (sy_srv S1))) n = Some node) \<and>
      time_sub t (ne_lastSeen node) \<le> staleAfter (srv_nodes (sy_srv S1))"
    if "selectLeastConnections t (srv_nodes ?s3) = Inr (Some node)" "ne_tokenID node = i" for t node
    using selected_fresh [OF that(1)] that(2) old by (auto simp: only_old_def)
  moreover obtain ack where "\<not> ack_OK ack" "srv_sock ?s3 = srv_sock (sy_srv S2) @ [ack_message pipe (marshal_HeartbeatAck ack)]"
    using heartbeat_answered_truthfully [OF sent, of pipe e "router_of S2"] none by auto
  ultimately show ?thesis
    using old unfolding only_old_def by blast
qed

theorem revoked_key_finished_witness:
  "\<exists>a. keyRevoke sample_adm_env ''k1'' ''k2'' (admin_of sample_system) = (Redirect ''/admin/keys'' NoCookie, a) \<and>
    requireSession sample_adm_env (sample_cookie ''k2'')
      (admin_of (fold (sys_step :: nat sys_op \<Rightarrow> _) [OnMesh sample_world sample_hb_msg] (sample_system\<lparr>sy_db := adm_db a\<rparr>))) \<noteq> Inr ''k2''"
proof -
  let ?S1 = "\<lambda>a. sample_system\<lparr>sy_db := adm_db a\<rparr>"
  obtain a where a: "keyRevoke sample_adm_env ''k1'' ''k2'' (admin_of sample_system) = (Redirect ''/admin/keys'' NoCookie, a)"
    by (simp add: keyRevoke_def APIKey_Revoke_def update_api_key_def sample_key_row_def sample_adm_env_def
        sample_system_def sample_admin_def newAdmin_def)
  have "requireSession sample_adm_env (sample_cookie ''k2'')
      (admin_of (fold (sys_step :: nat sys_op \<Rightarrow> _) [OnMesh sample_world sample_hb_msg] (?S1 a))) \<noteq> Inr ''k2''"
    by (rule revoked_key_finished [where S = sample_system and ?S1.0 = "?S1 a" and ops = "[OnMesh sample_world sample_hb_msg]"
        and aenv = sample_adm_env and me = "''k1''" and henv = sample_http_env, THEN conjunct2])
      (use a in \<open>simp_all add: sample_http_env_def row_order_def\<close>)
  with a show ?thesis by blast
qed

text \<open>
  A worker registered at time 5 with a token that is then revoked: its next heartbeat is refused,
  and a minute later the dispatcher does not select it.
\<close>

lemma sample_s1_nodes:
  "byID (srv_nodes (sample_s1 sample_node_db)) =
     [(''a'', hb_entry sample_world \<lparr>enr_ID = ''t-a'', enr_NodeName = ''a''\<rparr> 1 sample_hb)]"
  "staleAfter (srv_nodes (sample_s1 sample_node_db)) = 15 * Second"
proof -
  have "Enrollment_IsActive 5 None ''t-a'' sample_node_db = Inr True"
    by (simp add: Enrollment_IsActive_def sample_node_db_def expired_def)
  then show "byID (srv_nodes (sample_s1 sample_node_db)) =
      [(''a'', hb_entry sample_world \<lparr>enr_ID = ''t-a'', enr_NodeName = ''a''\<rparr> 1 sample_hb)]"
    "staleAfter (srv_nodes (sample_s1 sample_node_db)) = 15 * Second"
    by (simp_all add: sample_s1_def handleMeshMessage_def decode_sample_hb sample_pipes handleHeartbeat_def
        Signer_Parse_def New_def sample_world_simps sample_hb_arrives registry_upsert_nodes upsert_None
        newNodeRegistry_def upsert_locked_def hb_entry_def nodeStaleAfter_def)
qed

theorem revoked_token_finished_witness:
  "\<exists>a ack. workerKeyRevoke sample_adm_env ''t-a'' (admin_of sample_system) = (Redirect ''/admin/worker-keys'' NoCookie, a) \<and>
    (let S1 = sample_system\<lparr>sy_db := adm_db a, sy_srv := sample_s1 sample_node_db\<rparr>;
         s3 = handleHeartbeat sample_world 1 \<lparr>env_ReqID = HeartbeatReqID, env_Payload = sample_hb_text\<rparr> (router_of S1)
     in \<not> ack_OK ack \<and> srv_sock s3 = srv_sock (sy_srv S1) @ [ack_message 1 (marshal_HeartbeatAck ack)] \<and>
        (\<forall>node. selectLeastConnections Minute (srv_nodes s3) = Inr (Some node) \<longrightarrow> ne_tokenID node \<noteq> ''t-a''))"
proof -
  let ?e = "\<lparr>env_ReqID = HeartbeatReqID, env_Payload = sample_hb_text\<rparr>"
  obtain a where a: "workerKeyRevoke sample_adm_env ''t-a'' (admin_of sample_system) = (Redirect ''/admin/worker-keys'' NoCookie, a)"
    by (simp add: workerKeyRevoke_def Enrollment_Revoke_def update_enrollment_def sample_node_db_def sample_adm_env_def
        sample_system_def sample_admin_def newAdmin_def)
  define S1 where "S1 = sample_system\<lparr>sy_db := adm_db a, sy_srv := sample_s1 sample_node_db\<rparr>"
  let ?s3 = "handleHeartbeat sample_world 1 ?e (router_of S1)"
  have db: "sy_db S1 = adm_db a" and id: "S1 = fold sys_step ([] :: nat sys_op list) S1"
    by (simp_all add: S1_def)
  have hb: "unmarshal_Heartbeat (w_parse_float sample_world) (env_Payload ?e) = Some sample_hb"
    "Signer_Parse (w_parseV4 sample_world) (w_now sample_world) (hb_EnrollmentToken sample_hb) =
       Inr \<lparr>enr_ID = ''t-a'', enr_NodeName = ''a''\<rparr>"
    "enr_ID \<lparr>enr_ID = ''t-a'', enr_NodeName = ''a''\<rparr> = ''t-a''" "w_send_fault sample_world = None"
    by (simp_all add: sample_hb_arrives sample_world_def Signer_Parse_def)
  from revoked_token_finished [OF a db id hb, of 1] obtain ack where
    ack: "\<not> ack_OK ack" "srv_sock ?s3 = srv_sock (sy_srv S1) @ [ack_message 1 (marshal_HeartbeatAck ack)]"
    and sel: "\<forall>t node. selectLeastConnections t (srv_nodes ?s3) = Inr (Some node) \<and> ne_tokenID node = ''t-a'' \<longrightarrow>
       (\<exists>n. map_of (byID (srv_nodes (sy_srv S1))) n = Some node) \<and>
       time_sub t (ne_lastSeen node) \<le> staleAfter (srv_nodes (sy_srv S1))"
    by blast
  have "ne_tokenID node \<noteq> ''t-a''" if "selectLeastConnections Minute (srv_nodes ?s3) = Inr (Some node)" for node
    using sel [rule_format, of Minute node] that
    by (auto simp: S1_def sample_s1_nodes hb_entry_def sample_world_def time_sub_def split: if_splits)
  with a ack show ?thesis
    unfolding Let_def S1_def by blast
qed

end
